(* ===== verification/Ow_Prelude.thy ===== *)
theory Ow_Prelude
  imports Main "HOL-Library.Word" "HOL-Library.Monad_Syntax" "HOL-Library.Multiset"
    "HOL-Library.Char_ord"
begin

text \<open>
  Shared vocabulary of the development.

  C objects live at addresses (\<open>addr\<close>); a pointer that may be \<open>NULL\<close> is an
  \<open>addr option\<close>.  Machine integers keep their width (\<open>ulong\<close> is the LP64
  \<open>unsigned long\<close>).  A C string is a HOL \<open>string\<close> without a terminating NUL.
  A C function that can fail to return normally (a failed \<open>assert\<close>, a \<open>NULL\<close>
  dereference, a loop that runs forever) returns an \<open>option\<close> whose \<open>None\<close> stands
  for that outcome; every theorem about such a function proves that the result is \<open>Some\<close>.
\<close>

type_synonym byte = "8 word"

type_synonym addr = nat
type_synonym ulong = "64 word"

named_theorems c_defs \<open>definitions of straight-line C code, unfolded by the component proofs\<close>

definition c_assert :: "bool \<Rightarrow> unit option" where
  "c_assert b = (if b then Some () else None)"

lemma c_assert_simps [simp]:
  "c_assert True = Some ()"
  "c_assert False = None"
  "(c_assert b = Some u) \<longleftrightarrow> b"
  "(c_assert b \<bind> f = Some r) \<longleftrightarrow> b \<and> f () = Some r"
  by (auto simp: c_assert_def)

lemma bind_SomeD:
  assumes "m \<bind> f = Some r"
  obtains x where "m = Some x" and "f x = Some r"
  using assms by (cases m) auto

subsection \<open>Lists\<close>

lemma hd_append_single [simp]: "hd (xs @ [x]) = (if xs = [] then x else hd xs)"
  by (cases xs) auto

lemma last_Cons_snoc [simp]: "last (a # xs @ [b]) = b"
  by (induction xs) auto

lemma distinct_map_filter_upd:
  "distinct (map f xs) \<Longrightarrow> distinct (map f (filter P xs))"
  by (induction xs) auto

lemma nth_mem_drop:
  assumes "j \<le> i" "i < length xs"
  shows "xs ! i \<in> set (drop j xs)"
  using assms nth_mem [of "i - j" "drop j xs"] by simp

subsection \<open>Machine words\<close>

lemma unat_word_Suc:
  assumes "Suc (unat (w :: 'a::len word)) < 2 ^ LENGTH('a)"
  shows "unat (w + 1) = Suc (unat w)"
  using assms by (simp add: unat_word_ariths)

lemma unat_word_pred:
  assumes "0 < unat (w :: 'a::len word)"
  shows "unat (w - 1) = unat w - 1"
proof -
  have "1 \<le> w"
    using assms by (simp add: word_le_nat_alt unat_gt_0 Suc_leI)
  then show ?thesis
    by (simp add: unat_sub)
qed

lemma less_Suc_word:
  assumes "(w :: 'a::len word) + 1 > w"
  shows "unat (w + 1) = Suc (unat w)"
proof -
  have "unat w < unat (w + 1)"
    using assms by (simp add: word_less_nat_alt)
  then have "Suc (unat w) \<noteq> 2 ^ LENGTH('a)"
    by (auto simp: unat_word_ariths)
  moreover have "unat w < 2 ^ LENGTH('a)"
    by (rule unsigned_less)
  ultimately have "Suc (unat w) < 2 ^ LENGTH('a)"
    by linarith
  then show ?thesis
    by (rule unat_word_Suc)
qed

lemma word_of_nat_unat: "of_nat (unat w) = (w :: 'a::len word)"
  by simp

lemma unat_of_nat_small: "n < 2 ^ 64 \<Longrightarrow> unat (of_nat n :: ulong) = n"
  by (simp add: unat_of_nat)

lemma unat_drop_bit_1_less:
  assumes "(w :: ulong) \<noteq> 0"
  shows "unat (drop_bit 1 w) < unat w"
proof -
  have "0 < unat w"
    using assms by (simp add: unat_gt_0)
  then show ?thesis
    by (simp add: drop_bit_Suc unat_div)
qed

subsection \<open>C strings\<close>

text \<open>\<open>strcmp\<close> of the C library: characters compare as \<open>unsigned char\<close>, and the end of a string
  (the NUL) is below every character.  Only the sign of the result is meaningful.\<close>

fun strcmp :: "string \<Rightarrow> string \<Rightarrow> int" where
  "strcmp [] [] = 0"
| "strcmp [] (b # bs) = -1"
| "strcmp (a # as) [] = 1"
| "strcmp (a # as) (b # bs) =
     (if (of_char a :: nat) < of_char b then -1
      else if (of_char b :: nat) < of_char a then 1
      else strcmp as bs)"

lemma strcmp_eq_0 [simp]: "strcmp a b = 0 \<longleftrightarrow> a = b"
  by (induction a b rule: strcmp.induct) (auto simp: not_less dest: antisym)

lemma strcmp_swap: "strcmp b a + strcmp a b = 0"
  by (induction a b rule: strcmp.induct) auto

lemma strcmp_trans: "strcmp a b \<le> 0 \<Longrightarrow> strcmp b c \<le> 0 \<Longrightarrow> strcmp a c \<le> 0"
proof (induction a b arbitrary: c rule: strcmp.induct)
  case (1 c)
  then show ?case by (cases c) auto
next
  case (2 b bs c)
  then show ?case by (cases c) auto
next
  case (4 a as b bs cs)
  then show ?case
  proof (cases cs)
    case (Cons c cs')
    consider "(of_char a :: nat) < of_char b" | "(of_char b :: nat) < of_char a" | "a = b"
      by (metis linorder_neqE_nat of_char_eq_iff)
    then show ?thesis
      using 4 Cons by cases (auto split: if_splits)
  qed simp
qed auto

text \<open>Character classes and conversions in the C locale.  \<open>atoi\<close> is \<open>strtol\<close> in base 10: leading
  white space, an optional sign, then digits up to the first other character; the value saturates
  at the range of \<open>long\<close> and is cut down to \<open>int\<close>.\<close>

definition c_isdigit :: "char \<Rightarrow> bool" where
  "c_isdigit c \<longleftrightarrow> CHR ''0'' \<le> c \<and> c \<le> CHR ''9''"

definition c_isspace :: "char \<Rightarrow> bool" where
  "c_isspace c \<longleftrightarrow> c = CHR '' '' \<or> (CHR 0x09 \<le> c \<and> c \<le> CHR 0x0D)"

definition c_tolower :: "char \<Rightarrow> char" where
  "c_tolower c = (if CHR ''A'' \<le> c \<and> c \<le> CHR ''Z'' then char_of (of_char c + 32 :: nat) else c)"

definition strcasecmp :: "string \<Rightarrow> string \<Rightarrow> int" where
  "strcasecmp a b = strcmp (map c_tolower a) (map c_tolower b)"

definition digit_val :: "char \<Rightarrow> int" where
  "digit_val c = int (of_char c) - 48"

definition digits_val :: "string \<Rightarrow> int" where
  "digits_val ds = foldl (\<lambda>v c. 10 * v + digit_val c) 0 ds"

definition strtol10 :: "string \<Rightarrow> int" where
  "strtol10 s =
     (let s = dropWhile c_isspace s;
          neg = (s \<noteq> [] \<and> hd s = CHR ''-'');
          s = (if s \<noteq> [] \<and> (hd s = CHR ''-'' \<or> hd s = CHR ''+'') then tl s else s);
          v = digits_val (takeWhile c_isdigit s)
      in max (- (2 ^ 63)) (min (2 ^ 63 - 1) (if neg then - v else v)))"

definition atoi :: "string \<Rightarrow> int" where
  "atoi s = sint (word_of_int (strtol10 s) :: 32 word)"

text \<open>\<open>strstr\<close>, \<open>strchr\<close> and \<open>strrchr\<close>: the rest of the string from the match on.\<close>

fun strstr :: "string \<Rightarrow> string \<Rightarrow> string option" where
  "strstr [] pat = (if pat = [] then Some [] else None)"
| "strstr (c # s) pat =
     (if take (length pat) (c # s) = pat then Some (c # s) else strstr s pat)"

fun strchr :: "string \<Rightarrow> char \<Rightarrow> string option" where
  "strchr [] c = None"
| "strchr (a # s) c = (if a = c then Some (a # s) else strchr s c)"

fun strrchr :: "string \<Rightarrow> char \<Rightarrow> string option" where
  "strrchr [] c = None"
| "strrchr (a # s) c =
     (case strrchr s c of
        Some r \<Rightarrow> Some r
      | None \<Rightarrow> if a = c then Some (a # s) else None)"

lemma strchr_suffix: "strchr s c = Some r \<Longrightarrow> \<exists>p. s = p @ r \<and> c \<notin> set p \<and> hd r = c \<and> r \<noteq> []"
proof (induction s)
  case (Cons a s)
  show ?case
  proof (cases "a = c")
    case True
    then show ?thesis using Cons.prems by (intro exI [of _ "[]"]) auto
  next
    case False
    then obtain p where "s = p @ r" "c \<notin> set p" "hd r = c" "r \<noteq> []"
      using Cons by auto
    then show ?thesis using False by (intro exI [of _ "a # p"]) auto
  qed
qed simp

lemma strrchr_suffix: "strrchr s c = Some r \<Longrightarrow> \<exists>p. s = p @ r \<and> hd r = c \<and> c \<notin> set (tl r) \<and> r \<noteq> []"
proof (induction s arbitrary: r)
  case (Cons a s)
  show ?case
  proof (cases "strrchr s c")
    case None
    then have r: "a = c" "r = a # s"
      using Cons.prems by (auto split: if_splits)
    have "c \<notin> set s"
      using None by (induction s) (auto split: option.splits if_splits)
    then show ?thesis
      using r by (intro exI [of _ "[]"]) auto
  next
    case (Some r')
    then obtain p where "s = p @ r" "hd r = c" "c \<notin> set (tl r)" "r \<noteq> []"
      using Cons by auto
    then show ?thesis by (intro exI [of _ "a # p"]) auto
  qed
qed simp

text \<open>\<open>printf\<close> of an unsigned number in decimal, and back.\<close>

fun show_nat :: "nat \<Rightarrow> string" where
  "show_nat n = (if n < 10 then [char_of (48 + n)]
                 else show_nat (n div 10) @ [char_of (48 + n mod 10)])"

declare show_nat.simps [simp del]

lemma digits_val_snoc: "digits_val (ds @ [c]) = 10 * digits_val ds + digit_val c"
  by (simp add: digits_val_def)

lemma digit_val_char_of: "n < 10 \<Longrightarrow> digit_val (char_of (48 + n)) = int n"
  by (simp add: digit_val_def)

lemma digits_val_show_nat [simp]: "digits_val (show_nat n) = int n"
proof (induction n rule: show_nat.induct)
  case (1 n)
  show ?case
  proof (cases "n < 10")
    case True
    then show ?thesis
      by (subst show_nat.simps) (simp add: digits_val_def digit_val_char_of)
  next
    case False
    then have "digits_val (show_nat n) = 10 * digits_val (show_nat (n div 10)) + int (n mod 10)"
      by (subst show_nat.simps) (simp add: digits_val_snoc digit_val_char_of)
    moreover have "10 * int (n div 10) + int (n mod 10) = int n"
      by (metis mult_div_mod_eq of_nat_add of_nat_mult of_nat_numeral)
    ultimately show ?thesis
      using 1 False by simp
  qed
qed

lemma show_nat_inject [simp]: "show_nat m = show_nat n \<longleftrightarrow> m = n"
  by (metis digits_val_show_nat of_nat_eq_iff)

lemma char_of_digit: "(n :: nat) < 10 \<Longrightarrow> c_isdigit (char_of (48 + n))"
  by (simp add: c_isdigit_def less_eq_char_def)

lemma show_nat_digits: "\<forall>c \<in> set (show_nat n). c_isdigit c"
proof (induction n rule: show_nat.induct)
  case (1 n)
  then show ?case
    by (subst show_nat.simps) (auto simp: char_of_digit)
qed

lemma show_nat_nonempty [simp]: "show_nat n \<noteq> []"
  by (subst show_nat.simps) simp

lemma length_show_nat: "n < 10 ^ k \<Longrightarrow> 0 < k \<Longrightarrow> length (show_nat n) \<le> k"
proof (induction n arbitrary: k rule: show_nat.induct)
  case (1 n)
  show ?case
  proof (cases "n < 10")
    case True
    then show ?thesis using 1 by (subst show_nat.simps) simp
  next
    case False
    obtain j where j: "k = Suc j"
      using 1(3) by (cases k) auto
    have "0 < j"
      using 1(2) False j by (cases j) auto
    with j have k: "k = Suc j" "0 < j"
      by simp_all
    then have "n div 10 < 10 ^ j"
      using 1 by (simp add: less_mult_imp_div_less mult.commute)
    then have "length (show_nat (n div 10)) \<le> j"
      using 1 False k by simp
    then show ?thesis
      using False k by (subst show_nat.simps) simp
  qed
qed

lemma length_show_nat_ge: "10 ^ k \<le> n \<Longrightarrow> k < length (show_nat n)"
proof (induction n arbitrary: k rule: show_nat.induct)
  case (1 n)
  show ?case
  proof (cases "n < 10")
    case True
    then have "k = 0"
      using 1(2) power_increasing [of 1 k "10 :: nat"] by (cases "k = 0") auto
    then show ?thesis by (simp add: show_nat_nonempty)
  next
    case False
    show ?thesis
    proof (cases k)
      case (Suc j)
      then have "10 ^ j \<le> n div 10"
        using 1(2) by (simp add: less_eq_div_iff_mult_less_eq mult.commute)
      then have "j < length (show_nat (n div 10))"
        using 1(1) False by blast
      then show ?thesis
        using False Suc by (subst show_nat.simps) simp
    qed (simp add: show_nat_nonempty)
  qed
qed

end
