(* ===== verification/Kazlib_List.thy ===== *)
theory Kazlib_List
  imports Ow_Prelude
begin

text \<open>
  The doubly linked list of \<open>src/src/lib/u/list.c\<close> (\<open>list_t\<close>, \<open>lnode_t\<close>), modelled at
  pointer level.  A node is an address; the fields \<open>next\<close>, \<open>prev\<close> and \<open>data\<close> of all
  nodes live in one store, so that splicing between two lists and aliasing are visible.  A list
  object owns its sentinel \<open>nilnode\<close>, which closes the ring.  Failed assertions,
  \<open>NULL\<close> dereferences and runaway traversals are \<open>None\<close>.

  \<open>list_rep\<close> is the representation predicate: it relates a list object and the store to the
  HOL list of its node addresses.  Every operation is shown to refine the corresponding operation
  on HOL lists, and \<open>ow_list_sort\<close> to be a merge sort.
\<close>

section \<open>The list object and the node store\<close>

record 'a lheap =
  l_next :: "addr \<Rightarrow> addr option"
  l_prev :: "addr \<Rightarrow> addr option"
  l_data :: "addr \<Rightarrow> 'a"

record list_t =
  nilnode :: addr
  nodecount :: ulong
  maxcount :: ulong

abbreviation set_next :: "addr \<Rightarrow> addr option \<Rightarrow> 'a lheap \<Rightarrow> 'a lheap" where
  "set_next a p h \<equiv> h\<lparr>l_next := (l_next h)(a := p)\<rparr>"

abbreviation set_prev :: "addr \<Rightarrow> addr option \<Rightarrow> 'a lheap \<Rightarrow> 'a lheap" where
  "set_prev a p h \<equiv> h\<lparr>l_prev := (l_prev h)(a := p)\<rparr>"

definition list_init :: "list_t \<Rightarrow> ulong \<Rightarrow> 'a lheap \<Rightarrow> (list_t \<times> 'a lheap) option" where
  "list_init l mx h = do {
     c_assert (mx \<noteq> 0);
     let h = set_next (nilnode l) (Some (nilnode l)) h;
     let h = set_prev (nilnode l) (Some (nilnode l)) h;
     Some (l\<lparr>nodecount := 0, maxcount := mx\<rparr>, h)
   }"

text \<open>\<open>list_create\<close> places the sentinel of the new object at a fresh address \<open>a\<close>;
  the case where \<open>malloc\<close> fails returns \<open>NULL\<close> and is the caller's.\<close>

definition list_create :: "addr \<Rightarrow> ulong \<Rightarrow> 'a lheap \<Rightarrow> (list_t \<times> 'a lheap) option" where
  "list_create a mx h = do {
     c_assert (mx \<noteq> 0);
     let h = set_next a (Some a) h;
     let h = set_prev a (Some a) h;
     Some (\<lparr>nilnode = a, nodecount = 0, maxcount = mx\<rparr>, h)
   }"

definition lnode_init :: "addr \<Rightarrow> 'a \<Rightarrow> 'a lheap \<Rightarrow> 'a lheap" where
  "lnode_init n d h =
     set_prev n None (set_next n None (h\<lparr>l_data := (l_data h)(n := d)\<rparr>))"

definition lnode_is_in_a_list :: "addr \<Rightarrow> 'a lheap \<Rightarrow> bool" where
  "lnode_is_in_a_list n h \<longleftrightarrow> l_next h n \<noteq> None \<or> l_prev h n \<noteq> None"

partial_function (option) list_contains_from ::
  "'a lheap \<Rightarrow> addr \<Rightarrow> addr \<Rightarrow> addr option \<Rightarrow> bool option" where
  "list_contains_from h nl node n =
     (case n of None \<Rightarrow> None
      | Some a \<Rightarrow>
          if a = nl then Some False
          else if node = a then Some True
          else list_contains_from h nl node (l_next h a))"

definition list_contains :: "list_t \<Rightarrow> addr \<Rightarrow> 'a lheap \<Rightarrow> bool option" where
  "list_contains l node h =
     list_contains_from h (nilnode l) node (l_next h (nilnode l))"

definition list_ins_after ::
  "list_t \<Rightarrow> addr \<Rightarrow> addr \<Rightarrow> 'a lheap \<Rightarrow> (list_t \<times> 'a lheap) option" where
  "list_ins_after l new this h = do {
     let that = l_next h this;
     c1 \<leftarrow> list_contains l new h;
     c_assert (\<not> c1);
     c_assert (\<not> lnode_is_in_a_list new h);
     c2 \<leftarrow> (if this = nilnode l then Some True else list_contains l this h);
     c_assert c2;
     c_assert (nodecount l + 1 > nodecount l);
     let h = set_prev new (Some this) h;
     let h = set_next new that h;
     t \<leftarrow> that;
     let h = set_prev t (Some new) h;
     let h = set_next this (Some new) h;
     let l = l\<lparr>nodecount := nodecount l + 1\<rparr>;
     c_assert (nodecount l \<le> maxcount l);
     Some (l, h)
   }"

definition list_ins_before ::
  "list_t \<Rightarrow> addr \<Rightarrow> addr \<Rightarrow> 'a lheap \<Rightarrow> (list_t \<times> 'a lheap) option" where
  "list_ins_before l new this h = do {
     let that = l_prev h this;
     c1 \<leftarrow> list_contains l new h;
     c_assert (\<not> c1);
     c_assert (\<not> lnode_is_in_a_list new h);
     c2 \<leftarrow> (if this = nilnode l then Some True else list_contains l this h);
     c_assert c2;
     c_assert (nodecount l + 1 > nodecount l);
     let h = set_next new (Some this) h;
     let h = set_prev new that h;
     t \<leftarrow> that;
     let h = set_next t (Some new) h;
     let h = set_prev this (Some new) h;
     let l = l\<lparr>nodecount := nodecount l + 1\<rparr>;
     c_assert (nodecount l \<le> maxcount l);
     Some (l, h)
   }"

definition list_delete :: "list_t \<Rightarrow> addr \<Rightarrow> 'a lheap \<Rightarrow> (addr \<times> list_t \<times> 'a lheap) option" where
  "list_delete l del h = do {
     let next = l_next h del;
     let prev = l_prev h del;
     c \<leftarrow> list_contains l del h;
     c_assert c;
     p \<leftarrow> prev;
     let h = set_next p next h;
     n \<leftarrow> next;
     let h = set_prev n prev h;
     let l = l\<lparr>nodecount := nodecount l - 1\<rparr>;
     let h = set_next del None (set_prev del None h);
     Some (del, l, h)
   }"

definition list_delete2 ::
  "list_t \<Rightarrow> addr \<Rightarrow> 'a lheap \<Rightarrow> (addr option \<times> list_t \<times> 'a lheap) option" where
  "list_delete2 l del h = do {
     let next = l_next h del;
     let prev = l_prev h del;
     c \<leftarrow> list_contains l del h;
     c_assert c;
     p \<leftarrow> prev;
     let h = set_next p next h;
     n \<leftarrow> next;
     let h = set_prev n prev h;
     let l = l\<lparr>nodecount := nodecount l - 1\<rparr>;
     let h = set_next del None (set_prev del None h);
     Some (if n = nilnode l then None else Some n, l, h)
   }"

definition ow_list_append :: "list_t \<Rightarrow> addr \<Rightarrow> 'a lheap \<Rightarrow> (list_t \<times> 'a lheap) option" where
  "ow_list_append l node h = list_ins_before l node (nilnode l) h"

definition ow_list_prepend :: "list_t \<Rightarrow> addr \<Rightarrow> 'a lheap \<Rightarrow> (list_t \<times> 'a lheap) option" where
  "ow_list_prepend l node h = list_ins_after l node (nilnode l) h"

definition ow_list_isempty :: "list_t option \<Rightarrow> bool" where
  "ow_list_isempty lp = (case lp of None \<Rightarrow> True | Some l \<Rightarrow> nodecount l = 0)"

definition ow_list_isfull :: "list_t option \<Rightarrow> bool" where
  "ow_list_isfull lp = (case lp of None \<Rightarrow> False | Some l \<Rightarrow> nodecount l = maxcount l)"

definition ow_list_first :: "list_t option \<Rightarrow> 'a lheap \<Rightarrow> addr option" where
  "ow_list_first lp h =
     (case lp of None \<Rightarrow> None
      | Some l \<Rightarrow> if l_next h (nilnode l) = Some (nilnode l) then None else l_next h (nilnode l))"

definition ow_list_last :: "list_t \<Rightarrow> 'a lheap \<Rightarrow> addr option" where
  "ow_list_last l h =
     (if l_prev h (nilnode l) = Some (nilnode l) then None else l_prev h (nilnode l))"

definition ow_list_count :: "list_t \<Rightarrow> ulong" where
  "ow_list_count l = nodecount l"

definition ow_list_next :: "list_t \<Rightarrow> addr \<Rightarrow> 'a lheap \<Rightarrow> addr option option" where
  "ow_list_next l n h = do {
     c \<leftarrow> list_contains l n h;
     c_assert c;
     Some (if l_next h n = Some (nilnode l) then None else l_next h n)
   }"

definition ow_list_prev :: "list_t \<Rightarrow> addr \<Rightarrow> 'a lheap \<Rightarrow> addr option option" where
  "ow_list_prev l n h = do {
     c \<leftarrow> list_contains l n h;
     c_assert c;
     Some (if l_prev h n = Some (nilnode l) then None else l_prev h n)
   }"

definition ow_list_del_first ::
  "list_t \<Rightarrow> 'a lheap \<Rightarrow> (addr \<times> list_t \<times> 'a lheap) option" where
  "ow_list_del_first l h = do {
     n \<leftarrow> l_next h (nilnode l);
     list_delete l n h
   }"

definition ow_list_del_last ::
  "list_t \<Rightarrow> 'a lheap \<Rightarrow> (addr \<times> list_t \<times> 'a lheap) option" where
  "ow_list_del_last l h = do {
     n \<leftarrow> l_prev h (nilnode l);
     list_delete l n h
   }"

partial_function (option) list_destroy_nodes_from ::
  "addr \<Rightarrow> addr option \<Rightarrow> 'a lheap \<Rightarrow> 'a lheap option" where
  "list_destroy_nodes_from nl n h =
     (case n of None \<Rightarrow> None
      | Some a \<Rightarrow>
          if a = nl then Some h
          else do {
            let tmp = l_next h a;
            let h = set_prev a None (set_next a None h);
            c_assert (\<not> lnode_is_in_a_list a h);
            list_destroy_nodes_from nl tmp h
          })"

definition list_destroy_nodes :: "list_t \<Rightarrow> 'a lheap \<Rightarrow> (list_t \<times> 'a lheap) option" where
  "list_destroy_nodes l h = do {
     h \<leftarrow> list_destroy_nodes_from (nilnode l) (l_next h (nilnode l)) h;
     list_init l (maxcount l) h
   }"

partial_function (option) list_process_from ::
  "(list_t \<Rightarrow> addr \<Rightarrow> 'c \<Rightarrow> 'a lheap \<Rightarrow> list_t \<times> 'c \<times> 'a lheap) \<Rightarrow>
     list_t \<Rightarrow> 'c \<Rightarrow> 'a lheap \<Rightarrow> addr option \<Rightarrow> (list_t \<times> 'c \<times> 'a lheap) option" where
  "list_process_from function l context h node =
     (case node of None \<Rightarrow> None
      | Some a \<Rightarrow>
          if a = nilnode l then Some (l, context, h)
          else do {
            c \<leftarrow> list_contains l a h;
            c_assert c;
            let next = l_next h a;
            let (l, context, h) = function l a context h;
            list_process_from function l context h next
          })"

definition list_process ::
  "list_t \<Rightarrow> 'c \<Rightarrow> (list_t \<Rightarrow> addr \<Rightarrow> 'c \<Rightarrow> 'a lheap \<Rightarrow> list_t \<times> 'c \<times> 'a lheap) \<Rightarrow>
     'a lheap \<Rightarrow> (list_t \<times> 'c \<times> 'a lheap) option" where
  "list_process l context function h =
     list_process_from function l context h (l_next h (nilnode l))"

partial_function (option) list_verify_from ::
  "'a lheap \<Rightarrow> addr \<Rightarrow> addr option \<Rightarrow> ulong \<Rightarrow> bool option" where
  "list_verify_from h nl node cnt =
     (if node = Some nl then Some (cnt = 0)
      else if cnt = 0 then Some False
      else do {
        a \<leftarrow> node;
        n \<leftarrow> l_next h a;
        if l_prev h n \<noteq> Some a then Some False
        else list_verify_from h nl (Some n) (cnt - 1)
      })"

definition list_verify :: "list_t \<Rightarrow> 'a lheap \<Rightarrow> bool option" where
  "list_verify l h = do {
     node \<leftarrow> l_next h (nilnode l);
     if l_prev h node \<noteq> Some (nilnode l) then Some False
     else if nodecount l > maxcount l then Some False
     else list_verify_from h (nilnode l) (Some node) (nodecount l)
   }"

partial_function (option) list_find_from ::
  "'a lheap \<Rightarrow> addr \<Rightarrow> 'k \<Rightarrow> ('a \<Rightarrow> 'k \<Rightarrow> int) \<Rightarrow> addr option \<Rightarrow> addr option option" where
  "list_find_from h nl key compare node =
     (case node of None \<Rightarrow> None
      | Some a \<Rightarrow>
          if a = nl then Some None
          else if compare (l_data h a) key = 0 then Some (Some a)
          else list_find_from h nl key compare (l_next h a))"

definition list_find ::
  "list_t \<Rightarrow> 'k \<Rightarrow> ('a \<Rightarrow> 'k \<Rightarrow> int) \<Rightarrow> 'a lheap \<Rightarrow> addr option option" where
  "list_find l key compare h =
     list_find_from h (nilnode l) key compare (l_next h (nilnode l))"

partial_function (option) list_is_sorted_from ::
  "'a lheap \<Rightarrow> addr \<Rightarrow> ('a \<Rightarrow> 'a \<Rightarrow> int) \<Rightarrow> addr \<Rightarrow> addr option \<Rightarrow> bool option" where
  "list_is_sorted_from h nl compare node next =
     (case next of None \<Rightarrow> None
      | Some n \<Rightarrow>
          if n = nl then Some True
          else if compare (l_data h node) (l_data h n) > 0 then Some False
          else list_is_sorted_from h nl compare n (l_next h n))"

definition list_is_sorted :: "list_t \<Rightarrow> ('a \<Rightarrow> 'a \<Rightarrow> int) \<Rightarrow> 'a lheap \<Rightarrow> bool option" where
  "list_is_sorted l compare h = do {
     let nl = nilnode l;
     node \<leftarrow> l_next h nl;
     let next = (if node \<noteq> nl then l_next h node else Some nl);
     list_is_sorted_from h nl compare node next
   }"

partial_function (option) list_transfer_count ::
  "'a lheap \<Rightarrow> addr \<Rightarrow> addr \<Rightarrow> ulong \<Rightarrow> ulong option" where
  "list_transfer_count h first lst moved =
     (if first \<noteq> lst then do {
        n \<leftarrow> l_next h first;
        list_transfer_count h n lst (moved + 1)
      }
      else Some moved)"

definition ow_list_transfer ::
  "list_t \<Rightarrow> list_t \<Rightarrow> addr option \<Rightarrow> 'a lheap \<Rightarrow> (list_t \<times> list_t \<times> 'a lheap) option" where
  "ow_list_transfer dest source fst_node h =
     (case fst_node of None \<Rightarrow> Some (dest, source, h)
      | Some first \<Rightarrow> do {
          c \<leftarrow> list_contains source first h;
          c_assert c;
          lst \<leftarrow> l_prev h (nilnode source);
          let h = set_prev (nilnode source) (l_prev h first) h;
          fp \<leftarrow> l_prev h first;
          let h = set_next fp (Some (nilnode source)) h;
          let h = set_next lst (Some (nilnode dest)) h;
          let h = set_prev first (l_prev h (nilnode dest)) h;
          dp \<leftarrow> l_prev h (nilnode dest);
          let h = set_next dp (Some first) h;
          let h = set_prev (nilnode dest) (Some lst) h;
          moved \<leftarrow> list_transfer_count h first lst 1;
          c_assert (moved \<le> nodecount source);
          let source = source\<lparr>nodecount := nodecount source - moved\<rparr>;
          let dest = dest\<lparr>nodecount := nodecount dest + moved\<rparr>;
          v1 \<leftarrow> list_verify source h;
          c_assert v1;
          v2 \<leftarrow> list_verify dest h;
          c_assert v2;
          Some (dest, source, h)
        })"

partial_function (option) list_merge_loop ::
  "('a \<Rightarrow> 'a \<Rightarrow> int) \<Rightarrow> list_t \<Rightarrow> list_t \<Rightarrow> addr option \<Rightarrow> addr option \<Rightarrow> 'a lheap \<Rightarrow>
     (list_t \<times> list_t \<times> addr option \<times> addr option \<times> 'a lheap) option" where
  "list_merge_loop compare dest source dn sn h =
     (if dn \<noteq> Some (nilnode dest) \<and> sn \<noteq> Some (nilnode source) then do {
        d \<leftarrow> dn;
        s \<leftarrow> sn;
        if compare (l_data h d) (l_data h s) \<ge> 0 then do {
          let tn = l_next h s;
          (s', source, h) \<leftarrow> list_delete source s h;
          (dest, h) \<leftarrow> list_ins_before dest s d h;
          list_merge_loop compare dest source dn tn h
        }
        else list_merge_loop compare dest source (l_next h d) sn h
      }
      else Some (dest, source, dn, sn, h))"

definition ow_list_merge ::
  "list_t \<Rightarrow> list_t \<Rightarrow> ('a \<Rightarrow> 'a \<Rightarrow> int) \<Rightarrow> 'a lheap \<Rightarrow> (list_t \<times> list_t \<times> 'a lheap) option" where
  "ow_list_merge dest source compare h =
     (if nilnode dest = nilnode source then Some (dest, source, h)
      else do {
        c1 \<leftarrow> list_is_sorted source compare h;
        c_assert c1;
        c2 \<leftarrow> list_is_sorted dest compare h;
        c_assert c2;
        (dest, source, dn, sn, h) \<leftarrow>
          list_merge_loop compare dest source
            (l_next h (nilnode dest)) (l_next h (nilnode source)) h;
        if dn \<noteq> Some (nilnode dest) then Some (dest, source, h)
        else if sn \<noteq> Some (nilnode source) then ow_list_transfer dest source sn h
        else Some (dest, source, h)
      })"

fun list_advance :: "'a lheap \<Rightarrow> nat \<Rightarrow> addr option \<Rightarrow> addr option option" where
  "list_advance h 0 node = Some node"
| "list_advance h (Suc middle) node =
     (case node of None \<Rightarrow> None | Some a \<Rightarrow> list_advance h middle (l_next h a))"

text \<open>The local variable \<open>extra\<close> of \<open>ow_list_sort\<close> is a list object on the C stack: its
  sentinel is at the stack address \<open>sp\<close>, the frames of the recursive calls are above it.\<close>

partial_function (option) ow_list_sort ::
  "addr \<Rightarrow> list_t \<Rightarrow> ('a \<Rightarrow> 'a \<Rightarrow> int) \<Rightarrow> 'a lheap \<Rightarrow> (list_t \<times> 'a lheap) option" where
  "ow_list_sort sp l compare h = do {
     (l, h) \<leftarrow>
       (if ow_list_count l > 1 then do {
          let middle = ow_list_count l div 2;
          (extra, h) \<leftarrow>
            list_init \<lparr>nilnode = sp, nodecount = 0, maxcount = 0\<rparr> (ow_list_count l - middle) h;
          node \<leftarrow> list_advance h (unat middle) (l_next h (nilnode l));
          (extra, l, h) \<leftarrow> ow_list_transfer extra l node h;
          (l, h) \<leftarrow> ow_list_sort (sp + 1) l compare h;
          (extra, h) \<leftarrow> ow_list_sort (sp + 1) extra compare h;
          (l, extra, h) \<leftarrow> ow_list_merge l extra compare h;
          Some (l, h)
        }
        else Some (l, h));
     c \<leftarrow> list_is_sorted l compare h;
     c_assert c;
     Some (l, h)
   }"

section \<open>Representation\<close>

text \<open>\<open>lseg h a xs b\<close>: following \<open>next\<close> from \<open>a\<close> visits exactly \<open>xs\<close> and then \<open>b\<close>, and the
  \<open>prev\<close> fields mirror every link.\<close>

fun lseg :: "'a lheap \<Rightarrow> addr \<Rightarrow> addr list \<Rightarrow> addr \<Rightarrow> bool" where
  "lseg h a [] b \<longleftrightarrow> l_next h a = Some b \<and> l_prev h b = Some a"
| "lseg h a (x # xs) b \<longleftrightarrow> l_next h a = Some x \<and> l_prev h x = Some a \<and> lseg h x xs b"

definition list_rep :: "'a lheap \<Rightarrow> list_t \<Rightarrow> addr list \<Rightarrow> bool" where
  "list_rep h l xs \<longleftrightarrow>
     lseg h (nilnode l) xs (nilnode l) \<and> distinct (nilnode l # xs) \<and>
     unat (nodecount l) = length xs \<and> nodecount l \<le> maxcount l \<and> maxcount l \<noteq> 0"

lemma lseg_append_Cons [simp]:
  "lseg h a (xs @ y # ys) b \<longleftrightarrow> lseg h a xs y \<and> lseg h y ys b"
  by (induction xs arbitrary: a) auto

lemma lseg_next_frame [simp]:
  "n \<notin> set (a # xs) \<Longrightarrow> lseg (set_next n v h) a xs b = lseg h a xs b"
  by (induction xs arbitrary: a) auto

lemma lseg_prev_frame [simp]:
  "n \<notin> set (xs @ [b]) \<Longrightarrow> lseg (set_prev n v h) a xs b = lseg h a xs b"
  by (induction xs arbitrary: a) auto

lemma lseg_hd: "lseg h a xs b \<Longrightarrow> l_next h a = Some (hd (xs @ [b]))"
  by (cases xs) auto

lemma lseg_last: "lseg h a xs b \<Longrightarrow> l_prev h b = Some (last (a # xs))"
  by (induction xs arbitrary: a) auto

lemma lseg_next_set: "lseg h a xs b \<Longrightarrow> n \<in> set (a # xs) \<Longrightarrow> l_next h n \<noteq> None"
  by (induction xs arbitrary: a) auto

lemma lseg_cong:
  assumes "\<forall>n \<in> set (a # xs). l_next h' n = l_next h n"
    and "\<forall>n \<in> set (xs @ [b]). l_prev h' n = l_prev h n"
  shows "lseg h' a xs b = lseg h a xs b"
  using assms by (induction xs arbitrary: a) auto

lemma list_contains_from_correct:
  assumes "lseg h a (xs @ ys) nl" "nl \<notin> set ys"
  shows "list_contains_from h nl node (Some (hd (ys @ [nl]))) = Some (node \<in> set ys)"
  using assms
proof (induction ys arbitrary: xs)
  case Nil
  then show ?case by (simp add: list_contains_from.simps)
next
  case (Cons y ys)
  have nxt: "l_next h y = Some (hd (ys @ [nl]))"
    using Cons.prems by (auto dest: lseg_hd)
  have "list_contains_from h nl node (Some (hd (ys @ [nl]))) = Some (node \<in> set ys)"
    using Cons.IH [of "xs @ [y]"] Cons.prems by simp
  then show ?case
    using Cons.prems nxt by (subst list_contains_from.simps) auto
qed

lemma list_contains_rep [simp]:
  assumes "list_rep h l xs"
  shows "list_contains l n h = Some (n \<in> set xs)"
  using assms list_contains_from_correct [of h "nilnode l" "[]" xs "nilnode l" n]
  by (auto simp: list_rep_def list_contains_def dest: lseg_hd)

lemma list_rep_in_list:
  assumes "list_rep h l xs" "n \<in> set xs"
  shows "lnode_is_in_a_list n h"
  using assms lseg_next_set [of h "nilnode l" xs "nilnode l" n]
  by (auto simp: list_rep_def lnode_is_in_a_list_def)

subsection \<open>Frames and relinking\<close>

definition heap_eq_outside :: "addr set \<Rightarrow> 'a lheap \<Rightarrow> 'a lheap \<Rightarrow> bool" where
  "heap_eq_outside A h h' \<longleftrightarrow>
     l_data h' = l_data h \<and>
     (\<forall>n. n \<notin> A \<longrightarrow> l_next h' n = l_next h n \<and> l_prev h' n = l_prev h n)"

lemma heap_eq_outside_refl [simp]: "heap_eq_outside A h h"
  by (simp add: heap_eq_outside_def)

lemma heap_eq_outside_trans:
  "heap_eq_outside A h h' \<Longrightarrow> heap_eq_outside B h' h'' \<Longrightarrow> A \<union> B \<subseteq> C \<Longrightarrow>
   heap_eq_outside C h h''"
  unfolding heap_eq_outside_def by (metis Un_iff subsetD)

lemma heap_eq_outside_data: "heap_eq_outside A h h' \<Longrightarrow> l_data h' = l_data h"
  by (simp add: heap_eq_outside_def)

lemma list_rep_frame:
  assumes "heap_eq_outside A h h'" "A \<inter> set (nilnode l # xs) = {}"
  shows "list_rep h' l xs = list_rep h l xs"
proof -
  have "lseg h' (nilnode l) xs (nilnode l) = lseg h (nilnode l) xs (nilnode l)"
    using assms by (intro lseg_cong) (auto simp: heap_eq_outside_def)
  then show ?thesis
    by (simp add: list_rep_def)
qed

lemma lnode_is_in_a_list_frame:
  "heap_eq_outside A h h' \<Longrightarrow> n \<notin> A \<Longrightarrow> lnode_is_in_a_list n h' = lnode_is_in_a_list n h"
  by (simp add: heap_eq_outside_def lnode_is_in_a_list_def)

lemma lseg_relink_end:
  assumes "lseg h a xs b"
    and "\<forall>m \<in> set (butlast (a # xs)). l_next h' m = l_next h m"
    and "l_next h' (last (a # xs)) = Some c"
    and "\<forall>m \<in> set xs. l_prev h' m = l_prev h m"
    and "l_prev h' c = Some (last (a # xs))"
  shows "lseg h' a xs c"
  using assms by (induction xs arbitrary: a) auto

lemma lseg_relink_begin:
  assumes "lseg h a xs b"
    and "\<forall>m \<in> set xs. l_next h' m = l_next h m"
    and "l_next h' c = Some (hd (xs @ [b]))"
    and "l_prev h' (hd (xs @ [b])) = Some c"
    and "\<forall>m \<in> set (tl (xs @ [b])). l_prev h' m = l_prev h m"
  shows "lseg h' c xs b"
proof (cases xs)
  case Nil
  then show ?thesis using assms by simp
next
  case (Cons y ys)
  then have "lseg h' y ys b = lseg h y ys b"
    using assms by (intro lseg_cong) auto
  then show ?thesis using assms Cons by simp
qed

lemma distinct_last_notin_butlast: "distinct xs \<Longrightarrow> xs \<noteq> [] \<Longrightarrow> last xs \<notin> set (butlast xs)"
  by (induction xs) (auto split: if_splits dest: in_set_butlastD)

lemma distinct_hd_notin_tl: "distinct xs \<Longrightarrow> xs \<noteq> [] \<Longrightarrow> hd xs \<notin> set (tl xs)"
  by (cases xs) auto

lemma in_tl_append: "m \<in> set (tl (xs @ [b])) \<Longrightarrow> m \<in> set xs \<or> m = b"
  by (cases xs) auto

lemma last_Cons_in: "last (a # xs) \<in> set (a # xs)"
  by (rule last_in_set) simp

lemma hd_snoc_in: "hd (xs @ [b]) \<in> set (xs @ [b])"
  by (rule hd_in_set) simp

lemma list_rep_link:
  assumes "list_rep h l (ps @ qs)"
  shows "lseg h (nilnode l) ps (hd (qs @ [nilnode l]))"
    and "lseg h (last (nilnode l # ps)) qs (nilnode l)"
    and "l_prev h (hd (qs @ [nilnode l])) = Some (last (nilnode l # ps))"
    and "l_next h (last (nilnode l # ps)) = Some (hd (qs @ [nilnode l]))"
proof -
  have seg: "lseg h (nilnode l) (ps @ qs) (nilnode l)"
    using assms by (simp add: list_rep_def)
  show A: "lseg h (nilnode l) ps (hd (qs @ [nilnode l]))"
    using seg by (cases qs) auto
  show B: "lseg h (last (nilnode l # ps)) qs (nilnode l)"
  proof (cases ps rule: rev_cases)
    case Nil
    then show ?thesis using seg by simp
  next
    case (snoc ps' p)
    then show ?thesis using seg by simp
  qed
  show "l_prev h (hd (qs @ [nilnode l])) = Some (last (nilnode l # ps))"
    using A by (rule lseg_last)
  show "l_next h (last (nilnode l # ps)) = Some (hd (qs @ [nilnode l]))"
    using B by (rule lseg_hd)
qed

subsection \<open>Insertion and deletion\<close>

text \<open>The four pointer writes of an insertion between \<open>p\<close> and \<open>q\<close>, in either source order.\<close>

lemma lseg_insert:
  assumes rep: "list_rep h l (ps @ qs)" and fresh: "n \<notin> set (nilnode l # ps @ qs)"
    and p: "p = last (nilnode l # ps)" and q: "q = hd (qs @ [nilnode l])"
    and nx: "l_next h' = (l_next h)(n := Some q, p := Some n)"
    and pv: "l_prev h' = (l_prev h)(n := Some p, q := Some n)"
  shows "lseg h' (nilnode l) (ps @ n # qs) (nilnode l)"
proof -
  let ?nl = "nilnode l"
  have d: "distinct (?nl # ps @ qs)"
    using rep by (simp add: list_rep_def)
  have pin: "p \<in> set (?nl # ps)" and qin: "q \<in> set (qs @ [?nl])"
    unfolding p q by (rule last_Cons_in, rule hd_snoc_in)
  have pbl: "p \<notin> set (butlast (?nl # ps))"
    using d p distinct_last_notin_butlast [of "?nl # ps"] by simp
  have qtl: "q \<notin> set (tl (qs @ [?nl]))"
    using d q distinct_hd_notin_tl [of "qs @ [?nl]"] by simp
  have pn: "p \<noteq> n" and qn: "q \<noteq> n"
    using pin qin fresh by auto
  have "\<forall>m \<in> set (butlast (?nl # ps)). m \<noteq> n \<and> m \<noteq> p"
    using pbl fresh in_set_butlastD [of _ "?nl # ps"] by fastforce
  moreover have "\<forall>m \<in> set ps. m \<noteq> n \<and> m \<noteq> q"
    using fresh qin d by auto
  ultimately have "lseg h' ?nl ps n"
    using p pn qn
    by (intro lseg_relink_end [OF list_rep_link(1) [OF rep]]) (simp_all add: nx pv)
  moreover have "\<forall>m \<in> set qs. m \<noteq> n \<and> m \<noteq> p"
    using fresh pin d by auto
  moreover have "\<forall>m \<in> set (tl (qs @ [?nl])). m \<noteq> n \<and> m \<noteq> q"
    using qtl fresh in_tl_append [of _ qs ?nl] by fastforce
  ultimately have "lseg h' ?nl ps n \<and> lseg h' n qs ?nl"
    using q pn qn
    by (intro conjI lseg_relink_begin [OF list_rep_link(2) [OF rep]]) (simp_all add: nx pv)
  then show ?thesis
    by simp
qed

lemma list_rep_count_Suc:
  assumes "list_rep h l xs" "length xs < unat (maxcount l)"
  shows "nodecount l + 1 > nodecount l" "unat (nodecount l + 1) = Suc (length xs)"
    "nodecount l + 1 \<le> maxcount l"
proof -
  have n: "unat (nodecount l) = length xs"
    using assms by (simp add: list_rep_def)
  have "unat (maxcount l) < 2 ^ 64"
    using unsigned_less [of "maxcount l", where 'a = nat] by simp
  then have s: "unat (nodecount l + 1) = Suc (unat (nodecount l))"
    using assms n by (intro unat_word_Suc) simp
  then show "nodecount l + 1 > nodecount l" "unat (nodecount l + 1) = Suc (length xs)"
    "nodecount l + 1 \<le> maxcount l"
    using n assms by (simp_all add: word_less_nat_alt word_le_nat_alt)
qed

text \<open>Both insertions put the new node at the given place; only links of the list itself change.\<close>

lemma list_insert_rep:
  assumes rep: "list_rep h l (ps @ qs)" and fresh: "n \<notin> set (nilnode l # ps @ qs)"
    and free: "\<not> lnode_is_in_a_list n h" and room: "length (ps @ qs) < unat (maxcount l)"
  shows "\<exists>h'. list_ins_before l n (hd (qs @ [nilnode l])) h =
            Some (l\<lparr>nodecount := nodecount l + 1\<rparr>, h') \<and>
          list_ins_after l n (last (nilnode l # ps)) h =
            Some (l\<lparr>nodecount := nodecount l + 1\<rparr>, h') \<and>
          list_rep h' (l\<lparr>nodecount := nodecount l + 1\<rparr>) (ps @ n # qs) \<and>
          heap_eq_outside (set (n # nilnode l # ps @ qs)) h h'"
proof -
  let ?nl = "nilnode l"
  define p where "p = last (?nl # ps)"
  define q where "q = hd (qs @ [?nl])"
  define h' where "h' = h\<lparr>l_next := (l_next h)(n := Some q, p := Some n),
                          l_prev := (l_prev h)(n := Some p, q := Some n)\<rparr>"
  have pin: "p \<in> set (?nl # ps)" and qin: "q \<in> set (qs @ [?nl])"
    unfolding p_def q_def by (rule last_Cons_in, rule hd_snoc_in)
  have seg: "lseg h' ?nl (ps @ n # qs) ?nl"
    by (rule lseg_insert [OF rep fresh p_def q_def]) (simp_all add: h'_def)
  have q_ok: "(if q = ?nl then Some True else list_contains l q h) = Some True"
    and p_ok: "(if p = ?nl then Some True else list_contains l p h) = Some True"
    using rep pin qin by (auto split: if_splits)
  note links = list_rep_link(3,4) [OF rep, folded p_def q_def]
  note cnt = list_rep_count_Suc [OF rep room]
  have "list_ins_before l n q h = Some (l\<lparr>nodecount := nodecount l + 1\<rparr>, h')"
    using rep fresh free cnt links q_ok
    by (simp add: list_ins_before_def Let_def h'_def fun_upd_twist)
  moreover have "list_ins_after l n p h = Some (l\<lparr>nodecount := nodecount l + 1\<rparr>, h')"
    using rep fresh free cnt links p_ok
    by (simp add: list_ins_after_def Let_def h'_def fun_upd_twist)
  moreover have "list_rep h' (l\<lparr>nodecount := nodecount l + 1\<rparr>) (ps @ n # qs)"
    using rep fresh seg cnt by (auto simp: list_rep_def)
  moreover have "heap_eq_outside (set (n # ?nl # ps @ qs)) h h'"
    using pin qin by (auto simp: heap_eq_outside_def h'_def)
  ultimately show ?thesis
    unfolding p_def q_def by blast
qed

lemma lseg_remove:
  assumes rep: "list_rep h l (ps @ d # qs)"
    and p: "p = last (nilnode l # ps)" and q: "q = hd (qs @ [nilnode l])"
    and nx: "l_next h' = (l_next h)(p := Some q, d := None)"
    and pv: "l_prev h' = (l_prev h)(q := Some p, d := None)"
  shows "lseg h' (nilnode l) (ps @ qs) (nilnode l)"
proof -
  let ?nl = "nilnode l"
  have d: "distinct (?nl # ps @ d # qs)" and seg: "lseg h ?nl ps d" "lseg h d qs ?nl"
    using rep by (auto simp: list_rep_def)
  have pin: "p \<in> set (?nl # ps)" and qin: "q \<in> set (qs @ [?nl])"
    unfolding p q by (rule last_Cons_in, rule hd_snoc_in)
  have pd: "p \<noteq> d" and qd: "q \<noteq> d"
    using pin qin d by auto
  have "p \<notin> set (butlast (?nl # ps))"
    using d p distinct_last_notin_butlast [of "?nl # ps"] by simp
  then have "\<forall>m \<in> set (butlast (?nl # ps)). m \<noteq> d \<and> m \<noteq> p"
    using d in_set_butlastD [of _ "?nl # ps"] by fastforce
  moreover have "\<forall>m \<in> set ps. m \<noteq> d \<and> m \<noteq> q"
    using d qin by auto
  ultimately have left: "lseg h' ?nl ps q"
    using p pd qd by (intro lseg_relink_end [OF seg(1)]) (simp_all add: nx pv)
  show ?thesis
  proof (cases qs)
    case Nil
    then show ?thesis using left q by simp
  next
    case (Cons y ys)
    have "\<forall>m \<in> set (y # ys). m \<noteq> d \<and> m \<noteq> p" "\<forall>m \<in> set (ys @ [?nl]). m \<noteq> d \<and> m \<noteq> q"
      using d pin q Cons by auto
    then have "lseg h' y ys ?nl = lseg h y ys ?nl"
      by (intro lseg_cong) (simp_all add: nx pv)
    then show ?thesis using left q Cons seg by simp
  qed
qed

lemma list_delete_rep:
  assumes rep: "list_rep h l (ps @ d # qs)"
  shows "\<exists>h'. list_delete l d h = Some (d, l\<lparr>nodecount := nodecount l - 1\<rparr>, h') \<and>
          list_delete2 l d h =
            Some (if qs = [] then None else Some (hd qs), l\<lparr>nodecount := nodecount l - 1\<rparr>, h') \<and>
          list_rep h' (l\<lparr>nodecount := nodecount l - 1\<rparr>) (ps @ qs) \<and>
          \<not> lnode_is_in_a_list d h' \<and>
          heap_eq_outside (set (nilnode l # ps @ d # qs)) h h'"
proof -
  let ?nl = "nilnode l" and ?l = "l\<lparr>nodecount := nodecount l - 1\<rparr>"
  define p where "p = last (?nl # ps)"
  define q where "q = hd (qs @ [?nl])"
  define h' where "h' = h\<lparr>l_next := (l_next h)(p := Some q, d := None),
                          l_prev := (l_prev h)(q := Some p, d := None)\<rparr>"
  have d: "distinct (?nl # ps @ d # qs)"
    using rep by (simp add: list_rep_def)
  have pin: "p \<in> set (?nl # ps)" and qin: "q \<in> set (qs @ [?nl])"
    unfolding p_def q_def by (rule last_Cons_in, rule hd_snoc_in)
  have "l_prev h d = Some p"
    using list_rep_link(3) [OF rep] by (simp add: p_def)
  moreover have "l_next h d = Some q"
    using list_rep_link(4) [of h l "ps @ [d]" qs] rep by (simp add: q_def)
  ultimately have links: "l_prev h d = Some p" "l_next h d = Some q" .
  have nil: "(q = ?nl) = (qs = [])"
    using d by (cases qs) (auto simp: q_def)
  have hd: "qs \<noteq> [] \<Longrightarrow> hd qs = q"
    by (simp add: q_def)
  have cnt: "unat (nodecount l - 1) = length (ps @ qs)"
    using rep unat_word_pred [of "nodecount l"] by (simp add: list_rep_def)
  have "list_delete l d h = Some (d, ?l, h')" and
    "list_delete2 l d h = Some (if qs = [] then None else Some (hd qs), ?l, h')"
    using rep links nil hd
    by (simp_all add: list_delete_def list_delete2_def Let_def h'_def fun_upd_twist)
  moreover have "list_rep h' ?l (ps @ qs)"
  proof -
    have "lseg h' ?nl (ps @ qs) ?nl"
      by (rule lseg_remove [OF rep p_def q_def]) (simp_all add: h'_def)
    moreover have "nodecount l - 1 \<le> maxcount l"
      using rep cnt by (simp add: list_rep_def word_le_nat_alt)
    ultimately show ?thesis
      using rep cnt by (simp add: list_rep_def)
  qed
  moreover have "\<not> lnode_is_in_a_list d h'"
    by (simp add: lnode_is_in_a_list_def h'_def)
  moreover have "heap_eq_outside (set (?nl # ps @ d # qs)) h h'"
    using pin qin by (auto simp: heap_eq_outside_def h'_def)
  ultimately show ?thesis
    by blast
qed

subsection \<open>Traversals\<close>

lemma list_verify_from_seg:
  assumes "lseg h a ys nl" "nl \<notin> set ys" "unat cnt = length ys"
  shows "list_verify_from h nl (Some (hd (ys @ [nl]))) cnt = Some True"
  using assms
proof (induction ys arbitrary: a cnt)
  case Nil
  then have "cnt = 0" by (simp add: unat_eq_0)
  then show ?case by (simp add: list_verify_from.simps)
next
  case (Cons y ys)
  have link: "l_next h y = Some (hd (ys @ [nl]))" "l_prev h (hd (ys @ [nl])) = Some y"
    using Cons.prems by (cases ys; simp)+
  have c0: "cnt \<noteq> 0" and c1: "unat (cnt - 1) = length ys"
    using Cons.prems unat_word_pred [of cnt] by auto
  have "list_verify_from h nl (Some (hd (ys @ [nl]))) (cnt - 1) = Some True"
    using Cons.prems by (intro Cons.IH [OF _ _ c1]) auto
  then show ?case
    using Cons.prems link c0 by (subst list_verify_from.simps) simp
qed

lemma list_verify_rep [simp]:
  assumes "list_rep h l xs"
  shows "list_verify l h = Some True"
proof -
  let ?nl = "nilnode l"
  have seg: "lseg h ?nl xs ?nl" and nl: "?nl \<notin> set xs" and n: "unat (nodecount l) = length xs"
    and m: "nodecount l \<le> maxcount l"
    using assms by (auto simp: list_rep_def)
  have "l_next h ?nl = Some (hd (xs @ [?nl]))" "l_prev h (hd (xs @ [?nl])) = Some ?nl"
    using seg by (cases xs; simp)+
  then show ?thesis
    using list_verify_from_seg [OF seg nl n] m by (simp add: list_verify_def)
qed

lemma list_is_sorted_from_seg:
  assumes "lseg h x ys nl" "nl \<notin> set ys"
  shows "list_is_sorted_from h nl compare x (Some (hd (ys @ [nl]))) =
    Some (successively (\<lambda>a b. compare (l_data h a) (l_data h b) \<le> 0) (x # ys))"
  using assms
proof (induction ys arbitrary: x)
  case Nil
  then show ?case by (simp add: list_is_sorted_from.simps)
next
  case (Cons y ys)
  have "l_next h y = Some (hd (ys @ [nl]))"
    using Cons.prems by (cases ys) auto
  then show ?case
    using Cons by (subst list_is_sorted_from.simps) auto
qed

lemma list_is_sorted_rep [simp]:
  assumes "list_rep h l xs"
  shows "list_is_sorted l compare h =
    Some (successively (\<lambda>a b. compare (l_data h a) (l_data h b) \<le> 0) xs)"
proof (cases xs)
  case Nil
  then show ?thesis
    using assms by (simp add: list_rep_def list_is_sorted_def list_is_sorted_from.simps)
next
  case (Cons x ys)
  then have "lseg h x ys (nilnode l)" "nilnode l \<notin> set ys" "l_next h (nilnode l) = Some x"
    "x \<noteq> nilnode l" "l_next h x = Some (hd (ys @ [nilnode l]))"
    using assms lseg_hd [of h x ys "nilnode l"] by (auto simp: list_rep_def)
  then show ?thesis
    using list_is_sorted_from_seg [of h x ys "nilnode l" compare] Cons
    by (simp add: list_is_sorted_def)
qed

lemma list_find_from_seg:
  assumes "lseg h a ys nl" "nl \<notin> set ys"
  shows "list_find_from h nl key compare (Some (hd (ys @ [nl]))) =
    Some (find (\<lambda>n. compare (l_data h n) key = 0) ys)"
  using assms
proof (induction ys arbitrary: a)
  case Nil
  then show ?case by (simp add: list_find_from.simps)
next
  case (Cons y ys)
  have "l_next h y = Some (hd (ys @ [nl]))"
    using Cons.prems by (cases ys) auto
  then show ?case
    using Cons by (subst list_find_from.simps) auto
qed

lemma list_find_rep:
  assumes "list_rep h l xs"
  shows "list_find l key compare h = Some (find (\<lambda>n. compare (l_data h n) key = 0) xs)"
  using assms list_find_from_seg [of h "nilnode l" xs "nilnode l" key compare]
    lseg_hd [of h "nilnode l" xs "nilnode l"]
  by (simp add: list_find_def list_rep_def)

subsection \<open>Moving a tail between two lists\<close>

lemma list_transfer_count_seg:
  assumes "lseg h a (f # qs) b" "distinct (f # qs)" "lst = last (f # qs)"
  shows "list_transfer_count h f lst m = Some (m + of_nat (length qs))"
  using assms
proof (induction qs arbitrary: a f m)
  case Nil
  then show ?case by (simp add: list_transfer_count.simps)
next
  case (Cons y ys)
  have "lst \<in> set (y # ys)"
    using Cons.prems(3) last_Cons_in [of y ys] by simp
  then have "f \<noteq> lst" using Cons.prems(2) by auto
  moreover have "list_transfer_count h y lst (m + 1) = Some (m + 1 + of_nat (length ys))"
    using Cons.prems by (intro Cons.IH [of f]) auto
  ultimately show ?case
    using Cons.prems by (subst list_transfer_count.simps) (simp add: algebra_simps)
qed

lemma last_append_Cons: "last (a # xs @ y # ys) = last (y # ys)"
  by (induction xs arbitrary: a) auto

lemma ow_list_transfer_heap:
  assumes rs: "list_rep h S (ps @ f # qs)" and rd: "list_rep h D ds"
    and disj: "set (nilnode S # ps @ f # qs) \<inter> set (nilnode D # ds) = {}"
    and p: "p = last (nilnode S # ps)" and lst: "lst = last (f # qs)"
    and dl: "dl = last (nilnode D # ds)"
    and nx: "l_next h' = (l_next h)(p := Some (nilnode S), lst := Some (nilnode D), dl := Some f)"
    and pv: "l_prev h' = (l_prev h)(nilnode S := Some p, f := Some dl, nilnode D := Some lst)"
  shows "lseg h' (nilnode S) ps (nilnode S)" "lseg h' (nilnode D) (ds @ f # qs) (nilnode D)"
proof -
  let ?s = "nilnode S" and ?d = "nilnode D"
  have dS: "distinct (?s # ps @ f # qs)" and segS: "lseg h ?s ps f" "lseg h f qs ?s"
    and dD: "distinct (?d # ds)" and segD: "lseg h ?d ds ?d"
    using rs rd by (auto simp: list_rep_def)
  have pin: "p \<in> set (?s # ps)" and lin: "lst \<in> set (f # qs)" and din: "dl \<in> set (?d # ds)"
    unfolding p lst dl by (rule last_Cons_in)+
  have bl: "p \<notin> set (butlast (?s # ps))" "lst \<notin> set (butlast (f # qs))"
    "dl \<notin> set (butlast (?d # ds))"
    using dS dD p lst dl distinct_last_notin_butlast [of "?s # ps"]
      distinct_last_notin_butlast [of "f # qs"] distinct_last_notin_butlast [of "?d # ds"]
    by simp_all
  have sep: "p \<noteq> lst" "p \<noteq> dl" "lst \<noteq> dl" "?s \<noteq> f" "?s \<noteq> ?d" "f \<noteq> ?d"
    using pin lin din dS disj by auto
  have "\<forall>m \<in> set (butlast (?s # ps)). m \<noteq> p \<and> m \<noteq> lst \<and> m \<noteq> dl"
    using bl(1) lin din dS disj in_set_butlastD [of _ "?s # ps"] by fastforce
  moreover have "\<forall>m \<in> set ps. m \<noteq> ?s \<and> m \<noteq> f \<and> m \<noteq> ?d"
    using dS disj by auto
  ultimately show "lseg h' ?s ps ?s"
    using sep p by (intro lseg_relink_end [OF segS(1)]) (simp_all add: nx pv)
  have "\<forall>m \<in> set (butlast (?d # ds)). m \<noteq> p \<and> m \<noteq> lst \<and> m \<noteq> dl"
    using bl(3) lin pin dS disj in_set_butlastD [of _ "?d # ds"] by fastforce
  moreover have "\<forall>m \<in> set ds. m \<noteq> ?s \<and> m \<noteq> f \<and> m \<noteq> ?d"
    using dD disj by auto
  ultimately have 1: "lseg h' ?d ds f"
    using sep dl by (intro lseg_relink_end [OF segD]) (simp_all add: nx pv)
  have "\<forall>m \<in> set (butlast (f # qs)). m \<noteq> p \<and> m \<noteq> lst \<and> m \<noteq> dl"
    using bl(2) din pin dS disj in_set_butlastD [of _ "f # qs"] by fastforce
  moreover have "\<forall>m \<in> set qs. m \<noteq> ?s \<and> m \<noteq> f \<and> m \<noteq> ?d"
    using dS disj by auto
  ultimately have 2: "lseg h' f qs ?d"
    using sep lst by (intro lseg_relink_end [OF segS(2)]) (simp_all add: nx pv)
  from 1 2 show "lseg h' ?d (ds @ f # qs) ?d"
    by simp
qed

lemma ow_list_transfer_rep:
  assumes rs: "list_rep h S (ps @ f # qs)" and rd: "list_rep h D ds"
    and disj: "set (nilnode S # ps @ f # qs) \<inter> set (nilnode D # ds) = {}"
    and room: "length (ds @ f # qs) \<le> unat (maxcount D)"
  shows "\<exists>D' S' h'. ow_list_transfer D S (Some f) h = Some (D', S', h') \<and>
          list_rep h' S' ps \<and> list_rep h' D' (ds @ f # qs) \<and>
          nilnode D' = nilnode D \<and> maxcount D' = maxcount D \<and>
          nilnode S' = nilnode S \<and> maxcount S' = maxcount S \<and>
          heap_eq_outside (set (nilnode S # ps @ f # qs) \<union> set (nilnode D # ds)) h h'"
proof -
  let ?s = "nilnode S" and ?d = "nilnode D"
  define p where "p = last (?s # ps)"
  define lst where "lst = last (f # qs)"
  define dl where "dl = last (?d # ds)"
  define h' where "h' = h\<lparr>
     l_next := (l_next h)(p := Some ?s, lst := Some ?d, dl := Some f),
     l_prev := (l_prev h)(?s := Some p, f := Some dl, ?d := Some lst)\<rparr>"
  define mv where "mv = (1 :: ulong) + of_nat (length qs)"
  define S' where "S' = S\<lparr>nodecount := nodecount S - mv\<rparr>"
  define D' where "D' = D\<lparr>nodecount := nodecount D + mv\<rparr>"
  have segs: "lseg h' ?s ps ?s" "lseg h' ?d (ds @ f # qs) ?d"
    by (rule ow_list_transfer_heap [OF rs rd disj p_def lst_def dl_def]; simp add: h'_def)+
  have links: "l_prev h ?s = Some lst" "l_prev h f = Some p" "l_prev h ?d = Some dl"
    using list_rep_link(3) [OF rs] list_rep_link(3) [of h S "ps @ f # qs" "[]"] rs
      list_rep_link(3) [of h D ds "[]"] rd
    by (simp_all add: p_def lst_def dl_def last_append_Cons)
  have dist: "distinct (f # qs)" "?s \<noteq> f" "f \<noteq> ?d" "?s \<noteq> ?d"
    using rs disj by (auto simp: list_rep_def)
  have "lseg h' (last (?d # ds)) (f # qs) ?d"
    using segs(2) by (cases ds rule: rev_cases) auto
  then have moved: "list_transfer_count h' f lst 1 = Some mv"
    unfolding mv_def by (rule list_transfer_count_seg [OF _ dist(1) lst_def])
  have len: "unat (nodecount S) = length ps + length (f # qs)" "unat (nodecount D) = length ds"
    using rs rd by (auto simp: list_rep_def)
  have lt: "length (f # qs) < 2 ^ 64" "length (ds @ f # qs) < 2 ^ 64"
    using len(1) unsigned_less [of "nodecount S", where 'a = nat] room
      unsigned_less [of "maxcount D", where 'a = nat] by simp_all
  have "mv = of_nat (length (f # qs))"
    by (simp add: mv_def)
  then have umv: "unat mv = length (f # qs)"
    using lt(1) by (simp add: unat_of_nat take_bit_nat_eq_self del: of_nat_Suc)
  have le: "mv \<le> nodecount S"
    using umv len(1) by (simp add: word_le_nat_alt)
  have "unat (nodecount S - mv) = length ps"
    using le umv len(1) by (simp add: unat_sub)
  then have repS: "list_rep h' S' ps"
    using rs segs(1) by (simp add: list_rep_def S'_def word_le_nat_alt)
  have "unat (nodecount D + mv) = length (ds @ f # qs)"
    using lt umv len(2) by (simp add: unat_word_ariths)
  then have repD: "list_rep h' D' (ds @ f # qs)"
    using rd rs disj segs(2) room by (auto simp: list_rep_def D'_def word_le_nat_alt)
  have v: "list_verify S' h' = Some True" "list_verify D' h' = Some True"
    using repS repD by simp_all
  have "ow_list_transfer D S (Some f) h = Some (D', S', h')"
    using rs links dist moved le v
    by (simp add: ow_list_transfer_def Let_def flip: h'_def S'_def D'_def)
  moreover have "heap_eq_outside (set (?s # ps @ f # qs) \<union> set (?d # ds)) h h'"
  proof -
    have "p \<in> set (?s # ps)" "lst \<in> set (f # qs)" "dl \<in> set (?d # ds)"
      unfolding p_def lst_def dl_def by (rule last_Cons_in)+
    then show ?thesis by (auto simp: heap_eq_outside_def h'_def)
  qed
  ultimately show ?thesis
    using repS repD by (intro exI [of _ D'] exI [of _ S'] exI [of _ h']) (simp add: S'_def D'_def)
qed

subsection \<open>Merging\<close>

text \<open>What \<open>ow_list_merge\<close> does to the node sequences: a node of the source goes in front of the
  first destination node that does not compare below it.\<close>

fun lmerge :: "('n \<Rightarrow> 'n \<Rightarrow> int) \<Rightarrow> 'n list \<Rightarrow> 'n list \<Rightarrow> 'n list" where
  "lmerge c [] ss = ss"
| "lmerge c ds [] = ds"
| "lmerge c (d # ds) (s # ss) =
     (if c d s \<ge> 0 then s # lmerge c (d # ds) ss else d # lmerge c ds (s # ss))"

lemma mset_lmerge [simp]: "mset (lmerge c ds ss) = mset ds + mset ss"
  by (induction c ds ss rule: lmerge.induct) auto

lemma set_lmerge [simp]: "set (lmerge c ds ss) = set ds \<union> set ss"
  by (metis mset_lmerge set_mset_mset set_mset_union)

lemma length_lmerge [simp]: "length (lmerge c ds ss) = length ds + length ss"
  by (metis mset_lmerge size_mset size_union)

definition data_cmp :: "('a \<Rightarrow> 'a \<Rightarrow> int) \<Rightarrow> 'a lheap \<Rightarrow> addr \<Rightarrow> addr \<Rightarrow> int" where
  "data_cmp compare h a b = compare (l_data h a) (l_data h b)"

lemma data_cmp_frame: "heap_eq_outside A h h' \<Longrightarrow> data_cmp compare h' = data_cmp compare h"
  by (simp add: data_cmp_def fun_eq_iff heap_eq_outside_def)

lemma heap_eq_outside_mono: "heap_eq_outside A h h' \<Longrightarrow> A \<subseteq> B \<Longrightarrow> heap_eq_outside B h h'"
  by (auto simp: heap_eq_outside_def)

definition merge_state ::
  "'a lheap \<Rightarrow> list_t \<Rightarrow> list_t \<Rightarrow> addr list \<Rightarrow> addr list \<Rightarrow> addr list \<Rightarrow> bool" where
  "merge_state h D S ps ds ss \<longleftrightarrow>
     list_rep h D (ps @ ds) \<and> list_rep h S ss \<and>
     set (nilnode S # ss) \<inter> set (nilnode D # ps @ ds) = {} \<and>
     length (ps @ ds @ ss) \<le> unat (maxcount D)"

lemma merge_state_take:
  assumes st: "merge_state h D S ps (d # ds) (s # ss)"
  shows "\<exists>D' S' h1 h'. list_delete S s h = Some (s, S', h1) \<and>
           list_ins_before D s d h1 = Some (D', h') \<and>
           l_next h s = Some (hd (ss @ [nilnode S])) \<and>
           merge_state h' D' S' (ps @ [s]) (d # ds) ss \<and>
           nilnode D' = nilnode D \<and> maxcount D' = maxcount D \<and>
           nilnode S' = nilnode S \<and> maxcount S' = maxcount S \<and>
           heap_eq_outside (set (nilnode S # s # ss) \<union> set (nilnode D # ps @ d # ds)) h h'"
proof -
  let ?A = "set (nilnode S # s # ss)" and ?B = "set (nilnode D # ps @ d # ds)"
  have repD: "list_rep h D (ps @ d # ds)" and repS: "list_rep h S (s # ss)"
    and disj: "?A \<inter> ?B = {}" and room: "length (ps @ (d # ds) @ s # ss) \<le> unat (maxcount D)"
    using st by (auto simp: merge_state_def)
  have nxt: "l_next h s = Some (hd (ss @ [nilnode S]))"
    using repS lseg_hd [of h s ss] by (simp add: list_rep_def)
  define S' where "S' = S\<lparr>nodecount := nodecount S - 1\<rparr>"
  define D' where "D' = D\<lparr>nodecount := nodecount D + 1\<rparr>"
  obtain h1 where del: "list_delete S s h = Some (s, S', h1)" "list_rep h1 S' ss"
      "\<not> lnode_is_in_a_list s h1" and eq1: "heap_eq_outside ?A h h1"
    using list_delete_rep [of h S "[]" s ss] repS by (auto simp: S'_def)
  have repD1: "list_rep h1 D (ps @ d # ds)"
    using list_rep_frame [OF eq1] repD disj by blast
  have fresh: "s \<notin> set (nilnode D # ps @ d # ds)"
    using disj by auto
  have "length (ps @ d # ds) < unat (maxcount D)"
    using room by simp
  from list_insert_rep [OF repD1 fresh del(3) this]
  obtain h' where ins: "list_ins_before D s d h1 = Some (D', h')"
      "list_rep h' D' (ps @ s # d # ds)" and eq2: "heap_eq_outside (insert s ?B) h1 h'"
    by (auto simp: D'_def)
  have "s \<notin> set (nilnode S # ss)"
    using repS by (auto simp: list_rep_def)
  then have "insert s ?B \<inter> set (nilnode S' # ss) = {}"
    using disj by (auto simp: S'_def)
  then have "list_rep h' S' ss"
    using list_rep_frame [OF eq2] del(2) by blast
  then have "merge_state h' D' S' (ps @ [s]) (d # ds) ss"
    using ins(2) disj room repS unfolding merge_state_def
    by (auto simp: S'_def D'_def list_rep_def)
  moreover have "heap_eq_outside (?A \<union> ?B) h h'"
    by (rule heap_eq_outside_trans [OF eq1 eq2]) auto
  ultimately show ?thesis
    using del(1) ins(1) nxt
    by (intro exI [of _ D'] exI [of _ S'] exI [of _ h1] exI [of _ h'])
      (simp add: S'_def D'_def)
qed

definition merged ::
  "'a lheap \<Rightarrow> list_t \<Rightarrow> list_t \<Rightarrow> addr set \<Rightarrow> addr list \<Rightarrow>
     list_t \<times> list_t \<times> addr option \<times> addr option \<times> 'a lheap \<Rightarrow> bool" where
  "merged h D S A xs r \<longleftrightarrow>
     (\<exists>D' S' ps ds ss h'.
        r = (D', S', Some (hd (ds @ [nilnode D])), Some (hd (ss @ [nilnode S])), h') \<and>
        merge_state h' D' S' ps ds ss \<and> (ds = [] \<or> ss = []) \<and> ps @ ds @ ss = xs \<and>
        nilnode D' = nilnode D \<and> maxcount D' = maxcount D \<and>
        nilnode S' = nilnode S \<and> maxcount S' = maxcount S \<and> heap_eq_outside A h h')"

lemma merged_trans:
  assumes "merged h2 D1 S1 B xs r" "heap_eq_outside A h h2" "A \<union> B \<subseteq> C"
    and "nilnode D1 = nilnode D" "maxcount D1 = maxcount D"
    and "nilnode S1 = nilnode S" "maxcount S1 = maxcount S"
  shows "merged h D S C xs r"
  using assms heap_eq_outside_trans [OF assms(2) _ assms(3)]
  unfolding merged_def by metis

lemma list_merge_loop_rep:
  assumes "merge_state h D S ps ds ss"
  shows "\<exists>r. list_merge_loop compare D S (Some (hd (ds @ [nilnode D])))
               (Some (hd (ss @ [nilnode S]))) h = Some r \<and>
             merged h D S (set (nilnode S # ss) \<union> set (nilnode D # ps @ ds))
               (ps @ lmerge (data_cmp compare h) ds ss) r"
  using assms
proof (induction "data_cmp compare h" ds ss arbitrary: h D S ps rule: lmerge.induct)
  case (1 ss)
  then have "merged h D S A (ps @ ss) (D, S, Some (nilnode D), Some (hd (ss @ [nilnode S])), h)" for A
    unfolding merged_def
    by (intro exI [of _ D] exI [of _ S] exI [of _ ps] exI [of _ "[]"] exI [of _ ss] exI [of _ h]) simp
  then show ?case
    by (simp add: list_merge_loop.simps)
next
  case (2 d ds)
  then have "merged h D S A (ps @ d # ds) (D, S, Some d, Some (nilnode S), h)" for A
    unfolding merged_def
    by (intro exI [of _ D] exI [of _ S] exI [of _ ps] exI [of _ "d # ds"] exI [of _ "[]"] exI [of _ h])
      simp
  then show ?case
    by (simp add: list_merge_loop.simps)
next
  case (3 d ds s ss)
  note st = "3.prems"
  let ?A = "set (nilnode S # s # ss) \<union> set (nilnode D # ps @ d # ds)"
  have ne: "d \<noteq> nilnode D" "s \<noteq> nilnode S"
    using st by (auto simp: merge_state_def list_rep_def)
  show ?case
  proof (cases "data_cmp compare h d s \<ge> 0")
    case True
    from merge_state_take [OF st] obtain D1 S1 h1 h2 where
      step: "list_delete S s h = Some (s, S1, h1)" "list_ins_before D s d h1 = Some (D1, h2)"
        "l_next h s = Some (hd (ss @ [nilnode S]))" and
      st2: "merge_state h2 D1 S1 (ps @ [s]) (d # ds) ss" and
      same: "nilnode D1 = nilnode D" "maxcount D1 = maxcount D"
        "nilnode S1 = nilnode S" "maxcount S1 = maxcount S" and
      eq: "heap_eq_outside ?A h h2"
      by blast
    have cmp: "data_cmp compare h = data_cmp compare h2"
      using data_cmp_frame [OF eq] by simp
    from "3.hyps"(1) [OF True cmp st2] obtain r where
      loop: "list_merge_loop compare D1 S1 (Some d) (Some (hd (ss @ [nilnode S]))) h2 = Some r" and
      res: "merged h2 D1 S1 (set (nilnode S # ss) \<union> set (nilnode D # (ps @ [s]) @ d # ds))
        ((ps @ [s]) @ lmerge (data_cmp compare h) (d # ds) ss) r"
      unfolding same cmp by auto
    have "list_merge_loop compare D S (Some d) (Some s) h = Some r"
      using True ne step loop by (subst list_merge_loop.simps) (simp add: data_cmp_def)
    moreover have "merged h D S ?A ((ps @ [s]) @ lmerge (data_cmp compare h) (d # ds) ss) r"
      by (rule merged_trans [OF res eq _ same]) auto
    ultimately show ?thesis
      using True by simp
  next
    case False
    have st2: "merge_state h D S (ps @ [d]) ds (s # ss)"
      using st by (simp add: merge_state_def)
    have nxt: "l_next h d = Some (hd (ds @ [nilnode D]))"
      using st list_rep_link(4) [of h D "ps @ [d]" ds] by (simp add: merge_state_def)
    from "3.hyps"(2) [OF False refl st2] obtain r where
      loop: "list_merge_loop compare D S (Some (hd (ds @ [nilnode D]))) (Some s) h = Some r" and
      res: "merged h D S ?A ((ps @ [d]) @ lmerge (data_cmp compare h) ds (s # ss)) r"
      by auto
    have "list_merge_loop compare D S (Some d) (Some s) h = Some r"
      using False ne nxt loop by (subst list_merge_loop.simps) (simp add: data_cmp_def)
    then show ?thesis
      using False res by simp
  qed
qed

lemma ow_list_merge_rep:
  assumes rd: "list_rep h D ds" and rs: "list_rep h S ss"
    and disj: "set (nilnode S # ss) \<inter> set (nilnode D # ds) = {}"
    and room: "length (ds @ ss) \<le> unat (maxcount D)"
    and sd: "successively (\<lambda>a b. data_cmp compare h a b \<le> 0) ds"
    and so: "successively (\<lambda>a b. data_cmp compare h a b \<le> 0) ss"
  shows "\<exists>D' S' h'. ow_list_merge D S compare h = Some (D', S', h') \<and>
           list_rep h' D' (lmerge (data_cmp compare h) ds ss) \<and> list_rep h' S' [] \<and>
           nilnode D' = nilnode D \<and> maxcount D' = maxcount D \<and>
           heap_eq_outside (set (nilnode S # ss) \<union> set (nilnode D # ds)) h h'"
proof -
  let ?A = "set (nilnode S # ss) \<union> set (nilnode D # ds)"
  have st: "merge_state h D S [] ds ss"
    using rd rs disj room by (simp add: merge_state_def)
  have ne: "nilnode D \<noteq> nilnode S"
    using disj by auto
  have first: "l_next h (nilnode D) = Some (hd (ds @ [nilnode D]))"
    "l_next h (nilnode S) = Some (hd (ss @ [nilnode S]))"
    using rd rs lseg_hd unfolding list_rep_def by metis+
  from list_merge_loop_rep [OF st, of compare] obtain r where
    run: "list_merge_loop compare D S (l_next h (nilnode D)) (l_next h (nilnode S)) h = Some r" and
    m: "merged h D S ?A (lmerge (data_cmp compare h) ds ss) r"
    unfolding first by auto
  from m obtain D1 S1 ps' ds' ss' h1 where
    r: "r = (D1, S1, Some (hd (ds' @ [nilnode D])), Some (hd (ss' @ [nilnode S])), h1)" and
    st1: "merge_state h1 D1 S1 ps' ds' ss'" and one: "ds' = [] \<or> ss' = []" and
    res: "ps' @ ds' @ ss' = lmerge (data_cmp compare h) ds ss" and
    same: "nilnode D1 = nilnode D" "maxcount D1 = maxcount D"
      "nilnode S1 = nilnode S" "maxcount S1 = maxcount S" and
    eq: "heap_eq_outside ?A h h1"
    unfolding merged_def by blast
  note loop = run [unfolded r]
  have rD1: "list_rep h1 D1 (ps' @ ds')" and rS1: "list_rep h1 S1 ss'"
    using st1 by (auto simp: merge_state_def)
  have hdD: "hd (ds' @ [nilnode D]) = nilnode D \<longleftrightarrow> ds' = []"
    using rD1 same by (cases ds') (auto simp: list_rep_def)
  have hdS: "hd (ss' @ [nilnode S]) = nilnode S \<longleftrightarrow> ss' = []"
    using rS1 same by (cases ss') (auto simp: list_rep_def)
  have start: "ow_list_merge D S compare h =
      (if ds' \<noteq> [] then Some (D1, S1, h1)
       else if ss' \<noteq> [] then ow_list_transfer D1 S1 (Some (hd (ss' @ [nilnode S]))) h1
       else Some (D1, S1, h1))"
    using ne rd rs sd so hdD hdS same
    by (simp add: ow_list_merge_def loop data_cmp_def del: hd_append_single)
  show ?thesis
  proof (cases "ss' = []")
    case True
    then show ?thesis
      using start rD1 rS1 res same eq
      by (intro exI [of _ D1] exI [of _ S1] exI [of _ h1]) simp
  next
    case False
    then obtain f qs where ss': "ss' = f # qs"
      by (cases ss') auto
    have ds': "ds' = []" using one False by simp
    have d1: "set (nilnode S1 # [] @ f # qs) \<inter> set (nilnode D1 # ps') = {}"
      and r1: "length (ps' @ f # qs) \<le> unat (maxcount D1)"
      using st1 ss' ds' by (auto simp: merge_state_def)
    from ow_list_transfer_rep [of h1 S1 "[]" f qs D1 ps', OF _ _ d1 r1] rD1 rS1 ss' ds'
    obtain D' S' h' where
      tr: "ow_list_transfer D1 S1 (Some f) h1 = Some (D', S', h')"
        "list_rep h' S' []" "list_rep h' D' (ps' @ f # qs)"
        "nilnode D' = nilnode D1" "maxcount D' = maxcount D1" and
      eq2: "heap_eq_outside (set (nilnode S1 # f # qs) \<union> set (nilnode D1 # ps')) h1 h'"
      by auto
    have "set ps' \<union> set ss' = set ds \<union> set ss"
      using arg_cong [OF res, of set] ds' by simp
    then have sub: "?A \<union> (set (nilnode S1 # f # qs) \<union> set (nilnode D1 # ps')) \<subseteq> ?A"
      using same ss' by auto
    show ?thesis
      using start tr res same ss' ds' heap_eq_outside_trans [OF eq eq2 sub]
      by (intro exI [of _ D'] exI [of _ S'] exI [of _ h']) simp
  qed
qed

subsection \<open>Sorting\<close>

text \<open>The contract of a \<open>compare\<close> callback.  The C library's string comparison satisfies it
  (interpretation below).\<close>

locale compare_fn =
  fixes compare :: "'a \<Rightarrow> 'a \<Rightarrow> int"
  assumes cmp_flip: "compare a b \<ge> 0 \<Longrightarrow> compare b a \<le> 0"
    and cmp_trans: "compare a b \<le> 0 \<Longrightarrow> compare b c \<le> 0 \<Longrightarrow> compare a c \<le> 0"
begin

lemma lmerge_sorted:
  "sorted_wrt (\<lambda>a b. compare a b \<le> 0) ds \<Longrightarrow> sorted_wrt (\<lambda>a b. compare a b \<le> 0) ss \<Longrightarrow>
   sorted_wrt (\<lambda>a b. compare a b \<le> 0) (lmerge compare ds ss)"
proof (induction "length ds + length ss" arbitrary: ds ss rule: less_induct)
  case less
  show ?case
  proof (cases "ds = [] \<or> ss = []")
    case True
    then show ?thesis using less.prems by (cases ds) auto
  next
    case False
    then obtain d ds' s ss' where eq: "ds = d # ds'" "ss = s # ss'"
      by (meson neq_Nil_conv)
    have "sorted_wrt (\<lambda>a b. compare a b \<le> 0) (lmerge compare ds ss')"
      "sorted_wrt (\<lambda>a b. compare a b \<le> 0) (lmerge compare ds' ss)"
      using less.prems eq by (intro less.hyps; simp)+
    moreover have "compare d x \<le> 0" if "x \<in> set ss" "\<not> compare d s \<ge> 0" for x
      using that less.prems eq cmp_trans [of d s x] by auto
    moreover have "compare s x \<le> 0" if "x \<in> set ds" "compare d s \<ge> 0" for x
      using that less.prems eq cmp_flip [of d s] cmp_trans [of s d x] by auto
    ultimately show ?thesis
      using less.prems eq by (cases "compare d s \<ge> 0") auto
  qed
qed

end

function lsort :: "('n \<Rightarrow> 'n \<Rightarrow> int) \<Rightarrow> 'n list \<Rightarrow> 'n list" where
  "lsort c xs =
     (if length xs \<le> 1 then xs
      else lmerge c (lsort c (take (length xs div 2) xs)) (lsort c (drop (length xs div 2) xs)))"
  by pat_completeness auto
termination
  by (relation "measure (\<lambda>(c, xs). length xs)") auto

declare lsort.simps [simp del]

lemma mset_lsort [simp]: "mset (lsort c xs) = mset xs"
proof (induction c xs rule: lsort.induct)
  case (1 c xs)
  then show ?case
    by (subst lsort.simps) (simp del: mset_append flip: mset_append)
qed

lemma set_lsort [simp]: "set (lsort c xs) = set xs"
  by (metis mset_lsort set_mset_mset)

lemma length_lsort [simp]: "length (lsort c xs) = length xs"
  by (metis mset_lsort size_mset)

context compare_fn
begin

lemma lsort_sorted: "sorted_wrt (\<lambda>a b. compare a b \<le> 0) (lsort compare xs)"
proof (induction "length xs" arbitrary: xs rule: less_induct)
  case less
  show ?case
  proof (cases "length xs \<le> 1")
    case True
    then show ?thesis by (cases xs) (auto simp: lsort.simps)
  next
    case False
    with less show ?thesis
      by (subst lsort.simps) (simp add: lmerge_sorted)
  qed
qed

lemma lsort_successively: "successively (\<lambda>a b. compare a b \<le> 0) (lsort compare xs)"
  using lsort_sorted by (rule successively_if_sorted_wrt)

end

lemma list_advance_seg:
  assumes "lseg h a xs b" "k \<le> length xs"
  shows "list_advance h k (Some (hd (xs @ [b]))) = Some (Some (hd (drop k xs @ [b])))"
  using assms
proof (induction k arbitrary: a xs)
  case (Suc k)
  then obtain x ys where xs: "xs = x # ys"
    by (cases xs) auto
  then have "l_next h x = Some (hd (ys @ [b]))"
    using Suc.prems lseg_hd [of h x ys b] by simp
  then show ?case
    using Suc.IH [of x ys] Suc.prems xs by simp
qed simp

lemma list_init_rep:
  assumes "mx \<noteq> 0"
  shows "\<exists>h'. list_init l mx h = Some (l\<lparr>nodecount := 0, maxcount := mx\<rparr>, h') \<and>
           list_rep h' (l\<lparr>nodecount := 0, maxcount := mx\<rparr>) [] \<and>
           heap_eq_outside {nilnode l} h h'"
  using assms by (auto simp: list_init_def list_rep_def heap_eq_outside_def)

text \<open>The split that \<open>ow_list_sort\<close> makes before it recurses.\<close>

lemma list_split_rep:
  assumes rep: "list_rep h l xs" and len: "length xs > 1" and sp: "\<forall>n \<in> set (nilnode l # xs). n < sp"
  shows "\<exists>extra h1 node extra1 l1 h2.
    list_init \<lparr>nilnode = sp, nodecount = 0, maxcount = 0\<rparr>
      (ow_list_count l - ow_list_count l div 2) h = Some (extra, h1) \<and>
    list_advance h1 (unat (ow_list_count l div 2)) (l_next h1 (nilnode l)) = Some node \<and>
    ow_list_transfer extra l node h1 = Some (extra1, l1, h2) \<and>
    list_rep h2 l1 (take (length xs div 2) xs) \<and>
    list_rep h2 extra1 (drop (length xs div 2) xs) \<and>
    nilnode l1 = nilnode l \<and> maxcount l1 = maxcount l \<and> nilnode extra1 = sp \<and>
    heap_eq_outside (set (nilnode l # xs) \<union> {sp}) h h2"
proof -
  define m where "m = length xs div 2"
  have n: "unat (nodecount l) = length xs"
    using rep by (simp add: list_rep_def)
  have um: "unat (nodecount l div 2) = m"
    using n by (simp add: m_def unat_div)
  have "nodecount l div 2 \<le> nodecount l"
    using um n by (simp add: word_le_nat_alt m_def)
  then have ux: "unat (nodecount l - nodecount l div 2) = length xs - m"
    using um n by (simp add: unat_sub)
  then have nz: "nodecount l - nodecount l div 2 \<noteq> 0"
    using len by (auto simp: m_def)
  define extra where "extra = \<lparr>nilnode = sp, nodecount = 0,
    maxcount = nodecount l - nodecount l div 2\<rparr>"
  from list_init_rep [OF nz, of "\<lparr>nilnode = sp, nodecount = 0, maxcount = 0\<rparr>" h]
  obtain h1 where init: "list_init \<lparr>nilnode = sp, nodecount = 0, maxcount = 0\<rparr>
      (nodecount l - nodecount l div 2) h = Some (extra, h1)"
    and re: "list_rep h1 extra []" and eq1: "heap_eq_outside {sp} h h1"
    by (auto simp: extra_def)
  have rl: "list_rep h1 l xs"
    using list_rep_frame [OF eq1] rep sp by auto
  obtain f qs where dr: "drop m xs = f # qs"
    using len by (cases "drop m xs") (auto simp: m_def)
  have xs: "xs = take m xs @ f # qs"
    using append_take_drop_id [of m xs] dr by simp
  have rl': "list_rep h1 l (take m xs @ f # qs)"
    using rl by (simp only: xs [symmetric])
  have sx: "set (take m xs @ f # qs) = set xs"
    by (simp only: xs [symmetric])
  have ml: "m < length xs"
    using len by (simp add: m_def)
  have adv: "list_advance h1 m (l_next h1 (nilnode l)) = Some (Some f)"
    using list_advance_seg [of h1 "nilnode l" xs "nilnode l" m] rl dr ml
      lseg_hd [of h1 "nilnode l" xs "nilnode l"]
    by (simp add: list_rep_def)
  have disj: "set (nilnode l # take m xs @ f # qs) \<inter> set (nilnode extra # []) = {}"
    using sp sx by (auto simp: extra_def)
  have room: "length ([] @ f # qs) \<le> unat (maxcount extra)"
    using ux arg_cong [OF dr, of length] by (simp add: extra_def)
  from ow_list_transfer_rep [of h1 l "take m xs" f qs extra "[]", OF rl' re disj room]
  obtain extra1 l1 h2 where
    tr: "ow_list_transfer extra l (Some f) h1 = Some (extra1, l1, h2)"
      "list_rep h2 l1 (take m xs)" "list_rep h2 extra1 (f # qs)"
      "nilnode extra1 = nilnode extra" "nilnode l1 = nilnode l" "maxcount l1 = maxcount l"
    and eq2: "heap_eq_outside (set (nilnode l # take m xs @ f # qs) \<union> set [nilnode extra]) h1 h2"
    by auto
  have eq: "heap_eq_outside (set (nilnode l # xs) \<union> {sp}) h h2"
    by (rule heap_eq_outside_trans [OF eq1 eq2]) (use sx in \<open>auto simp: extra_def\<close>)
  show ?thesis
    using init adv um tr eq dr
    by (intro exI [of _ extra] exI [of _ h1] exI [of _ "Some f"] exI [of _ extra1]
        exI [of _ l1] exI [of _ h2])
      (simp add: ow_list_count_def extra_def flip: m_def)
qed

context compare_fn
begin

lemma data_cmp_compare_fn: "compare_fn (data_cmp compare h)"
  by unfold_locales (auto simp: data_cmp_def intro: cmp_flip cmp_trans)

text \<open>\<open>sorts_to sp compare h l xs\<close>: the call returns, the list then holds \<open>lsort\<close> of its nodes,
  and only its own links and stack frames from \<open>sp\<close> on have changed.\<close>

definition sorts_to :: "addr \<Rightarrow> 'a lheap \<Rightarrow> list_t \<Rightarrow> addr list \<Rightarrow> bool" where
  "sorts_to sp h l xs \<longleftrightarrow>
     (\<exists>l' h'. ow_list_sort sp l compare h = Some (l', h') \<and>
        list_rep h' l' (lsort (data_cmp compare h) xs) \<and>
        nilnode l' = nilnode l \<and> maxcount l' = maxcount l \<and>
        heap_eq_outside (set (nilnode l # xs) \<union> {sp..}) h h')"

lemma sort_halves:
  assumes r1: "list_rep h l ys" and r2: "list_rep h e zs"
    and disj: "set (nilnode l # ys) \<inter> set zs = {}" and nl: "nilnode l < sp" "nilnode e = sp"
    and lt: "\<forall>n \<in> set (ys @ zs). n < sp"
    and IH1: "sorts_to (sp + 1) h l ys"
    and IH2: "\<And>h. list_rep h e zs \<Longrightarrow> sorts_to (sp + 1) h e zs"
  shows "\<exists>l' h1 e' h2. ow_list_sort (sp + 1) l compare h = Some (l', h1) \<and>
    ow_list_sort (sp + 1) e compare h1 = Some (e', h2) \<and>
    list_rep h2 l' (lsort (data_cmp compare h) ys) \<and>
    list_rep h2 e' (lsort (data_cmp compare h) zs) \<and>
    nilnode l' = nilnode l \<and> maxcount l' = maxcount l \<and> nilnode e' = sp \<and>
    heap_eq_outside (set (nilnode l # ys @ zs) \<union> {sp..}) h h2"
proof -
  let ?c = "data_cmp compare h"
  from IH1 obtain l' h1 where
    s1: "ow_list_sort (sp + 1) l compare h = Some (l', h1)" "list_rep h1 l' (lsort ?c ys)"
      "nilnode l' = nilnode l" "maxcount l' = maxcount l"
    and eq1: "heap_eq_outside (set (nilnode l # ys) \<union> {sp + 1..}) h h1"
    unfolding sorts_to_def by blast
  have c1: "data_cmp compare h1 = ?c"
    by (rule data_cmp_frame [OF eq1])
  have below: "sp \<notin> set ys" "sp \<notin> set zs" "\<forall>n \<in> set (ys @ zs). \<not> Suc sp \<le> n"
    using lt by (auto simp: not_less_eq_eq [symmetric] dest!: bspec)
  have "(set (nilnode l # ys) \<union> {sp + 1..}) \<inter> set (nilnode e # zs) = {}"
    using disj below nl by auto
  then have "list_rep h1 e zs"
    using list_rep_frame [OF eq1] r2 by blast
  from IH2 [OF this] obtain e' h2 where
    s2: "ow_list_sort (sp + 1) e compare h1 = Some (e', h2)" "list_rep h2 e' (lsort ?c zs)"
      "nilnode e' = sp"
    and eq2: "heap_eq_outside (set (sp # zs) \<union> {sp + 1..}) h1 h2"
    unfolding sorts_to_def c1 nl(2) by blast
  have "(set (sp # zs) \<union> {sp + 1..}) \<inter> set (nilnode l' # lsort ?c ys) = {}"
    using disj below nl s1(3) by auto
  then have "list_rep h2 l' (lsort ?c ys)"
    using list_rep_frame [OF eq2] s1(2) by blast
  moreover have "heap_eq_outside (set (nilnode l # ys @ zs) \<union> {sp..}) h h2"
    by (rule heap_eq_outside_trans [OF eq1 eq2]) auto
  ultimately show ?thesis
    using s1 s2 by blast
qed

lemma ow_list_sort_rep:
  assumes "list_rep h l xs" and "\<forall>n \<in> set (nilnode l # xs). n < sp"
  shows "sorts_to sp h l xs"
  using assms
proof (induction "length xs" arbitrary: sp l h xs rule: less_induct)
  case less
  note rep = less.prems(1) and sp = less.prems(2)
  let ?c = "data_cmp compare h" and ?m = "length xs div 2"
  have sorted: "successively (\<lambda>a b. ?c a b \<le> 0) (lsort ?c ys)" for ys
    using compare_fn.lsort_successively [OF data_cmp_compare_fn] .
  have cnt: "(ow_list_count l > 1) = (length xs > 1)"
    using rep by (simp add: ow_list_count_def list_rep_def word_less_nat_alt)
  show ?case
  proof (cases "length xs > 1")
    case False
    then have xs: "lsort ?c xs = xs"
      by (simp add: lsort.simps)
    then have "ow_list_sort sp l compare h = Some (l, h)"
      using False rep cnt sorted [of xs]
      by (subst ow_list_sort.simps) (simp add: data_cmp_def)
    then show ?thesis
      using xs rep by (simp add: sorts_to_def)
  next
    case True
    from list_split_rep [OF rep True sp] obtain extra h1 node extra1 l1 h2 where
      split: "list_init \<lparr>nilnode = sp, nodecount = 0, maxcount = 0\<rparr>
          (ow_list_count l - ow_list_count l div 2) h = Some (extra, h1)"
        "list_advance h1 (unat (ow_list_count l div 2)) (l_next h1 (nilnode l)) = Some node"
        "ow_list_transfer extra l node h1 = Some (extra1, l1, h2)" and
      r: "list_rep h2 l1 (take ?m xs)" "list_rep h2 extra1 (drop ?m xs)" and
      same: "nilnode l1 = nilnode l" "maxcount l1 = maxcount l" "nilnode extra1 = sp" and
      eq2: "heap_eq_outside (set (nilnode l # xs) \<union> {sp}) h h2"
      by blast
    have sub: "set (take ?m xs @ drop ?m xs) = set xs"
      by (simp only: append_take_drop_id)
    have disj: "set (nilnode l1 # take ?m xs) \<inter> set (drop ?m xs) = {}"
      using rep same by (auto simp: list_rep_def set_take_disj_set_drop_if_distinct
          dest: in_set_dropD)
    have short: "length (take ?m xs) < length xs" "length (drop ?m xs) < length xs"
      using True by auto
    have lt: "\<forall>n \<in> set (take ?m xs @ drop ?m xs). n < sp"
      using sp by (simp only: sub) simp
    have "\<forall>n \<in> set (nilnode l1 # take ?m xs). n < sp + 1"
      and "\<forall>n \<in> set (nilnode extra1 # drop ?m xs). n < sp + 1"
      using sp same by (auto simp: less_Suc_eq dest: in_set_takeD in_set_dropD)
    note ih = less.hyps [OF short(1) r(1) this(1)] less.hyps [OF short(2) _ this(2)]
    have c2: "data_cmp compare h2 = ?c"
      by (rule data_cmp_frame [OF eq2])
    have nl: "nilnode l1 < sp" using sp same by simp
    from sort_halves [OF r disj nl same(3) lt ih] obtain l3 h3 e4 h4 where
      s: "ow_list_sort (sp + 1) l1 compare h2 = Some (l3, h3)"
        "ow_list_sort (sp + 1) extra1 compare h3 = Some (e4, h4)" and
      r4: "list_rep h4 l3 (lsort ?c (take ?m xs))" "list_rep h4 e4 (lsort ?c (drop ?m xs))" and
      same4: "nilnode l3 = nilnode l" "maxcount l3 = maxcount l" "nilnode e4 = sp" and
      eq4: "heap_eq_outside (set (nilnode l # take ?m xs @ drop ?m xs) \<union> {sp..}) h2 h4"
      unfolding c2 same by blast
    have c4: "data_cmp compare h4 = ?c"
      using data_cmp_frame [OF eq4] c2 by simp
    have d4: "set (nilnode e4 # lsort ?c (drop ?m xs)) \<inter> set (nilnode l3 # lsort ?c (take ?m xs)) = {}"
      using disj sp nl same same4 by (auto dest: in_set_takeD)
    have room: "length (lsort ?c (take ?m xs) @ lsort ?c (drop ?m xs)) \<le> unat (maxcount l3)"
      using rep same4 True by (simp add: list_rep_def word_le_nat_alt)
    have fin: "lmerge ?c (lsort ?c (take ?m xs)) (lsort ?c (drop ?m xs)) = lsort ?c xs"
      using True by (simp add: lsort.simps [of ?c xs])
    from ow_list_merge_rep [OF r4 d4 room, of compare] sorted
    obtain l5 e5 h5 where
      mg: "ow_list_merge l3 e4 compare h4 = Some (l5, e5, h5)" "list_rep h5 l5 (lsort ?c xs)"
        "nilnode l5 = nilnode l" "maxcount l5 = maxcount l"
      and eq5: "heap_eq_outside (set (nilnode e4 # lsort ?c (drop ?m xs)) \<union>
        set (nilnode l3 # lsort ?c (take ?m xs))) h4 h5"
      unfolding c4 fin same4 by auto
    have "data_cmp compare h5 = ?c"
      using data_cmp_frame [OF eq5] c4 by simp
    then have "list_is_sorted l5 compare h5 = Some True"
      using mg(2) sorted [of xs] by (simp add: data_cmp_def fun_eq_iff)
    then have "ow_list_sort sp l compare h = Some (l5, h5)"
      using True cnt split s mg(1) by (subst ow_list_sort.simps) (simp add: Let_def)
    moreover have "heap_eq_outside (set (nilnode l # xs) \<union> {sp..}) h h5"
      by (rule heap_eq_outside_trans [OF heap_eq_outside_trans [OF eq2 eq4 order_refl] eq5])
        (use same4 in \<open>auto dest: in_set_takeD in_set_dropD\<close>)
    ultimately show ?thesis
      using mg by (auto simp: sorts_to_def)
  qed
qed

end

section \<open>What clients rely on\<close>

subsection \<open>Iteration, emptiness and removal at the ends\<close>

lemma ow_list_first_rep:
  assumes "list_rep h l xs"
  shows "ow_list_first (Some l) h = (if xs = [] then None else Some (hd xs))"
  using assms by (cases xs) (auto simp: ow_list_first_def list_rep_def)

lemma ow_list_last_rep:
  assumes "list_rep h l xs"
  shows "ow_list_last l h = (if xs = [] then None else Some (last xs))"
  using assms lseg_last [of h "nilnode l" xs "nilnode l"]
  by (cases xs rule: rev_cases) (auto simp: ow_list_last_def list_rep_def)

lemma ow_list_next_rep:
  assumes "list_rep h l (ps @ n # qs)"
  shows "ow_list_next l n h = Some (if qs = [] then None else Some (hd qs))"
proof -
  have "l_next h n = Some (hd (qs @ [nilnode l]))"
    using assms list_rep_link(4) [of h l "ps @ [n]" qs] by simp
  moreover have "nilnode l \<notin> set qs"
    using assms by (simp add: list_rep_def)
  ultimately show ?thesis
    using assms by (cases qs) (auto simp: ow_list_next_def)
qed

lemma ow_list_prev_rep:
  assumes "list_rep h l (ps @ n # qs)"
  shows "ow_list_prev l n h = Some (if ps = [] then None else Some (last ps))"
proof -
  have "l_prev h n = Some (last (nilnode l # ps))"
    using assms list_rep_link(3) [of h l ps "n # qs"] by simp
  moreover have "nilnode l \<notin> set ps"
    using assms by (simp add: list_rep_def)
  ultimately show ?thesis
    using assms by (cases ps rule: rev_cases) (auto simp: ow_list_prev_def)
qed

lemma ow_list_isempty_rep:
  assumes "list_rep h l xs"
  shows "ow_list_isempty (Some l) = (xs = [])"
  using assms unat_eq_0 [of "nodecount l"] by (auto simp: ow_list_isempty_def list_rep_def)

lemma ow_list_del_first_rep:
  assumes "list_rep h l (x # xs)"
  shows "\<exists>l' h'. ow_list_del_first l h = Some (x, l', h') \<and> list_rep h' l' xs"
proof -
  have "l_next h (nilnode l) = Some x"
    using assms by (simp add: list_rep_def)
  then show ?thesis
    using list_delete_rep [of h l "[]" x xs] assms by (auto simp: ow_list_del_first_def)
qed

lemma ow_list_del_last_rep:
  assumes "list_rep h l (xs @ [x])"
  shows "\<exists>l' h'. ow_list_del_last l h = Some (x, l', h') \<and> list_rep h' l' xs"
proof -
  have "l_prev h (nilnode l) = Some x"
    using assms lseg_last [of h "nilnode l" "xs @ [x]" "nilnode l"] by (simp add: list_rep_def)
  then show ?thesis
    using list_delete_rep [of h l xs x "[]"] assms by (auto simp: ow_list_del_last_def)
qed

lemma list_destroy_nodes_from_seg:
  assumes "lseg h y ys nl" "nl \<notin> set (y # ys)" "distinct (y # ys)"
  shows "\<exists>h'. list_destroy_nodes_from nl (Some y) h = Some h' \<and>
          (\<forall>m \<in> set (y # ys). \<not> lnode_is_in_a_list m h') \<and> heap_eq_outside (set (y # ys)) h h'"
  using assms
proof (induction ys arbitrary: y h)
  case Nil
  then show ?case
    by (simp add: list_destroy_nodes_from.simps lnode_is_in_a_list_def heap_eq_outside_def Let_def)
next
  case (Cons z zs)
  let ?h = "set_prev y None (set_next y None h)"
  have "lseg ?h z zs nl = lseg h z zs nl"
    using Cons.prems by (intro lseg_cong) auto
  then have "lseg ?h z zs nl"
    using Cons.prems by simp
  from Cons.IH [OF this] Cons.prems obtain h' where
    h': "list_destroy_nodes_from nl (Some z) ?h = Some h'"
      "\<forall>m \<in> set (z # zs). \<not> lnode_is_in_a_list m h'" "heap_eq_outside (set (z # zs)) ?h h'"
    by auto
  have "list_destroy_nodes_from nl (Some y) h = Some h'"
    using Cons.prems h'(1)
    by (subst list_destroy_nodes_from.simps) (simp add: Let_def lnode_is_in_a_list_def)
  moreover have "\<not> lnode_is_in_a_list y h'"
    using lnode_is_in_a_list_frame [OF h'(3), of y] Cons.prems by (simp add: lnode_is_in_a_list_def)
  moreover have "heap_eq_outside (set (y # z # zs)) h h'"
    using h'(3) by (auto simp: heap_eq_outside_def)
  ultimately show ?case
    using h'(2) by auto
qed

lemma list_destroy_nodes_rep:
  assumes rep: "list_rep h l xs"
  shows "\<exists>h'. list_destroy_nodes l h = Some (l\<lparr>nodecount := 0\<rparr>, h') \<and>
          list_rep h' (l\<lparr>nodecount := 0\<rparr>) [] \<and> (\<forall>m \<in> set xs. \<not> lnode_is_in_a_list m h') \<and>
          heap_eq_outside (set (nilnode l # xs)) h h'"
proof (cases xs)
  case Nil
  then show ?thesis
    using rep by (auto simp: list_destroy_nodes_def list_destroy_nodes_from.simps list_init_def
        list_rep_def heap_eq_outside_def)
next
  case (Cons y ys)
  then have seg: "l_next h (nilnode l) = Some y" "lseg h y ys (nilnode l)"
    "nilnode l \<notin> set (y # ys)" "distinct (y # ys)"
    using rep by (auto simp: list_rep_def)
  from list_destroy_nodes_from_seg [OF seg(2-4)] obtain h1 where
    h1: "list_destroy_nodes_from (nilnode l) (Some y) h = Some h1"
      "\<forall>m \<in> set (y # ys). \<not> lnode_is_in_a_list m h1" "heap_eq_outside (set (y # ys)) h h1"
    by blast
  have "maxcount l \<noteq> 0"
    using rep by (simp add: list_rep_def)
  then show ?thesis
    using h1 seg Cons by (auto simp: list_destroy_nodes_def list_init_def list_rep_def
        lnode_is_in_a_list_def heap_eq_outside_def)
qed

subsection \<open>\<open>list_verify\<close> is a complete check\<close>

lemma lseg_unique:
  assumes "lseg h a ys b" "lseg h a zs b" "b \<notin> set ys" "b \<notin> set zs"
  shows "ys = zs"
  using assms
proof (induction ys arbitrary: a zs)
  case Nil
  then show ?case by (cases zs) auto
next
  case (Cons y ys)
  then show ?case by (cases zs) auto
qed

lemma lseg_distinct:
  assumes "lseg h a ys b" "b \<notin> set ys"
  shows "distinct ys"
proof (rule ccontr)
  assume "\<not> distinct ys"
  then obtain us vs ws x where ys: "ys = us @ [x] @ vs @ [x] @ ws"
    by (blast dest: not_distinct_decomp)
  then have "lseg h x (vs @ x # ws) b" "lseg h x ws b"
    using assms(1) by auto
  then have "vs @ x # ws = ws"
    using assms(2) ys by (intro lseg_unique) auto
  then have "length (vs @ x # ws) = length ws"
    by (rule arg_cong)
  then show False
    by simp
qed

lemma list_verify_from_sound:
  assumes "list_verify_from h nl (Some a) cnt = Some True"
    and "l_next h p = Some a" "l_prev h a = Some p"
  shows "\<exists>ys. lseg h p ys nl \<and> nl \<notin> set ys \<and> length ys = unat cnt"
  using assms
proof (induction "unat cnt" arbitrary: cnt a p)
  case 0
  then have "cnt = 0"
    by (simp add: unat_eq_0)
  then have "a = nl"
    using 0 by (simp add: list_verify_from.simps split: if_splits)
  then show ?case
    using 0 by (intro exI [of _ "[]"]) simp
next
  case (Suc k)
  then have c: "cnt \<noteq> 0" "k = unat (cnt - 1)"
    using unat_word_pred [of cnt] by auto
  then have "a \<noteq> nl"
    using Suc.prems by (auto simp: list_verify_from.simps)
  then obtain n where n: "l_next h a = Some n" "l_prev h n = Some a"
    "list_verify_from h nl (Some n) (cnt - 1) = Some True"
    using Suc.prems(1) c
    by (subst (asm) list_verify_from.simps) (auto split: if_splits elim!: bind_SomeD)
  from Suc.hyps(1) [OF c(2) n(3,1,2)] obtain ys where
    "lseg h a ys nl" "nl \<notin> set ys" "length ys = k"
    using c by auto
  then show ?case
    using Suc \<open>a \<noteq> nl\<close> by (intro exI [of _ "a # ys"]) simp
qed

text \<open>\<open>strcmp\<close>, and the comparison of method arguments by key that the CIM plug-in passes to
  \<open>list_sort\<close> (\<open>src/src/plugins/cim/sfcc-interface.c\<close>), meet the contract.\<close>

record methodarglist_t =
  ma_key :: string
  ma_data :: "addr option"
  arraycount :: int

definition comparef :: "methodarglist_t \<Rightarrow> methodarglist_t \<Rightarrow> int" where
  "comparef d1 d2 = strcmp (ma_key d1) (ma_key d2)"

interpretation str_cmp: compare_fn strcmp
proof
  fix a b c :: string
  show "strcmp b a \<le> 0" if "0 \<le> strcmp a b"
    using that strcmp_swap [of a b] by simp
  show "strcmp a c \<le> 0" if "strcmp a b \<le> 0" "strcmp b c \<le> 0"
    using that by (rule strcmp_trans)
qed

interpretation arg_cmp: compare_fn comparef
  by unfold_locales
    (auto simp: comparef_def intro: str_cmp.cmp_flip str_cmp.cmp_trans)

section \<open>Properties\<close>

text \<open>C10: Sorting the arguments of a method call with \<open>list_sort(arglist, comparef)\<close> returns, keeps a
  well-formed list of exactly the same nodes, leaves every node's data alone, and orders the
  nodes by key; no node outside the list and the stack frames of the sort is written.\<close>

theorem ow_list_sort_correct:
  assumes "list_rep h l xs" and "\<forall>n \<in> set (nilnode l # xs). n < sp"
  shows "\<exists>l' h' ys. ow_list_sort sp l comparef h = Some (l', h') \<and> list_rep h' l' ys \<and>
           mset ys = mset xs \<and> l_data h' = l_data h \<and>
           sorted_wrt (\<lambda>a b. strcmp (ma_key (l_data h' a)) (ma_key (l_data h' b)) \<le> 0) ys \<and>
           heap_eq_outside (set (nilnode l # xs) \<union> {sp..}) h h'"
proof -
  let ?ys = "lsort (data_cmp comparef h) xs"
  obtain l' h' where r: "ow_list_sort sp l comparef h = Some (l', h')" "list_rep h' l' ?ys"
    "heap_eq_outside (set (nilnode l # xs) \<union> {sp..}) h h'"
    using arg_cmp.ow_list_sort_rep [OF assms] unfolding arg_cmp.sorts_to_def by blast
  have d: "l_data h' = l_data h"
    using r(3) by (rule heap_eq_outside_data)
  have "sorted_wrt (\<lambda>a b. data_cmp comparef h a b \<le> 0) ?ys"
    by (rule compare_fn.lsort_sorted [OF arg_cmp.data_cmp_compare_fn])
  then show ?thesis
    using r d by (intro exI [of _ l'] exI [of _ h'] exI [of _ ?ys])
      (simp add: data_cmp_def comparef_def)
qed

definition two_args :: "methodarglist_t lheap" where
  "two_args = \<lparr>l_next = [0 \<mapsto> 1, 1 \<mapsto> 2, 2 \<mapsto> 0], l_prev = [0 \<mapsto> 2, 1 \<mapsto> 0, 2 \<mapsto> 1],
     l_data = (\<lambda>n. \<lparr>ma_key = if n = 1 then ''b'' else ''a'', ma_data = None, arraycount = 1\<rparr>)\<rparr>"

lemma two_args_rep: "list_rep two_args \<lparr>nilnode = 0, nodecount = 2, maxcount = 9\<rparr> [1, 2]"
  by (simp add: list_rep_def two_args_def)

theorem ow_list_sort_correct_witness:
  "\<exists>l' h' ys. ow_list_sort 10 \<lparr>nilnode = 0, nodecount = 2, maxcount = 9\<rparr> comparef two_args = Some (l', h') \<and>
     list_rep h' l' ys \<and> mset ys = {#1, 2#}"
  using ow_list_sort_correct [OF two_args_rep, of 10] by auto

text \<open>\<open>list_verify\<close> decides well-formedness: on a list object with room for a node it answers
  yes exactly when the ring of \<open>next\<close>/\<open>prev\<close> links closes after \<open>nodecount\<close> distinct nodes
  and the count is within \<open>maxcount\<close>.\<close>

theorem list_verify_iff:
  assumes "maxcount l \<noteq> 0"
  shows "list_verify l h = Some True \<longleftrightarrow> (\<exists>xs. list_rep h l xs)"
proof
  assume "list_verify l h = Some True"
  then obtain node where node: "l_next h (nilnode l) = Some node" "l_prev h node = Some (nilnode l)"
    and cnt: "nodecount l \<le> maxcount l"
    and ver: "list_verify_from h (nilnode l) (Some node) (nodecount l) = Some True"
    by (auto simp: list_verify_def not_less split: if_splits elim!: bind_SomeD)
  from list_verify_from_sound [OF ver node] obtain ys where
    "lseg h (nilnode l) ys (nilnode l)" "nilnode l \<notin> set ys" "length ys = unat (nodecount l)"
    by blast
  moreover from this(1,2) have "distinct ys"
    by (rule lseg_distinct)
  ultimately show "\<exists>xs. list_rep h l xs"
    using assms cnt by (intro exI [of _ ys]) (simp add: list_rep_def)
qed auto

theorem list_verify_iff_witness:
  "list_verify \<lparr>nilnode = 0, nodecount = 2, maxcount = 9\<rparr> two_args = Some True"
  using list_verify_iff [of "\<lparr>nilnode = 0, nodecount = 2, maxcount = 9\<rparr>" two_args] two_args_rep by auto



end
