(* ===== verification/Kazlib_Hash.thy ===== *)
theory Kazlib_Hash
  imports Ow_Prelude
begin

text \<open>
  The extendible hash table of \<open>src/src/lib/u/hash.c\<close>.  A chain is the HOL list of its nodes: the
  table slot is its head and \<open>next\<close> its tail, so \<open>hptr->next = high_chain\<close> is consing.  A
  node keeps its address, because the code compares node pointers.  Keys are C strings, the only
  keys the program uses.  The counters, masks and marks are 64-bit words and the index computations
  are the bit operations of the source.  Whether an allocation succeeds is an argument (\<open>mem\<close>).
  A failed \<open>assert\<close>, an access outside the table and the dereference of \<open>NULL\<close> are \<open>None\<close>.

  \<open>hash_ok\<close> is the invariant, \<open>hash_map\<close> the abstraction to a finite map.  The lemmas show
  that creation, insertion, lookup, deletion, growing and shrinking keep the one and implement the
  other, that a scan visits every node once even while nodes are deleted, and that
  \<open>hash_free_nodes\<close> releases every node exactly once.
\<close>

unbundle bit_operations_syntax

section \<open>Data\<close>

record 'v hnode =
  hn_addr :: addr
  hn_key :: string
  hn_data :: 'v
  hn_hkey :: ulong

datatype 'v freed = Freed_node addr | Freed_data 'v | Freed_key string

record 'v hash_t =
  h_table :: "'v hnode list list"
  h_nchains :: ulong
  h_nodecount :: ulong
  h_maxcount :: ulong
  h_highmark :: ulong
  h_lowmark :: ulong
  h_compare :: "string \<Rightarrow> string \<Rightarrow> int"
  h_function :: "string \<Rightarrow> ulong"
  h_freenode :: "'v hnode \<Rightarrow> 'v freed list"
  h_mask :: ulong
  h_dynamic :: bool

definition INIT_SIZE :: ulong where
  "INIT_SIZE = 64"

definition INIT_MASK :: ulong where
  "INIT_MASK = INIT_SIZE - 1"

section \<open>Operations\<close>

function compute_bits_loop :: "ulong \<Rightarrow> int \<Rightarrow> int" where
  "compute_bits_loop val bits =
     (if val \<noteq> 0 then compute_bits_loop (drop_bit 1 val) (bits + 1) else bits)"
  by pat_completeness auto
termination
  by (relation "measure (\<lambda>(val, bits). unat val)") (simp_all only: in_measure case_prod_conv unat_drop_bit_1_less wf_measure simp_thms)

definition compute_bits :: int where
  "compute_bits = compute_bits_loop (- 1) 0"

function power_of_two_loop :: "ulong \<Rightarrow> ulong" where
  "power_of_two_loop arg =
     (if arg \<noteq> 0 \<and> arg AND 1 = 0 then power_of_two_loop (drop_bit 1 arg) else arg)"
  by pat_completeness auto
termination
  by (relation "measure unat") (simp_all only: in_measure case_prod_conv unat_drop_bit_1_less wf_measure simp_thms)

definition is_power_of_two :: "ulong \<Rightarrow> bool" where
  "is_power_of_two arg = (if arg = 0 then False else power_of_two_loop arg = 1)"

definition compute_mask :: "ulong \<Rightarrow> ulong option" where
  "compute_mask sz = do {
     c_assert (is_power_of_two sz);
     c_assert (sz \<ge> 2);
     Some (sz - 1)
   }"

definition clear_table :: "'v hash_t \<Rightarrow> 'v hash_t" where
  "clear_table hash =
     hash\<lparr>h_table := replicate (unat (h_nchains hash)) [] @ drop (unat (h_nchains hash)) (h_table hash)\<rparr>"

definition table_get :: "'v hash_t \<Rightarrow> ulong \<Rightarrow> 'v hnode list option" where
  "table_get hash chain =
     (if unat chain < length (h_table hash) then Some (h_table hash ! unat chain) else None)"

abbreviation table_put :: "'v hash_t \<Rightarrow> ulong \<Rightarrow> 'v hnode list \<Rightarrow> 'v hash_t" where
  "table_put hash chain c \<equiv> hash\<lparr>h_table := (h_table hash)[unat chain := c]\<rparr>"

text \<open>\<open>hash_verify\<close>: the two nested loops, each returning the count or \<open>None\<close> for \<open>return 0\<close>.\<close>

fun verify_chain :: "ulong \<Rightarrow> ulong \<Rightarrow> 'v hnode list \<Rightarrow> ulong \<Rightarrow> ulong option" where
  "verify_chain msk chain [] cnt = Some cnt"
| "verify_chain msk chain (hptr # next) cnt =
     (if hn_hkey hptr AND msk \<noteq> chain then None else verify_chain msk chain next (cnt + 1))"

fun verify_chains :: "ulong \<Rightarrow> ulong \<Rightarrow> 'v hnode list list \<Rightarrow> ulong \<Rightarrow> ulong option" where
  "verify_chains msk chain [] cnt = Some cnt"
| "verify_chains msk chain (c # cs) cnt =
     (case verify_chain msk chain c cnt of
        None \<Rightarrow> None
      | Some cnt' \<Rightarrow> verify_chains msk (chain + 1) cs cnt')"

definition hash_verify :: "'v hash_t \<Rightarrow> bool" where
  "hash_verify hash =
     (if h_dynamic hash \<and> h_lowmark hash \<ge> h_highmark hash then False
      else if h_dynamic hash \<and> \<not> is_power_of_two (h_highmark hash) then False
      else if h_dynamic hash \<and> \<not> is_power_of_two (h_lowmark hash) then False
      else verify_chains (h_mask hash) 0 (take (unat (h_nchains hash)) (h_table hash)) 0
             = Some (h_nodecount hash))"

fun split_chain ::
  "ulong \<Rightarrow> 'v hnode list \<Rightarrow> 'v hnode list \<Rightarrow> 'v hnode list \<Rightarrow> 'v hnode list \<times> 'v hnode list" where
  "split_chain exposed_bit [] low_chain high_chain = (low_chain, high_chain)"
| "split_chain exposed_bit (hptr # next) low_chain high_chain =
     (if hn_hkey hptr AND exposed_bit \<noteq> 0
      then split_chain exposed_bit next low_chain (hptr # high_chain)
      else split_chain exposed_bit next (hptr # low_chain) high_chain)"

definition grow_table :: "bool \<Rightarrow> 'v hash_t \<Rightarrow> 'v hash_t option" where
  "grow_table mem hash = do {
     c_assert (2 * h_nchains hash > h_nchains hash);
     hash \<leftarrow>
       (if mem then do {
          let msk = push_bit 1 (h_mask hash) OR 1;
          let exposed_bit = msk XOR h_mask hash;
          c_assert (msk \<noteq> h_mask hash);
          let chains = map (\<lambda>c. split_chain exposed_bit c [] [])
                         (take (unat (h_nchains hash)) (h_table hash));
          Some (hash\<lparr>h_table := map fst chains @ map snd chains,
                     h_mask := msk,
                     h_nchains := h_nchains hash * 2,
                     h_lowmark := h_lowmark hash * 2,
                     h_highmark := h_highmark hash * 2\<rparr>)
        }
        else Some hash);
     c_assert (hash_verify hash);
     Some hash
   }"

definition fold_chain :: "'v hnode list \<Rightarrow> 'v hnode list \<Rightarrow> 'v hnode list" where
  "fold_chain low_chain high_chain =
     (if low_chain \<noteq> [] then low_chain @ high_chain
      else if high_chain \<noteq> [] then high_chain
      else low_chain)"

definition shrink_table :: "bool \<Rightarrow> 'v hash_t \<Rightarrow> 'v hash_t option" where
  "shrink_table mem hash = do {
     c_assert (h_nchains hash \<ge> 2);
     let nchains = h_nchains hash div 2;
     let n = unat nchains;
     c_assert (2 * n \<le> length (h_table hash));
     let folded = map2 fold_chain (take n (h_table hash)) (take n (drop n (h_table hash)));
     let hash = hash\<lparr>h_table := folded @ (if mem then [] else drop n (h_table hash)),
                      h_mask := drop_bit 1 (h_mask hash),
                      h_nchains := nchains,
                      h_lowmark := h_lowmark hash div 2,
                      h_highmark := h_highmark hash div 2\<rparr>;
     c_assert (hash_verify hash);
     Some hash
   }"

definition randbox :: "ulong list" where
  "randbox =
     [0x49848f1b, 0xe6255dba, 0x36da5bdc, 0x47bf94e9,
      0x8cbcce22, 0x559fc06a, 0xd268f536, 0xe10af79a,
      0xc1af4d69, 0x1d2917b5, 0xec4c304d, 0x9ee5016c,
      0x69232f74, 0xfead7bb3, 0xe9089ab6, 0xf012f6ae]"

fun hash_fun_loop :: "string \<Rightarrow> ulong \<Rightarrow> ulong" where
  "hash_fun_loop [] acc = acc"
| "hash_fun_loop (c # str) acc =
     (let s = of_char c;
          acc = acc XOR randbox ! unat ((s + acc) AND 0xf);
          acc = push_bit 1 acc OR drop_bit 31 acc;
          acc = acc AND 0xffffffff;
          acc = acc XOR randbox ! unat ((drop_bit 4 s + acc) AND 0xf);
          acc = push_bit 2 acc OR drop_bit 30 acc;
          acc = acc AND 0xffffffff
      in hash_fun_loop str acc)"

definition hash_fun_default :: "string \<Rightarrow> ulong" where
  "hash_fun_default key = hash_fun_loop key 0"

definition hash_comp_default :: "string \<Rightarrow> string \<Rightarrow> int" where
  "hash_comp_default key1 key2 = strcmp key1 key2"

definition hnode_free :: "'v hnode \<Rightarrow> 'v freed list" where
  "hnode_free node = [Freed_node (hn_addr node)]"

definition hnode_free2 :: "'v hnode \<Rightarrow> 'v freed list" where
  "hnode_free2 node = [Freed_data (hn_data node), Freed_node (hn_addr node)]"

definition hnode_free3 :: "'v hnode \<Rightarrow> 'v freed list" where
  "hnode_free3 node =
     [Freed_data (hn_data node), Freed_key (hn_key node), Freed_node (hn_addr node)]"

text \<open>The three constructors differ in the function that releases a node.  \<open>mem\<close> says whether both
  \<open>malloc\<close> calls succeed; the inner \<open>None\<close> is the \<open>NULL\<close> the constructor returns
  otherwise.\<close>

definition hash_create_with ::
  "('v hnode \<Rightarrow> 'v freed list) \<Rightarrow> bool \<Rightarrow> ulong \<Rightarrow> (string \<Rightarrow> string \<Rightarrow> int) option \<Rightarrow>
     (string \<Rightarrow> ulong) option \<Rightarrow> 'v hash_t option option" where
  "hash_create_with freenode mem mx compfun hashfun =
     (if mem then do {
        let hash = \<lparr>h_table = replicate (unat INIT_SIZE) [],
                     h_nchains = INIT_SIZE,
                     h_nodecount = 0,
                     h_maxcount = mx,
                     h_highmark = INIT_SIZE * 2,
                     h_lowmark = INIT_SIZE div 2,
                     h_compare = (case compfun of None \<Rightarrow> hash_comp_default | Some f \<Rightarrow> f),
                     h_function = (case hashfun of None \<Rightarrow> hash_fun_default | Some f \<Rightarrow> f),
                     h_freenode = freenode,
                     h_mask = INIT_MASK,
                     h_dynamic = True\<rparr>;
        let hash = clear_table hash;
        c_assert (hash_verify hash);
        Some (Some hash)
      }
      else Some None)"

definition hash_create ::
  "bool \<Rightarrow> ulong \<Rightarrow> (string \<Rightarrow> string \<Rightarrow> int) option \<Rightarrow> (string \<Rightarrow> ulong) option \<Rightarrow>
     'v hash_t option option" where
  "hash_create = hash_create_with hnode_free"

definition hash_create2 ::
  "bool \<Rightarrow> ulong \<Rightarrow> (string \<Rightarrow> string \<Rightarrow> int) option \<Rightarrow> (string \<Rightarrow> ulong) option \<Rightarrow>
     'v hash_t option option" where
  "hash_create2 = hash_create_with hnode_free2"

definition hash_create3 ::
  "bool \<Rightarrow> ulong \<Rightarrow> (string \<Rightarrow> string \<Rightarrow> int) option \<Rightarrow> (string \<Rightarrow> ulong) option \<Rightarrow>
     'v hash_t option option" where
  "hash_create3 = hash_create_with hnode_free3"

definition hash_set_allocator ::
  "'v hash_t \<Rightarrow> ('v hnode \<Rightarrow> 'v freed list) option \<Rightarrow> 'v hash_t option" where
  "hash_set_allocator hash fr = do {
     c_assert (h_nodecount hash = 0);
     Some (hash\<lparr>h_freenode := (case fr of None \<Rightarrow> hnode_free | Some f \<Rightarrow> f)\<rparr>)
   }"

definition hash_init ::
  "'v hash_t \<Rightarrow> ulong \<Rightarrow> (string \<Rightarrow> string \<Rightarrow> int) option \<Rightarrow> (string \<Rightarrow> ulong) option \<Rightarrow>
     'v hnode list list \<Rightarrow> ulong \<Rightarrow> 'v hash_t option" where
  "hash_init hash mx compfun hashfun table nchains = do {
     c_assert (is_power_of_two nchains);
     msk \<leftarrow> compute_mask nchains;
     let hash = hash\<lparr>h_table := table,
                      h_nchains := nchains,
                      h_nodecount := 0,
                      h_maxcount := mx,
                      h_compare := (case compfun of None \<Rightarrow> hash_comp_default | Some f \<Rightarrow> f),
                      h_function := (case hashfun of None \<Rightarrow> hash_fun_default | Some f \<Rightarrow> f),
                      h_dynamic := False,
                      h_mask := msk\<rparr>;
     let hash = clear_table hash;
     c_assert (hash_verify hash);
     Some hash
   }"

definition chain_find ::
  "'v hash_t \<Rightarrow> ulong \<Rightarrow> string \<Rightarrow> 'v hnode list \<Rightarrow> 'v hnode option" where
  "chain_find hash hkey key =
     find (\<lambda>nptr. hn_hkey nptr = hkey \<and> h_compare hash (hn_key nptr) key = 0)"

definition hash_lookup :: "'v hash_t \<Rightarrow> string \<Rightarrow> 'v hnode option option" where
  "hash_lookup hash key = do {
     let hkey = h_function hash key;
     let chain = hkey AND h_mask hash;
     c \<leftarrow> table_get hash chain;
     Some (chain_find hash hkey key c)
   }"

definition hash_insert :: "bool \<Rightarrow> 'v hash_t \<Rightarrow> 'v hnode \<Rightarrow> string \<Rightarrow> 'v hash_t option" where
  "hash_insert mem hash node key = do {
     c_assert (h_nodecount hash < h_maxcount hash);
     r \<leftarrow> hash_lookup hash key;
     c_assert (r = None);
     hash \<leftarrow> (if h_dynamic hash \<and> h_nodecount hash \<ge> h_highmark hash
              then grow_table mem hash else Some hash);
     let hkey = h_function hash key;
     let chain = hkey AND h_mask hash;
     c \<leftarrow> table_get hash chain;
     let node = node\<lparr>hn_key := key, hn_hkey := hkey\<rparr>;
     let hash = (table_put hash chain (node # c))\<lparr>h_nodecount := h_nodecount hash + 1\<rparr>;
     c_assert (hash_verify hash);
     Some hash
   }"

text \<open>Unlinking a node from its chain; reaching the end is the dereference of a null \<open>hptr\<close>.\<close>

fun chain_unlink :: "addr \<Rightarrow> 'v hnode list \<Rightarrow> 'v hnode list option" where
  "chain_unlink node [] = None"
| "chain_unlink node (hptr # next) =
     (if hn_addr hptr = node then Some next
      else map_option (Cons hptr) (chain_unlink node next))"

definition hash_scan_delete :: "'v hash_t \<Rightarrow> 'v hnode \<Rightarrow> 'v hash_t option" where
  "hash_scan_delete hash node = do {
     r \<leftarrow> hash_lookup hash (hn_key node);
     c_assert (map_option hn_addr r = Some (hn_addr node));
     let chain = hn_hkey node AND h_mask hash;
     c \<leftarrow> table_get hash chain;
     c \<leftarrow> chain_unlink (hn_addr node) c;
     let hash = (table_put hash chain c)\<lparr>h_nodecount := h_nodecount hash - 1\<rparr>;
     c_assert (hash_verify hash);
     Some hash
   }"

definition hash_delete :: "bool \<Rightarrow> 'v hash_t \<Rightarrow> 'v hnode \<Rightarrow> 'v hash_t option" where
  "hash_delete mem hash node = do {
     r \<leftarrow> hash_lookup hash (hn_key node);
     c_assert (map_option hn_addr r = Some (hn_addr node));
     hash \<leftarrow> (if h_dynamic hash \<and> h_nodecount hash \<le> h_lowmark hash
                 \<and> h_nodecount hash > INIT_SIZE
              then shrink_table mem hash else Some hash);
     let chain = hn_hkey node AND h_mask hash;
     c \<leftarrow> table_get hash chain;
     c \<leftarrow> chain_unlink (hn_addr node) c;
     let hash = (table_put hash chain c)\<lparr>h_nodecount := h_nodecount hash - 1\<rparr>;
     c_assert (hash_verify hash);
     Some hash
   }"

definition hnode_init :: "addr \<Rightarrow> 'v \<Rightarrow> 'v hnode" where
  "hnode_init a data = \<lparr>hn_addr = a, hn_key = [], hn_data = data, hn_hkey = 0\<rparr>"

text \<open>\<open>hash_alloc_insert\<close>: the node allocator answers \<open>Some a\<close>, a fresh address, or \<open>None\<close>.\<close>

definition hash_alloc_insert ::
  "addr option \<Rightarrow> bool \<Rightarrow> 'v hash_t \<Rightarrow> string \<Rightarrow> 'v \<Rightarrow> (bool \<times> 'v hash_t) option" where
  "hash_alloc_insert anode mem hash key data =
     (case anode of
        None \<Rightarrow> Some (False, hash)
      | Some a \<Rightarrow> do {
          hash \<leftarrow> hash_insert mem hash (hnode_init a data) key;
          Some (True, hash)
        })"

definition hash_delete_free ::
  "bool \<Rightarrow> 'v hash_t \<Rightarrow> 'v hnode option \<Rightarrow> ('v freed list \<times> 'v hash_t) option" where
  "hash_delete_free mem hash nodep =
     (case nodep of
        None \<Rightarrow> Some ([], hash)
      | Some node \<Rightarrow> do {
          hash \<leftarrow> hash_delete mem hash node;
          Some (h_freenode hash node, hash)
        })"

definition hash_scan_delfree ::
  "'v hash_t \<Rightarrow> 'v hnode \<Rightarrow> ('v freed list \<times> 'v hash_t) option" where
  "hash_scan_delfree hash node = do {
     hash \<leftarrow> hash_scan_delete hash node;
     Some (h_freenode hash node, hash)
   }"

definition ow_hash_isfull :: "'v hash_t \<Rightarrow> bool" where
  "ow_hash_isfull hash \<longleftrightarrow> h_nodecount hash = h_maxcount hash"

definition ow_hash_isempty :: "'v hash_t \<Rightarrow> bool" where
  "ow_hash_isempty hash \<longleftrightarrow> h_nodecount hash = 0"

subsection \<open>Scanning\<close>

record hscan_t =
  sc_chain :: ulong
  sc_next :: "addr option"

text \<open>Dereferencing a node pointer: the node and its \<open>next\<close> field in its chain.\<close>

fun chain_deref :: "addr \<Rightarrow> 'v hnode list \<Rightarrow> ('v hnode \<times> addr option) option" where
  "chain_deref a [] = None"
| "chain_deref a (n # ns) =
     (if hn_addr n = a then Some (n, case ns of [] \<Rightarrow> None | m # ms \<Rightarrow> Some (hn_addr m))
      else chain_deref a ns)"

fun table_deref :: "addr \<Rightarrow> 'v hnode list list \<Rightarrow> ('v hnode \<times> addr option) option" where
  "table_deref a [] = None"
| "table_deref a (c # cs) =
     (case chain_deref a c of None \<Rightarrow> table_deref a cs | Some r \<Rightarrow> Some r)"

fun skip_empty :: "'v hnode list list \<Rightarrow> nat \<Rightarrow> nat \<times> addr option" where
  "skip_empty [] chain = (chain, None)"
| "skip_empty ([] # cs) chain = skip_empty cs (Suc chain)"
| "skip_empty ((n # ns) # cs) chain = (chain, Some (hn_addr n))"

abbreviation chains :: "'v hash_t \<Rightarrow> 'v hnode list list" where
  "chains hash \<equiv> take (unat (h_nchains hash)) (h_table hash)"

definition hash_scan_begin :: "'v hash_t \<Rightarrow> hscan_t \<Rightarrow> hscan_t" where
  "hash_scan_begin hash scan =
     (case skip_empty (chains hash) 0 of
        (chain, Some a) \<Rightarrow> \<lparr>sc_chain = of_nat chain, sc_next = Some a\<rparr>
      | (chain, None) \<Rightarrow> scan\<lparr>sc_next := None\<rparr>)"

definition hash_scan_next ::
  "'v hash_t \<Rightarrow> hscan_t \<Rightarrow> ('v hnode option \<times> hscan_t) option" where
  "hash_scan_next hash scan =
     (case sc_next scan of
        None \<Rightarrow> Some (None, scan)
      | Some next \<Rightarrow> do {
          (node, nn) \<leftarrow> table_deref next (chains hash);
          case nn of
            Some m \<Rightarrow> Some (Some node, scan\<lparr>sc_next := Some m\<rparr>)
          | None \<Rightarrow>
              let chain = unat (sc_chain scan + 1) in
              (case skip_empty (drop chain (chains hash)) chain of
                 (chain, Some a) \<Rightarrow> Some (Some node, \<lparr>sc_chain = of_nat chain, sc_next = Some a\<rparr>)
               | (chain, None) \<Rightarrow> Some (Some node, scan\<lparr>sc_next := None\<rparr>))
        })"

partial_function (option) free_nodes_loop ::
  "'v hash_t \<Rightarrow> hscan_t \<Rightarrow> 'v freed list \<Rightarrow> ('v freed list \<times> 'v hash_t) option" where
  "free_nodes_loop hash scan fs = do {
     (nodep, scan) \<leftarrow> hash_scan_next hash scan;
     case nodep of
       None \<Rightarrow> Some (fs, hash)
     | Some node \<Rightarrow> do {
         hash \<leftarrow> hash_scan_delete hash node;
         free_nodes_loop hash scan (fs @ h_freenode hash node)
       }
   }"

definition hash_free_nodes :: "'v hash_t \<Rightarrow> ('v freed list \<times> 'v hash_t) option" where
  "hash_free_nodes hash = do {
     let scan = hash_scan_begin hash \<lparr>sc_chain = 0, sc_next = None\<rparr>;
     (fs, hash) \<leftarrow> free_nodes_loop hash scan [];
     Some (fs, clear_table (hash\<lparr>h_nodecount := 0\<rparr>))
   }"

definition hash_destroy :: "'v hash_t \<Rightarrow> unit option" where
  "hash_destroy hash = c_assert (ow_hash_isempty hash)"

text \<open>A whole scan: the nodes that repeated \<open>hash_scan_next\<close> returns.\<close>

partial_function (option) scan_loop ::
  "'v hash_t \<Rightarrow> hscan_t \<Rightarrow> 'v hnode list \<Rightarrow> 'v hnode list option" where
  "scan_loop hash scan ns = do {
     (nodep, scan) \<leftarrow> hash_scan_next hash scan;
     case nodep of
       None \<Rightarrow> Some ns
     | Some node \<Rightarrow> scan_loop hash scan (ns @ [node])
   }"

definition hash_scan_all :: "'v hash_t \<Rightarrow> 'v hnode list option" where
  "hash_scan_all hash =
     scan_loop hash (hash_scan_begin hash \<lparr>sc_chain = 0, sc_next = None\<rparr>) []"

section \<open>Invariant and abstraction\<close>

definition hash_nodes :: "'v hash_t \<Rightarrow> 'v hnode list" where
  "hash_nodes hash = concat (chains hash)"

definition node_placed :: "nat \<Rightarrow> (string \<Rightarrow> ulong) \<Rightarrow> nat \<Rightarrow> 'v hnode \<Rightarrow> bool" where
  "node_placed k f i n \<longleftrightarrow> hn_hkey n = f (hn_key n) \<and> unat (f (hn_key n)) mod 2 ^ k = i"

definition hash_at :: "nat \<Rightarrow> 'v hash_t \<Rightarrow> bool" where
  "hash_at k hash \<longleftrightarrow>
     1 \<le> k \<and> k < 64 \<and> h_nchains hash = 2 ^ k \<and> h_mask hash = mask k \<and>
     2 ^ k \<le> length (h_table hash) \<and>
     (\<forall>i < 2 ^ k. \<forall>n \<in> set (h_table hash ! i). node_placed k (h_function hash) i n) \<and>
     (h_dynamic hash \<longrightarrow>
        6 \<le> k \<and> k \<le> 60 \<and> h_highmark hash = 2 ^ (k + 1) \<and> h_lowmark hash = 2 ^ (k - 1))"

definition hash_content :: "'v hash_t \<Rightarrow> bool" where
  "hash_content hash \<longleftrightarrow>
     distinct (map hn_addr (hash_nodes hash)) \<and> distinct (map hn_key (hash_nodes hash)) \<and>
     unat (h_nodecount hash) = length (hash_nodes hash) \<and> h_nodecount hash \<le> h_maxcount hash"

definition hash_ok :: "'v hash_t \<Rightarrow> bool" where
  "hash_ok hash \<longleftrightarrow>
     (\<exists>k. hash_at k hash) \<and> hash_content hash \<and>
     (\<forall>a b. h_compare hash a b = 0 \<longleftrightarrow> a = b)"

definition hash_map :: "'v hash_t \<Rightarrow> string \<Rightarrow> 'v option" where
  "hash_map hash key = map_option hn_data (find (\<lambda>n. hn_key n = key) (hash_nodes hash))"

subsection \<open>Words\<close>

declare compute_bits_loop.simps [simp del] power_of_two_loop.simps [simp del]

lemma unat_and_mask: "unat (w AND mask k :: ulong) = unat w mod 2 ^ k"
proof -
  have "unat (w AND mask k) = take_bit k (unat w)"
    by (simp only: take_bit_eq_mask [symmetric] unsigned_take_bit_eq)
  then show ?thesis
    by (simp only: take_bit_eq_mod)
qed

lemma unat_pow2:
  assumes "k < 64"
  shows "unat (2 ^ k :: ulong) = 2 ^ k"
proof -
  have "unat (of_nat (2 ^ k) :: ulong) = 2 ^ k mod 2 ^ 64"
    by (simp only: unat_of_nat) simp
  moreover have "(2 :: nat) ^ k < 2 ^ 64"
    using assms by (intro power_strict_increasing) simp_all
  then have "(2 :: nat) ^ k mod 2 ^ 64 = 2 ^ k"
    by (rule mod_less)
  ultimately show ?thesis
    by (simp only: of_nat_power of_nat_numeral)
qed

lemma power_of_two_loop_pow2: "j < 64 \<Longrightarrow> power_of_two_loop (2 ^ j) = 1"
proof (induction j)
  case 0
  then show ?case by (simp add: power_of_two_loop.simps)
next
  case (Suc j)
  have "(2 ^ Suc j :: ulong) \<noteq> 0"
    using Suc.prems unat_pow2 [of "Suc j"] by (metis power_not_zero unat_0 zero_neq_numeral)
  moreover have "(2 ^ Suc j :: ulong) AND 1 = 0"
    by (simp add: and_one_eq mod_2_eq_odd)
  moreover have "drop_bit 1 (2 ^ Suc j :: ulong) = 2 ^ j"
    using Suc.prems unat_pow2 [of "Suc j"] unat_pow2 [of j]
    by (intro word_unat_eq_iff [THEN iffD2]) (simp add: drop_bit_Suc unat_div)
  ultimately show ?case
    using Suc by (subst power_of_two_loop.simps) simp
qed

lemma power_of_two_loop_1: "power_of_two_loop w = 1 \<Longrightarrow> \<exists>j < 64. w = 2 ^ j"
proof (induction w rule: power_of_two_loop.induct)
  case (1 w)
  show ?case
  proof (cases "w \<noteq> 0 \<and> w AND 1 = 0")
    case True
    then have "power_of_two_loop (drop_bit 1 w) = 1"
      using "1.prems" by (subst (asm) power_of_two_loop.simps) simp
    then obtain j where j: "j < 64" "drop_bit 1 w = 2 ^ j"
      using "1.IH" True by blast
    have w: "w = 2 * drop_bit 1 w"
      using div_mult_mod_eq [of w 2] True by (simp add: and_one_eq drop_bit_Suc algebra_simps)
    then have eq: "w = 2 ^ Suc j"
      using j by simp
    moreover have "Suc j < 64"
    proof (rule ccontr)
      assume "\<not> Suc j < 64"
      then have "Suc j = 64" using j by simp
      then have "w = 0" using eq by simp
      then show False using True by simp
    qed
    ultimately show ?thesis by blast
  next
    case False
    then have "w = 1"
      using "1.prems" by (subst (asm) power_of_two_loop.simps) auto
    then show ?thesis by (intro exI [of _ 0]) simp
  qed
qed

lemma is_power_of_two_iff: "is_power_of_two w \<longleftrightarrow> (\<exists>j < 64. w = 2 ^ j)"
proof
  assume "is_power_of_two w"
  then show "\<exists>j < 64. w = 2 ^ j"
    using power_of_two_loop_1 [of w] by (auto simp: is_power_of_two_def split: if_splits)
next
  assume "\<exists>j < 64. w = 2 ^ j"
  then obtain j where j: "j < 64" "w = 2 ^ j" by blast
  have "w \<noteq> 0"
    using unat_pow2 [OF j(1)] j by (metis power_not_zero unat_0 zero_neq_numeral)
  then show "is_power_of_two w"
    using j power_of_two_loop_pow2 by (simp add: is_power_of_two_def)
qed

lemma is_power_of_two_pow2: "j < 64 \<Longrightarrow> is_power_of_two (2 ^ j)"
  by (auto simp: is_power_of_two_iff)

subsection \<open>\<open>hash_verify\<close>\<close>

lemma verify_chain_ok:
  assumes "\<forall>n \<in> set ns. hn_hkey n AND msk = c"
  shows "verify_chain msk c ns cnt = Some (cnt + of_nat (length ns))"
  using assms by (induction ns arbitrary: cnt) (simp_all add: add.assoc)

lemma verify_chains_ok:
  assumes "\<forall>i < length cs. \<forall>n \<in> set (cs ! i). hn_hkey n AND msk = c + of_nat i"
  shows "verify_chains msk c cs cnt = Some (cnt + of_nat (length (concat cs)))"
  using assms
proof (induction cs arbitrary: c cnt)
  case (Cons d cs)
  have "\<forall>n \<in> set d. hn_hkey n AND msk = c"
    using Cons.prems [rule_format, of 0] by simp
  moreover have "\<forall>i < length cs. \<forall>n \<in> set (cs ! i). hn_hkey n AND msk = (c + 1) + of_nat i"
  proof (intro allI impI ballI)
    fix i n
    assume "i < length cs" "n \<in> set (cs ! i)"
    then have "hn_hkey n AND msk = c + of_nat (Suc i)"
      using Cons.prems [rule_format, of "Suc i" n] by simp
    then show "hn_hkey n AND msk = (c + 1) + of_nat i"
      by (simp add: add.assoc)
  qed
  ultimately show ?case
    using Cons.IH [of "c + 1"] by (simp add: verify_chain_ok add.assoc)
qed simp

lemma hash_verify_ok:
  assumes at: "hash_at k hash" and cnt: "unat (h_nodecount hash) = length (hash_nodes hash)"
  shows "hash_verify hash"
proof -
  have len: "unat (h_nchains hash) = 2 ^ k" "2 ^ k \<le> length (h_table hash)" "k < 64"
    using at unat_pow2 by (auto simp: hash_at_def)
  have "hn_hkey n AND h_mask hash = of_nat i"
    if "i < 2 ^ k" "n \<in> set (h_table hash ! i)" for i n
  proof -
    have "node_placed k (h_function hash) i n" "h_mask hash = mask k"
      using at that by (simp_all add: hash_at_def)
    then have "unat (hn_hkey n AND h_mask hash) = i"
      by (simp add: unat_and_mask node_placed_def)
    then show ?thesis
      by (metis word_of_nat_unat)
  qed
  then have "verify_chains (h_mask hash) 0 (chains hash) 0 = Some (of_nat (length (hash_nodes hash)))"
    using len by (subst verify_chains_ok) (auto simp: hash_nodes_def)
  moreover have "of_nat (length (hash_nodes hash)) = h_nodecount hash"
    using cnt by (metis word_of_nat_unat)
  moreover have "h_lowmark hash < h_highmark hash \<and> is_power_of_two (h_highmark hash) \<and>
      is_power_of_two (h_lowmark hash)" if "h_dynamic hash"
  proof -
    have m: "k \<le> 60" "h_highmark hash = 2 ^ (k + 1)" "h_lowmark hash = 2 ^ (k - 1)"
      using at that by (simp_all add: hash_at_def)
    then have "h_lowmark hash < h_highmark hash"
      unfolding word_less_nat_alt using unat_pow2 [of "k - 1"] unat_pow2 [of "k + 1"]
        power_strict_increasing [of "k - 1" "k + 1" "2 :: nat"] by simp
    then show ?thesis
      unfolding m using m(1) is_power_of_two_pow2 [of "k + 1"] is_power_of_two_pow2 [of "k - 1"]
      by simp
  qed
  ultimately show ?thesis
    by (auto simp: hash_verify_def)
qed

subsection \<open>Chains and nodes\<close>

lemma find_unique_Some:
  assumes "distinct (map f xs)"
  shows "find (\<lambda>n. f n = k) xs = Some n \<longleftrightarrow> n \<in> set xs \<and> f n = k"
  using assms by (induction xs) auto

lemma find_unique_None: "find (\<lambda>n. f n = k) xs = None \<longleftrightarrow> k \<notin> f ` set xs"
  by (auto simp: find_None_iff)

lemma find_concat_nth:
  assumes "i < length cs" and "\<And>j n. j < length cs \<Longrightarrow> j \<noteq> i \<Longrightarrow> n \<in> set (cs ! j) \<Longrightarrow> \<not> P n"
  shows "find P (concat cs) = find P (cs ! i)"
  using assms
proof (induction cs arbitrary: i)
  case (Cons c cs)
  have *: "find P (c @ concat cs) = (case find P c of None \<Rightarrow> find P (concat cs) | Some x \<Rightarrow> Some x)"
    by (induction c) auto
  show ?case
  proof (cases i)
    case 0
    have "\<not> P n" if n: "n \<in> set (concat cs)" for n
    proof -
      obtain d where "d \<in> set cs" "n \<in> set d"
        using n by auto
      then obtain j where "j < length cs" "n \<in> set (cs ! j)"
        by (auto simp: in_set_conv_nth)
      then show ?thesis
        using Cons.prems(2) [of "Suc j" n] 0 by simp
    qed
    then have "find P (concat cs) = None"
      by (auto simp: find_None_iff)
    then show ?thesis
      using * 0 by (auto split: option.split)
  next
    case (Suc i')
    have "\<not> P n" if "n \<in> set c" for n
      using Cons.prems(2) [of 0 n] Suc that by simp
    then have "find P c = None"
      by (auto simp: find_None_iff)
    moreover have "find P (concat cs) = find P (cs ! i')"
      using Suc Cons.prems(1) Cons.prems(2) [of "Suc _"] by (intro Cons.IH) auto
    ultimately show ?thesis
      using * Suc by simp
  qed
qed simp

lemma mset_concat_update:
  assumes "i < length cs"
  shows "mset (concat (cs[i := c])) + mset (cs ! i) = mset (concat cs) + mset c"
  using assms
proof (induction cs arbitrary: i)
  case (Cons d cs)
  then show ?case
    by (cases i) (auto simp: union_assoc union_commute union_lcomm)
qed simp

lemma hash_at_chains:
  assumes "hash_at k hash"
  shows "length (chains hash) = 2 ^ k" "i < 2 ^ k \<Longrightarrow> chains hash ! i = h_table hash ! i"
    "unat (h_nchains hash) = 2 ^ k"
  using assms unat_pow2 [of k] by (auto simp: hash_at_def)

lemma hash_at_get:
  assumes at: "hash_at k hash"
  shows "table_get hash (w AND h_mask hash) = Some (h_table hash ! (unat w mod 2 ^ k))"
    "unat w mod 2 ^ k < 2 ^ k" "unat w mod 2 ^ k < length (h_table hash)"
proof -
  show *: "unat w mod 2 ^ k < 2 ^ k" by simp
  then show **: "unat w mod 2 ^ k < length (h_table hash)"
    using at by (simp only: hash_at_def) linarith
  have "h_mask hash = mask k"
    using at by (simp add: hash_at_def)
  then show "table_get hash (w AND h_mask hash) = Some (h_table hash ! (unat w mod 2 ^ k))"
    using ** by (simp add: table_get_def unat_and_mask)
qed

lemma hash_nodes_nth:
  assumes "hash_at k hash"
  shows "n \<in> set (hash_nodes hash) \<longleftrightarrow> (\<exists>i < 2 ^ k. n \<in> set (h_table hash ! i))"
proof -
  have "n \<in> set (hash_nodes hash) \<longleftrightarrow> (\<exists>i < length (chains hash). n \<in> set (chains hash ! i))"
    unfolding hash_nodes_def set_concat UN_iff by (metis in_set_conv_nth)
  then show ?thesis
    using hash_at_chains [OF assms] by auto
qed

lemma hash_at_nth_placed:
  "hash_at k hash \<Longrightarrow> i < 2 ^ k \<Longrightarrow> n \<in> set (h_table hash ! i) \<Longrightarrow>
   node_placed k (h_function hash) i n"
  by (simp add: hash_at_def)

lemma hash_at_placed:
  assumes "hash_at k hash" "n \<in> set (hash_nodes hash)"
  shows "hn_hkey n = h_function hash (hn_key n)"
    "n \<in> set (h_table hash ! (unat (h_function hash (hn_key n)) mod 2 ^ k))"
  using assms hash_nodes_nth [OF assms(1), of n] by (auto simp: hash_at_def node_placed_def)

lemma hash_lookup_find:
  assumes "hash_ok hash"
  shows "hash_lookup hash key = Some (find (\<lambda>n. hn_key n = key) (hash_nodes hash))"
proof -
  obtain k where at: "hash_at k hash"
    using assms by (auto simp: hash_ok_def)
  let ?i = "unat (h_function hash key) mod 2 ^ k"
  have placed: "node_placed k (h_function hash) j n" if "j < 2 ^ k" "n \<in> set (h_table hash ! j)" for j n
    using at that by (simp add: hash_at_def)
  have i: "?i < 2 ^ k" by simp
  have "find (\<lambda>n. hn_key n = key) (hash_nodes hash) = find (\<lambda>n. hn_key n = key) (chains hash ! ?i)"
    unfolding hash_nodes_def
  proof (rule find_concat_nth)
    show "?i < length (chains hash)"
      using hash_at_chains(1) [OF at] i by simp
    show "hn_key n \<noteq> key" if "j < length (chains hash)" "j \<noteq> ?i" "n \<in> set (chains hash ! j)" for j n
      using that placed [of j n] hash_at_chains [OF at] by (auto simp: node_placed_def)
  qed
  also have "\<dots> = chain_find hash (h_function hash key) key (h_table hash ! ?i)"
    unfolding chain_find_def hash_at_chains(2) [OF at i]
    using assms placed [OF i] by (intro find_cong refl) (auto simp: hash_ok_def node_placed_def)
  finally show ?thesis
    using hash_at_get(1) [OF at] by (simp add: hash_lookup_def Let_def)
qed

lemma hash_lookup_map:
  assumes "hash_ok hash"
  shows "map_option (map_option hn_data) (hash_lookup hash key) = Some (hash_map hash key)"
  using hash_lookup_find [OF assms] by (simp add: hash_map_def)

lemma hash_lookup_Some:
  assumes "hash_ok hash"
  shows "hash_lookup hash key = Some (Some n) \<longleftrightarrow> n \<in> set (hash_nodes hash) \<and> hn_key n = key"
  using hash_lookup_find [OF assms, of key] assms find_unique_Some [of hn_key "hash_nodes hash" key n]
  by (simp add: hash_ok_def hash_content_def)

lemma hash_map_Some:
  assumes "hash_content hash"
  shows "hash_map hash key = Some d \<longleftrightarrow> (\<exists>n \<in> set (hash_nodes hash). hn_key n = key \<and> hn_data n = d)"
proof -
  have "distinct (map hn_key (hash_nodes hash))"
    using assms by (simp add: hash_content_def)
  then show ?thesis
    using find_unique_Some [of hn_key "hash_nodes hash" key] by (auto simp: hash_map_def)
qed

lemma hash_map_None: "hash_map hash key = None \<longleftrightarrow> key \<notin> hn_key ` set (hash_nodes hash)"
  by (simp add: hash_map_def find_unique_None)

lemma distinct_map_mset: "mset xs = mset ys \<Longrightarrow> distinct (map f xs) = distinct (map f ys)"
  by (intro mset_eq_imp_distinct_iff) simp

lemma hash_content_mset:
  assumes "mset (hash_nodes h') = mset (hash_nodes h)" "h_nodecount h' = h_nodecount h"
    "h_maxcount h' = h_maxcount h"
  shows "hash_content h' = hash_content h"
  using assms distinct_map_mset [OF assms(1), of hn_addr] distinct_map_mset [OF assms(1), of hn_key]
    mset_eq_length [OF assms(1)] by (simp add: hash_content_def)

lemma hash_map_mset:
  assumes "mset (hash_nodes h') = mset (hash_nodes h)" "hash_content h" "hash_content h'"
  shows "hash_map h' = hash_map h"
proof
  fix key
  have "set (hash_nodes h') = set (hash_nodes h)"
    using assms(1) by (rule mset_eq_setD)
  then have "hash_map h' key = Some d \<longleftrightarrow> hash_map h key = Some d" for d
    using hash_map_Some [OF assms(2)] hash_map_Some [OF assms(3)] by simp
  then show "hash_map h' key = hash_map h key"
    by (metis option.exhaust)
qed

subsection \<open>Growing and shrinking\<close>

definition same_keys :: "'v hash_t \<Rightarrow> 'v hash_t \<Rightarrow> bool" where
  "same_keys h h' \<longleftrightarrow> h_compare h' = h_compare h \<and> h_function h' = h_function h \<and>
     h_freenode h' = h_freenode h \<and> h_dynamic h' = h_dynamic h \<and> h_maxcount h' = h_maxcount h"

lemma same_keys_trans: "same_keys a b \<Longrightarrow> same_keys b c \<Longrightarrow> same_keys a c"
  by (simp add: same_keys_def)

lemma unat_mod_Suc: "unat (w :: ulong) mod 2 ^ Suc k = unat w mod 2 ^ k + (if bit w k then 2 ^ k else 0)"
proof -
  have "bit (unat w) k = bit w k"
    by (simp add: bit_unsigned_iff)
  then show ?thesis
    using take_bit_Suc_from_most [of k "unat w"] by (simp add: take_bit_eq_mod)
qed

lemma mask_grow: "push_bit 1 (mask k) OR 1 = (mask (Suc k) :: ulong)"
  by (simp add: mask_Suc_double or.commute push_bit_eq_mult mult.commute)

lemma mask_exposed: "k < 64 \<Longrightarrow> mask (Suc k) XOR mask k = (2 ^ k :: ulong)"
  by (rule bit_word_eqI) (auto simp: bit_simps less_Suc_eq)

lemma split_chain_filter:
  "split_chain (2 ^ k) c lo hi =
     (rev (filter (\<lambda>n. \<not> bit (hn_hkey n) k) c) @ lo, rev (filter (\<lambda>n. bit (hn_hkey n) k) c) @ hi)"
  by (induction c arbitrary: lo hi) (auto simp: and_exp_eq_0_iff_not_bit)

lemma mset_concat_split:
  "mset (concat (map (\<lambda>c. rev (filter (\<lambda>n. \<not> P n) c)) cs)) +
     mset (concat (map (\<lambda>c. rev (filter P c)) cs)) = mset (concat cs)"
proof (induction cs)
  case (Cons c cs)
  have "filter_mset (\<lambda>n. \<not> P n) (mset c) + filter_mset P (mset c) = mset c"
    by (metis multiset_partition union_commute)
  then show ?case
    using Cons by (simp add: union_assoc union_lcomm)
qed simp

lemma grow_table_ok:
  assumes at: "hash_at k hash" and cont: "hash_content hash" and room: "h_dynamic hash" "k < 60"
  shows "\<exists>h'. grow_table True hash = Some h' \<and> hash_at (Suc k) h' \<and>
    mset (hash_nodes h') = mset (hash_nodes hash) \<and>
    h_nodecount h' = h_nodecount hash \<and> same_keys hash h'"
proof -
  let ?cs = "chains hash"
  let ?lo = "\<lambda>c. rev (filter (\<lambda>n. \<not> bit (hn_hkey n) k) c)"
  let ?hi = "\<lambda>c. rev (filter (\<lambda>n. bit (hn_hkey n) k) c)"
  define h' where "h' = hash\<lparr>h_table := map ?lo ?cs @ map ?hi ?cs, h_mask := mask (Suc k),
    h_nchains := 2 ^ Suc k, h_lowmark := 2 ^ k, h_highmark := 2 ^ (Suc k + 1)\<rparr>"
  have par: "h_nchains hash = 2 ^ k" "h_mask hash = mask k" "h_highmark hash = 2 ^ (k + 1)"
    "h_lowmark hash = 2 ^ (k - 1)" "6 \<le> k" "k < 64"
    using at room by (simp_all add: hash_at_def)
  have len: "length ?cs = 2 ^ k"
    by (rule hash_at_chains(1) [OF at])
  have low: "h_lowmark hash * 2 = 2 ^ k"
    using par by (metis One_nat_def Suc_pred le_trans mult.commute not_less_eq_eq numeral_le_iff
        one_le_numeral power_Suc zero_less_iff_neq_zero not_one_le_zero)
  have split: "map (\<lambda>c. split_chain (2 ^ k) c [] []) ?cs = map (\<lambda>c. (?lo c, ?hi c)) ?cs"
    by (simp add: split_chain_filter)
  have "hash_at (Suc k) h'"
    unfolding hash_at_def
  proof (intro conjI allI impI ballI)
    fix i n
    assume i: "i < 2 ^ Suc k" and n: "n \<in> set (h_table h' ! i)"
    define j where "j = (if i < 2 ^ k then i else i - 2 ^ k)"
    have j: "j < 2 ^ k"
      using i by (auto simp: j_def)
    have "n \<in> set (h_table hash ! j) \<and> bit (hn_hkey n) k = (\<not> i < 2 ^ k)"
      using n i j len hash_at_chains(2) [OF at j]
      by (auto simp: h'_def nth_append j_def split: if_splits)
    moreover have "node_placed k (h_function hash) j n" if "n \<in> set (h_table hash ! j)"
      using at j that by (simp add: hash_at_def)
    ultimately show "node_placed (Suc k) (h_function h') i n"
      using unat_mod_Suc [of "hn_hkey n" k] i j
      by (auto simp: node_placed_def h'_def j_def split: if_splits)
  qed (use room par len in \<open>simp_all add: h'_def\<close>)
  moreover have nodes: "mset (hash_nodes h') = mset (hash_nodes hash)"
  proof -
    have "unat (h_nchains h') = 2 ^ Suc k"
      using unat_pow2 [of "Suc k"] room by (simp add: h'_def)
    then have "hash_nodes h' = concat (map ?lo ?cs) @ concat (map ?hi ?cs)"
      using len by (simp add: hash_nodes_def h'_def)
    then show ?thesis
      using mset_concat_split [of "\<lambda>n. bit (hn_hkey n) k" ?cs] by (simp add: hash_nodes_def)
  qed
  moreover have "grow_table True hash = Some h'"
  proof -
    have "2 * h_nchains hash > h_nchains hash"
      using par room unat_pow2 [of k] unat_pow2 [of "Suc k"] by (simp add: word_less_nat_alt)
    moreover have "mask (Suc k) \<noteq> (mask k :: ulong)"
      using mask_exposed [OF par(6)] unat_pow2 [OF par(6)]
      by (metis power_not_zero unat_0 xor_self_eq zero_neq_numeral)
    moreover have "unat (h_nodecount h') = length (hash_nodes h')"
      using cont mset_eq_length [OF nodes] by (simp add: h'_def hash_content_def)
    then have "hash_verify h'"
      using \<open>hash_at (Suc k) h'\<close> by (rule hash_verify_ok [rotated])
    moreover have "h' = hash\<lparr>h_table := map ?lo ?cs @ map ?hi ?cs, h_mask := mask (Suc k),
      h_nchains := h_nchains hash * 2, h_lowmark := h_lowmark hash * 2,
      h_highmark := h_highmark hash * 2\<rparr>"
      using low par by (simp add: h'_def mult.commute)
    moreover have mk: "push_bit 1 (h_mask hash) OR 1 = mask (Suc k)" "mask (Suc k) XOR h_mask hash = 2 ^ k"
      using par mask_grow mask_exposed [OF par(6)] by simp_all
    ultimately show ?thesis
      unfolding grow_table_def Let_def mk split using par(2) by (simp add: comp_def)
  qed
  ultimately show ?thesis
    by (intro exI [of _ h']) (simp add: h'_def same_keys_def)
qed

lemma fold_chain_append: "fold_chain = (@)"
  by (intro ext) (simp add: fold_chain_def)

lemma mset_concat_map2:
  "length A = length B \<Longrightarrow> mset (concat (map2 (@) A B)) = mset (concat A) + mset (concat B)"
  by (induction A B rule: list_induct2) (simp_all add: union_assoc union_lcomm)

lemma shrink_table_ok:
  assumes at: "hash_at (Suc k) hash" and cont: "hash_content hash"
    and dyn: "h_dynamic hash" "6 \<le> k"
  shows "\<exists>h'. shrink_table mem hash = Some h' \<and> hash_at k h' \<and>
    mset (hash_nodes h') = mset (hash_nodes hash) \<and>
    h_nodecount h' = h_nodecount hash \<and> same_keys hash h'"
proof -
  let ?t = "h_table hash" and ?n = "(2 :: nat) ^ k"
  let ?lo = "take ?n ?t" and ?hi = "take ?n (drop ?n ?t)"
  have par: "h_nchains hash = 2 ^ Suc k" "h_mask hash = mask (Suc k)" "h_highmark hash = 2 ^ (Suc k + 1)"
    "h_lowmark hash = 2 ^ k" "k < 60" "2 * ?n \<le> length ?t"
    using at dyn by (simp_all add: hash_at_def)
  have half: "(2 :: ulong) ^ Suc j div 2 = 2 ^ j" if "Suc j < 64" for j
    using that unat_pow2 [of "Suc j"] unat_pow2 [of j]
    by (intro word_unat_eq_iff [THEN iffD2]) (simp add: unat_div)
  have halves: "h_nchains hash div 2 = 2 ^ k" "h_lowmark hash div 2 = 2 ^ (k - 1)"
    "h_highmark hash div 2 = 2 ^ (k + 1)"
    using half [of k] half [of "k - 1"] half [of "Suc k"] par dyn by simp_all
  have msk: "drop_bit 1 (h_mask hash) = mask k"
    unfolding par(2) by (rule bit_word_eqI) (use par(5) in \<open>auto simp: bit_simps\<close>)
  have len: "length ?lo = ?n" "length ?hi = ?n"
    using par by simp_all
  define h' where "h' = hash\<lparr>h_table := map2 (@) ?lo ?hi @ (if mem then [] else drop ?n ?t),
    h_mask := mask k, h_nchains := 2 ^ k, h_lowmark := 2 ^ (k - 1), h_highmark := 2 ^ (k + 1)\<rparr>"
  have nth: "h_table h' ! i = ?t ! i @ ?t ! (?n + i)" if "i < ?n" for i
    using that len par(6) by (simp add: h'_def nth_append)
  have at': "hash_at k h'"
    unfolding hash_at_def
  proof (intro conjI allI impI ballI)
    fix i n
    assume i: "i < ?n" and n: "n \<in> set (h_table h' ! i)"
    have "node_placed (Suc k) (h_function hash) i n \<or> node_placed (Suc k) (h_function hash) (?n + i) n"
      using n i nth [OF i] at by (auto simp: hash_at_def)
    then have h: "hn_hkey n = h_function hash (hn_key n)"
      and "unat (h_function hash (hn_key n)) mod 2 ^ Suc k mod ?n = i"
      using i by (auto simp: node_placed_def)
    then have "unat (h_function hash (hn_key n)) mod ?n = i"
      by (simp add: mod_mod_cancel)
    then show "node_placed k (h_function h') i n"
      using h by (simp add: node_placed_def h'_def)
  qed (use par dyn len in \<open>simp_all add: h'_def\<close>)
  have nodes: "mset (hash_nodes h') = mset (hash_nodes hash)"
  proof -
    have "hash_nodes h' = concat (map2 (@) ?lo ?hi)"
      using len unat_pow2 [of k] par by (simp add: hash_nodes_def h'_def)
    moreover have "chains hash = ?lo @ ?hi"
      using hash_at_chains(3) [OF at] take_add [of ?n ?n ?t] by (simp add: mult_2)
    ultimately show ?thesis
      using len by (simp add: hash_nodes_def mset_concat_map2)
  qed
  have "unat (h_nodecount h') = length (hash_nodes h')"
    using cont mset_eq_length [OF nodes] by (simp add: h'_def hash_content_def)
  then have "hash_verify h'"
    using at' by (rule hash_verify_ok [rotated])
  moreover have "h_nchains hash \<ge> 2"
    using par unat_pow2 [of "Suc k"] by (simp add: word_le_nat_alt)
  ultimately have "shrink_table mem hash = Some h'"
    unfolding shrink_table_def Let_def halves msk fold_chain_append using par unat_pow2 [of k]
    by (cases mem) (simp_all add: h'_def)
  then show ?thesis
    using at' nodes by (intro exI [of _ h']) (simp add: h'_def same_keys_def)
qed

subsection \<open>Insertion, deletion, creation\<close>

lemma table_put_at:
  assumes at: "hash_at k hash" and i: "unat w = i" "i < 2 ^ k"
    and c: "\<forall>n \<in> set c. node_placed k (h_function hash) i n"
  shows "hash_at k ((table_put hash w c)\<lparr>h_nodecount := m\<rparr>)"
    "mset (hash_nodes ((table_put hash w c)\<lparr>h_nodecount := m\<rparr>)) + mset (h_table hash ! i) =
       mset (hash_nodes hash) + mset c"
proof -
  show "hash_at k ((table_put hash w c)\<lparr>h_nodecount := m\<rparr>)"
    using assms by (auto simp: hash_at_def nth_list_update)
  have "chains ((table_put hash w c)\<lparr>h_nodecount := m\<rparr>) = (chains hash)[i := c]"
    using i by (simp add: take_update_swap)
  then show "mset (hash_nodes ((table_put hash w c)\<lparr>h_nodecount := m\<rparr>)) + mset (h_table hash ! i) =
       mset (hash_nodes hash) + mset c"
    using mset_concat_update [of i "chains hash" c] hash_at_chains [OF at] i
    by (simp add: hash_nodes_def)
qed

lemma pre_insert_ok:
  assumes ok: "hash_ok hash" and few: "h_nodecount hash < 2 ^ 59"
  shows "\<exists>h'. (if h_dynamic hash \<and> h_nodecount hash \<ge> h_highmark hash
            then grow_table mem hash else Some hash) = Some h' \<and> hash_ok h' \<and>
          mset (hash_nodes h') = mset (hash_nodes hash) \<and>
          h_nodecount h' = h_nodecount hash \<and> same_keys hash h'"
proof (cases "h_dynamic hash \<and> h_nodecount hash \<ge> h_highmark hash \<and> mem")
  case True
  obtain k where at: "hash_at k hash"
    using ok by (auto simp: hash_ok_def)
  have cont: "hash_content hash"
    using ok by (simp add: hash_ok_def)
  have "unat (2 ^ (k + 1) :: ulong) < unat ((2 :: ulong) ^ 59)" "k \<le> 60"
    using at True few by (auto simp: hash_at_def word_less_nat_alt word_le_nat_alt)
  then have "(2 :: nat) ^ (k + 1) < 2 ^ 59"
    using unat_pow2 [of "k + 1"] unat_pow2 [of 59] by simp
  then have "k < 60"
    using power_less_imp_less_exp [of "2 :: nat" "k + 1" 59] by simp
  from grow_table_ok [OF at cont _ this] True obtain h' where
    h': "grow_table True hash = Some h'" "hash_at (Suc k) h'"
      "mset (hash_nodes h') = mset (hash_nodes hash)"
      "h_nodecount h' = h_nodecount hash" "same_keys hash h'"
    by auto
  show ?thesis
    using True h' ok hash_content_mset [OF h'(3,4)]
    by (auto simp: hash_ok_def same_keys_def)
next
  case False
  have "grow_table False hash = Some hash" if dyn: "h_dynamic hash"
  proof -
    obtain k where at: "hash_at k hash"
      using ok by (auto simp: hash_ok_def)
    then have k: "k \<le> 60" "h_nchains hash = 2 ^ k"
      using dyn by (simp_all add: hash_at_def)
    have "2 * h_nchains hash > h_nchains hash"
      using k unat_pow2 [of k] unat_pow2 [of "Suc k"] by (simp add: word_less_nat_alt)
    moreover have "hash_verify hash"
      using ok hash_verify_ok [OF at] by (simp add: hash_ok_def hash_content_def)
    ultimately show ?thesis
      by (simp add: grow_table_def)
  qed
  then show ?thesis
    using False ok by (cases mem) (auto simp: same_keys_def)
qed

lemma hash_content_insert:
  assumes "hash_content h" "mset (hash_nodes h') = add_mset n (mset (hash_nodes h))"
    and "h_nodecount h' = h_nodecount h + 1" "h_maxcount h' = h_maxcount h"
    and "h_nodecount h < h_maxcount h" "hn_addr n \<notin> hn_addr ` set (hash_nodes h)"
    and "hn_key n \<notin> hn_key ` set (hash_nodes h)"
  shows "hash_content h'" "hash_map h' = (hash_map h)(hn_key n \<mapsto> hn_data n)"
proof -
  have "mset (hash_nodes h') = mset (n # hash_nodes h)"
    using assms(2) by simp
  note d = distinct_map_mset [OF this, of hn_addr] distinct_map_mset [OF this, of hn_key]
    mset_eq_length [OF this]
  have u: "unat (h_nodecount h + 1) = Suc (unat (h_nodecount h))"
  proof (rule unat_word_Suc)
    show "Suc (unat (h_nodecount h)) < 2 ^ LENGTH(64)"
      using assms(5) unsigned_less [of "h_maxcount h", where 'a = nat]
      by (simp add: word_less_nat_alt)
  qed
  then have le: "h_nodecount h + 1 \<le> h_maxcount h"
    using assms(5) by (simp add: word_less_nat_alt word_le_nat_alt)
  show c: "hash_content h'"
    using assms d u le by (auto simp: hash_content_def)
  have set: "set (hash_nodes h') = insert n (set (hash_nodes h))"
    using arg_cong [OF assms(2), of set_mset] by simp
  show "hash_map h' = (hash_map h)(hn_key n \<mapsto> hn_data n)"
  proof
    fix key
    have "hash_map h' key = Some d \<longleftrightarrow> ((hash_map h)(hn_key n \<mapsto> hn_data n)) key = Some d" for d
      using assms(7) by (auto simp: hash_map_Some [OF c] hash_map_Some [OF assms(1)] set image_iff)
    then show "hash_map h' key = ((hash_map h)(hn_key n \<mapsto> hn_data n)) key"
      by (metis option.exhaust)
  qed
qed

lemma hash_insert_ok:
  assumes ok: "hash_ok hash" and few: "h_nodecount hash < 2 ^ 59"
    and room: "h_nodecount hash < h_maxcount hash" and new: "hash_map hash key = None"
    and fresh: "hn_addr node \<notin> hn_addr ` set (hash_nodes hash)"
  shows "\<exists>h'. hash_insert mem hash node key = Some h' \<and> hash_ok h' \<and> same_keys hash h' \<and>
    mset (hash_nodes h') =
      add_mset (node\<lparr>hn_key := key, hn_hkey := h_function hash key\<rparr>) (mset (hash_nodes hash)) \<and>
    h_nodecount h' = h_nodecount hash + 1 \<and>
    hash_map h' = (hash_map hash)(key \<mapsto> hn_data node)"
proof -
  from pre_insert_ok [OF ok few, of mem] obtain g where
    g: "(if h_dynamic hash \<and> h_nodecount hash \<ge> h_highmark hash
            then grow_table mem hash else Some hash) = Some g" "hash_ok g"
      "mset (hash_nodes g) = mset (hash_nodes hash)" "h_nodecount g = h_nodecount hash"
      "same_keys hash g"
    by blast
  then obtain k where at: "hash_at k g"
    by (auto simp: hash_ok_def)
  let ?f = "h_function hash"
  let ?n = "node\<lparr>hn_key := key, hn_hkey := ?f key\<rparr>" and ?w = "?f key AND h_mask g"
  let ?i = "unat (?f key) mod 2 ^ k"
  define h' where "h' = (table_put g ?w (?n # h_table g ! ?i))\<lparr>h_nodecount := h_nodecount g + 1\<rparr>"
  have w: "unat ?w = ?i" "?i < 2 ^ k"
    using at by (simp_all add: unat_and_mask hash_at_def)
  have f: "h_function g = ?f"
    using g(5) by (simp add: same_keys_def)
  have "\<forall>m \<in> set (?n # h_table g ! ?i). node_placed k (h_function g) ?i m"
    using hash_at_nth_placed [OF at w(2)] f by (simp add: node_placed_def)
  note put = table_put_at [OF at w this, of "h_nodecount g + 1", folded h'_def]
  have nodes: "mset (hash_nodes h') = add_mset ?n (mset (hash_nodes g))"
    using put(2) by simp
  have set: "set (hash_nodes g) = set (hash_nodes hash)"
    using g(3) by (rule mset_eq_setD)
  have "key \<notin> hn_key ` set (hash_nodes hash)"
    using new by (simp add: hash_map_None)
  then have c: "hash_content h'" "hash_map h' = (hash_map g)(key \<mapsto> hn_data node)"
    using hash_content_insert [of g h' ?n] nodes g room fresh set
    by (auto simp: h'_def hash_ok_def same_keys_def)
  have same: "same_keys hash h'"
    using g(5) by (simp add: h'_def same_keys_def)
  have ok': "hash_ok h'"
    using put(1) c g(2) by (auto simp: hash_ok_def h'_def)
  have "hash_verify h'"
    using hash_verify_ok [OF put(1)] c(1) by (simp add: hash_content_def)
  moreover have "hash_lookup hash key = Some None"
    using hash_lookup_find [OF ok, of key] new by (simp add: hash_map_def)
  ultimately have "hash_insert mem hash node key = Some h'"
    unfolding hash_insert_def using room g(1) f hash_at_get(1) [OF at, of "?f key"]
    by (simp add: Let_def h'_def)
  moreover have "hash_map g = hash_map hash"
    using g ok by (intro hash_map_mset) (simp_all add: hash_ok_def)
  ultimately show ?thesis
    using ok' same nodes c g by (intro exI [of _ h']) (simp add: h'_def)
qed

lemma chain_unlink_ok:
  assumes "n \<in> set c" "distinct (map hn_addr c)"
  shows "\<exists>c'. chain_unlink (hn_addr n) c = Some c' \<and> mset c = add_mset n (mset c')"
  using assms
proof (induction c)
  case (Cons m c)
  then show ?case
    by (cases "n = m") (auto simp: image_iff)
qed simp

lemma hash_content_delete:
  assumes "hash_content h" "mset (hash_nodes h) = add_mset n (mset (hash_nodes h'))"
    and "h_nodecount h' = h_nodecount h - 1" "h_maxcount h' = h_maxcount h"
  shows "hash_content h'" "hash_map h' = (hash_map h)(hn_key n := None)"
proof -
  have "mset (hash_nodes h) = mset (n # hash_nodes h')"
    using assms(2) by simp
  note d = distinct_map_mset [OF this, of hn_addr] distinct_map_mset [OF this, of hn_key]
    mset_eq_length [OF this]
  then have pos: "0 < unat (h_nodecount h)"
    using assms(1) by (simp add: hash_content_def)
  note u = unat_word_pred [OF this]
  show c: "hash_content h'"
    using assms d u by (auto simp: hash_content_def word_le_nat_alt)
  have set: "set (hash_nodes h) = insert n (set (hash_nodes h'))"
    using arg_cong [OF assms(2), of set_mset] by simp
  have notin: "hn_key n \<notin> hn_key ` set (hash_nodes h')"
    using d assms(1) by (simp add: hash_content_def)
  show "hash_map h' = (hash_map h)(hn_key n := None)"
  proof
    fix key
    have "hash_map h' key = Some d \<longleftrightarrow> ((hash_map h)(hn_key n := None)) key = Some d" for d
      using notin by (auto simp: hash_map_Some [OF c] hash_map_Some [OF assms(1)] set image_iff)
    then show "hash_map h' key = ((hash_map h)(hn_key n := None)) key"
      by (metis option.exhaust)
  qed
qed

text \<open>The common tail of both deletions: unlink the node from its chain and adjust the count.\<close>

lemma unlink_ok:
  assumes ok: "hash_ok hash" and n: "n \<in> set (hash_nodes hash)"
  shows "\<exists>c c' h'. table_get hash (hn_hkey n AND h_mask hash) = Some c \<and>
    chain_unlink (hn_addr n) c = Some c' \<and>
    h' = (table_put hash (hn_hkey n AND h_mask hash) c')\<lparr>h_nodecount := h_nodecount hash - 1\<rparr> \<and>
    hash_ok h' \<and> hash_verify h' \<and> mset (hash_nodes hash) = add_mset n (mset (hash_nodes h')) \<and>
    hash_map h' = (hash_map hash)(hn_key n := None)"
proof -
  obtain k where at: "hash_at k hash"
    using ok by (auto simp: hash_ok_def)
  let ?w = "hn_hkey n AND h_mask hash" and ?i = "unat (hn_hkey n) mod 2 ^ k"
  note get = hash_at_get [OF at, of "hn_hkey n"]
  note pl = hash_at_placed [OF at n]
  have nin: "n \<in> set (h_table hash ! ?i)"
    using pl by simp
  have w: "unat ?w = ?i"
    using at by (simp add: unat_and_mask hash_at_def)
  have "distinct (map hn_addr (h_table hash ! ?i))"
  proof -
    have "h_table hash ! ?i \<in> set (chains hash)"
      using get(2) hash_at_chains [OF at] by (metis nth_mem)
    moreover have "distinct (concat (map (map hn_addr) (chains hash)))"
      using ok by (simp add: hash_ok_def hash_content_def hash_nodes_def map_concat)
    ultimately show ?thesis
      by (auto simp: distinct_concat_iff)
  qed
  with nin obtain c' where c': "chain_unlink (hn_addr n) (h_table hash ! ?i) = Some c'"
    "mset (h_table hash ! ?i) = add_mset n (mset c')"
    using chain_unlink_ok by blast
  define h' where "h' = (table_put hash ?w c')\<lparr>h_nodecount := h_nodecount hash - 1\<rparr>"
  have "set c' \<subseteq> set (h_table hash ! ?i)"
    using arg_cong [OF c'(2), of set_mset] by auto
  then have "\<forall>m \<in> set c'. node_placed k (h_function hash) ?i m"
    using hash_at_nth_placed [OF at get(2)] by auto
  note put = table_put_at [OF at w get(2) this, of "h_nodecount hash - 1", folded h'_def]
  have nodes: "mset (hash_nodes hash) = add_mset n (mset (hash_nodes h'))"
    using put(2) c'(2) by (metis add_mset_add_single add_right_cancel union_mset_add_mset_left
        union_mset_add_mset_right)
  have c: "hash_content h'" "hash_map h' = (hash_map hash)(hn_key n := None)"
    using hash_content_delete [OF _ nodes] ok by (auto simp: hash_ok_def h'_def)
  have "hash_ok h'"
    using put(1) c(1) ok by (auto simp: hash_ok_def h'_def)
  moreover have "hash_verify h'"
    using hash_verify_ok [OF put(1)] c(1) by (simp add: hash_content_def)
  ultimately show ?thesis
    using get(1) c' nodes c(2) h'_def by blast
qed

lemma hash_scan_delete_ok:
  assumes ok: "hash_ok hash" and n: "n \<in> set (hash_nodes hash)"
  shows "\<exists>h'. hash_scan_delete hash n = Some h' \<and> hash_ok h' \<and> same_keys hash h' \<and>
    mset (hash_nodes hash) = add_mset n (mset (hash_nodes h')) \<and>
    h_nodecount h' = h_nodecount hash - 1 \<and>
    hash_map h' = (hash_map hash)(hn_key n := None)"
proof -
  obtain c c' h' where u: "table_get hash (hn_hkey n AND h_mask hash) = Some c"
    "chain_unlink (hn_addr n) c = Some c'"
    "h' = (table_put hash (hn_hkey n AND h_mask hash) c')\<lparr>h_nodecount := h_nodecount hash - 1\<rparr>"
    "hash_ok h'" "hash_verify h'" "mset (hash_nodes hash) = add_mset n (mset (hash_nodes h'))"
    "hash_map h' = (hash_map hash)(hn_key n := None)"
    using unlink_ok [OF assms] by blast
  have "hash_lookup hash (hn_key n) = Some (Some n)"
    using hash_lookup_Some [OF ok] n by simp
  then have "hash_scan_delete hash n = Some h'"
    using u by (simp add: hash_scan_delete_def Let_def)
  then show ?thesis
    using u by (intro exI [of _ h']) (simp add: same_keys_def)
qed

lemma pre_delete_ok:
  assumes ok: "hash_ok hash"
  shows "\<exists>h'. (if h_dynamic hash \<and> h_nodecount hash \<le> h_lowmark hash \<and> h_nodecount hash > INIT_SIZE
            then shrink_table mem hash else Some hash) = Some h' \<and> hash_ok h' \<and>
          mset (hash_nodes h') = mset (hash_nodes hash) \<and>
          h_nodecount h' = h_nodecount hash \<and> same_keys hash h'"
proof (cases "h_dynamic hash \<and> h_nodecount hash \<le> h_lowmark hash \<and> h_nodecount hash > INIT_SIZE")
  case True
  obtain k where at: "hash_at k hash"
    using ok by (auto simp: hash_ok_def)
  have cont: "hash_content hash"
    using ok by (simp add: hash_ok_def)
  have k: "k \<le> 60" "6 \<le> k" "h_lowmark hash = 2 ^ (k - 1)"
    using at True by (simp_all add: hash_at_def)
  have "unat INIT_SIZE < unat (h_lowmark hash)"
    using True by (simp add: word_less_nat_alt word_le_nat_alt)
  then have "(2 :: nat) ^ 6 < 2 ^ (k - 1)"
    using k unat_pow2 [of "k - 1"] by (simp add: INIT_SIZE_def)
  then have "6 < k - 1"
    using power_less_imp_less_exp [of "2 :: nat" 6 "k - 1"] by simp
  then have "6 \<le> k - 1" "hash_at (Suc (k - 1)) hash"
    using at by simp_all
  from shrink_table_ok [OF this(2) cont _ this(1), of mem] True obtain h' where
    h': "shrink_table mem hash = Some h'" "hash_at (k - 1) h'"
      "mset (hash_nodes h') = mset (hash_nodes hash)"
      "h_nodecount h' = h_nodecount hash" "same_keys hash h'"
    by auto
  show ?thesis
    using True h' ok hash_content_mset [OF h'(3,4)]
    by (auto simp: hash_ok_def same_keys_def)
next
  case False
  then show ?thesis
    using ok by (auto simp: same_keys_def)
qed

lemma hash_delete_ok:
  assumes ok: "hash_ok hash" and n: "n \<in> set (hash_nodes hash)"
  shows "\<exists>h'. hash_delete mem hash n = Some h' \<and> hash_ok h' \<and> same_keys hash h' \<and>
    mset (hash_nodes hash) = add_mset n (mset (hash_nodes h')) \<and>
    h_nodecount h' = h_nodecount hash - 1 \<and>
    hash_map h' = (hash_map hash)(hn_key n := None)"
proof -
  from pre_delete_ok [OF ok, of mem] obtain g where
    g: "(if h_dynamic hash \<and> h_nodecount hash \<le> h_lowmark hash \<and> h_nodecount hash > INIT_SIZE
            then shrink_table mem hash else Some hash) = Some g" "hash_ok g"
      "mset (hash_nodes g) = mset (hash_nodes hash)" "h_nodecount g = h_nodecount hash"
      "same_keys hash g"
    by blast
  have ng: "n \<in> set (hash_nodes g)"
    using n mset_eq_setD [OF g(3)] by simp
  obtain c c' h' where u: "table_get g (hn_hkey n AND h_mask g) = Some c"
    "chain_unlink (hn_addr n) c = Some c'"
    "h' = (table_put g (hn_hkey n AND h_mask g) c')\<lparr>h_nodecount := h_nodecount g - 1\<rparr>"
    "hash_ok h'" "hash_verify h'" "mset (hash_nodes g) = add_mset n (mset (hash_nodes h'))"
    "hash_map h' = (hash_map g)(hn_key n := None)"
    using unlink_ok [OF g(2) ng] by blast
  have "hash_map g = hash_map hash"
    using g ok by (intro hash_map_mset) (simp_all add: hash_ok_def)
  moreover have "hash_lookup hash (hn_key n) = Some (Some n)"
    using hash_lookup_Some [OF ok] n by simp
  then have "hash_delete mem hash n = Some h'"
    using u g(1) by (simp add: hash_delete_def Let_def)
  ultimately show ?thesis
    using u g by (intro exI [of _ h']) (simp add: same_keys_def)
qed

lemma hash_create_with_ok:
  assumes "compfun = None \<or> (\<exists>f. compfun = Some f \<and> (\<forall>a b. f a b = 0 \<longleftrightarrow> a = b))"
  shows "\<exists>h. hash_create_with fr True mx compfun hashfun = Some (Some h) \<and> hash_ok h \<and>
    hash_map h = Map.empty \<and> h_nodecount h = 0 \<and> h_maxcount h = mx \<and> hash_nodes h = [] \<and>
    h_freenode h = fr \<and> h_dynamic h"
proof -
  define h where "h = clear_table \<lparr>h_table = replicate (unat INIT_SIZE) [],
    h_nchains = INIT_SIZE, h_nodecount = 0, h_maxcount = mx, h_highmark = INIT_SIZE * 2,
    h_lowmark = INIT_SIZE div 2,
    h_compare = (case compfun of None \<Rightarrow> hash_comp_default | Some f \<Rightarrow> f),
    h_function = (case hashfun of None \<Rightarrow> hash_fun_default | Some f \<Rightarrow> f),
    h_freenode = fr, h_mask = INIT_MASK, h_dynamic = True\<rparr>"
  have size: "unat INIT_SIZE = 64" "INIT_MASK = mask 6" "INIT_SIZE = 2 ^ 6"
    "INIT_SIZE * 2 = 2 ^ (6 + 1)" "INIT_SIZE div 2 = 2 ^ (6 - 1)"
    by (simp_all add: INIT_SIZE_def INIT_MASK_def mask_eq_exp_minus_1)
  have "hash_at 6 h"
    unfolding hash_at_def using size by (simp add: h_def clear_table_def)
  moreover have n: "hash_nodes h = []"
    using size(1) by (simp add: h_def clear_table_def hash_nodes_def)
  moreover have "h_nodecount h = 0" "h_freenode h = fr" "h_dynamic h" "h_maxcount h = mx"
    by (simp_all add: h_def clear_table_def)
  moreover have "h_compare h a b = 0 \<longleftrightarrow> a = b" for a b
    using assms by (auto simp: h_def clear_table_def hash_comp_default_def)
  ultimately have "hash_ok h \<and> hash_verify h"
    using hash_verify_ok [of 6 h] by (auto simp: hash_ok_def hash_content_def)
  moreover have "hash_map h = Map.empty"
    by (intro ext) (simp add: hash_map_def n)
  ultimately show ?thesis
    using n by (intro exI [of _ h]) (simp add: hash_create_with_def h_def [symmetric] Let_def,
        simp add: h_def clear_table_def)
qed

subsection \<open>Scanning\<close>

text \<open>\<open>scan_at hash scan rem\<close>: the scanner will return the nodes \<open>rem\<close>, in this order.\<close>

definition scan_at :: "'v hash_t \<Rightarrow> hscan_t \<Rightarrow> 'v hnode list \<Rightarrow> bool" where
  "scan_at hash scan rem \<longleftrightarrow>
     rem = [] \<and> sc_next scan = None \<or>
     (\<exists>i pre n post. i < length (chains hash) \<and> chains hash ! i = pre @ n # post \<and>
        scan = \<lparr>sc_chain = of_nat i, sc_next = Some (hn_addr n)\<rparr> \<and>
        rem = n # post @ concat (drop (Suc i) (chains hash)))"

lemma scan_at_Nil [simp]: "scan_at hash scan [] \<longleftrightarrow> sc_next scan = None"
  by (auto simp: scan_at_def)

lemma skip_empty_None: "concat cs = [] \<Longrightarrow> snd (skip_empty cs c) = None"
  by (induction cs c rule: skip_empty.induct) auto

lemma skip_empty_Some:
  "concat cs \<noteq> [] \<Longrightarrow> \<exists>j n post. j < length cs \<and> cs ! j = n # post \<and>
     skip_empty cs c = (c + j, Some (hn_addr n)) \<and> concat cs = n # post @ concat (drop (Suc j) cs)"
proof (induction cs c rule: skip_empty.induct)
  case (2 cs c)
  then obtain j n post where "j < length cs" "cs ! j = n # post"
    "skip_empty cs (Suc c) = (Suc c + j, Some (hn_addr n))"
    "concat cs = n # post @ concat (drop (Suc j) cs)"
    by auto
  then show ?case
    by (intro exI [of _ "Suc j"] exI [of _ n] exI [of _ post]) auto
next
  case (3 n ns cs c)
  then show ?case
    by (intro exI [of _ 0] exI [of _ n] exI [of _ ns]) auto
qed simp

lemma hash_scan_begin_at: "scan_at hash (hash_scan_begin hash scan) (hash_nodes hash)"
proof (cases "hash_nodes hash = []")
  case True
  then have "snd (skip_empty (chains hash) 0) = None"
    by (intro skip_empty_None) (simp only: hash_nodes_def)
  then show ?thesis
    unfolding True by (cases "skip_empty (chains hash) 0") (simp add: hash_scan_begin_def)
next
  case False
  then obtain j n post where "j < length (chains hash)" "chains hash ! j = n # post"
    "skip_empty (chains hash) 0 = (j, Some (hn_addr n))"
    "hash_nodes hash = n # post @ concat (drop (Suc j) (chains hash))"
    unfolding hash_nodes_def using skip_empty_Some [of "chains hash" 0] by auto
  then show ?thesis
    unfolding scan_at_def
    by (intro disjI2 exI [of _ j] exI [of _ "[]"] exI [of _ n] exI [of _ post])
      (simp add: hash_scan_begin_def)
qed

lemma chain_deref_nth:
  "hn_addr n \<notin> hn_addr ` set pre \<Longrightarrow>
   chain_deref (hn_addr n) (pre @ n # post) =
     Some (n, case post of [] \<Rightarrow> None | m # ms \<Rightarrow> Some (hn_addr m))"
  by (induction pre) auto

lemma chain_deref_None: "a \<notin> hn_addr ` set c \<Longrightarrow> chain_deref a c = None"
  by (induction c) auto

lemma table_deref_nth:
  assumes "i < length cs" "cs ! i = pre @ n # post" "distinct (map hn_addr (concat cs))"
  shows "table_deref (hn_addr n) cs = Some (n, case post of [] \<Rightarrow> None | m # ms \<Rightarrow> Some (hn_addr m))"
  using assms
proof (induction cs arbitrary: i)
  case (Cons c cs)
  show ?case
  proof (cases i)
    case 0
    then show ?thesis
      using Cons.prems by (auto simp: chain_deref_nth)
  next
    case (Suc j)
    then have j: "j < length cs" "cs ! j = pre @ n # post"
      using Cons.prems(1,2) by simp_all
    from nth_mem [OF j(1)] j(2) have "pre @ n # post \<in> set cs"
      by simp
    then have "n \<in> set (concat cs)"
      by (auto intro!: bexI)
    then have "chain_deref (hn_addr n) c = None"
      using Cons.prems(3) by (intro chain_deref_None) auto
    then show ?thesis
      using Cons Suc by simp
  qed
qed simp

lemma hash_scan_next_at:
  assumes ok: "hash_ok hash" and at: "scan_at hash scan (n # rem)"
  shows "\<exists>scan'. hash_scan_next hash scan = Some (Some n, scan') \<and> scan_at hash scan' rem"
proof -
  let ?cs = "chains hash"
  obtain i pre post where i: "i < length ?cs" "?cs ! i = pre @ n # post"
    and scan: "scan = \<lparr>sc_chain = of_nat i, sc_next = Some (hn_addr n)\<rparr>"
    and rem: "rem = post @ concat (drop (Suc i) ?cs)"
    using at by (auto simp: scan_at_def)
  have d: "table_deref (hn_addr n) ?cs = Some (n, case post of [] \<Rightarrow> None | m # ms \<Rightarrow> Some (hn_addr m))"
    using ok by (intro table_deref_nth [OF i]) (simp add: hash_ok_def hash_content_def hash_nodes_def)
  obtain k where k: "length ?cs = 2 ^ k" "k < 64"
    using ok hash_at_chains(1) by (auto simp: hash_ok_def hash_at_def)
  have "i < 2 ^ k" "(2 :: nat) ^ k \<le> 2 ^ 63"
    using i(1) [unfolded k(1)] k(2) power_increasing [of k 63 "2 :: nat"] by simp_all
  then have "Suc i \<le> 2 ^ 63"
    by linarith
  then have u: "unat (of_nat i + 1 :: ulong) = Suc i"
    using unat_of_nat_small [of i] unat_of_nat_small [of "Suc i"] by (simp add: add.commute)
  show ?thesis
  proof (cases post)
    case (Cons m ms)
    then have "hash_scan_next hash scan = Some (Some n, scan\<lparr>sc_next := Some (hn_addr m)\<rparr>)"
      using d scan by (simp add: hash_scan_next_def)
    moreover have "scan_at hash (scan\<lparr>sc_next := Some (hn_addr m)\<rparr>) rem"
      unfolding scan_at_def using i scan rem Cons
      by (intro disjI2 exI [of _ i] exI [of _ "pre @ [n]"] exI [of _ m] exI [of _ ms]) simp
    ultimately show ?thesis by blast
  next
    case Nil
    show ?thesis
    proof (cases "concat (drop (Suc i) ?cs) = []")
      case True
      then have "rem = []"
        using rem Nil by simp
      then show ?thesis
        using skip_empty_None [OF True, of "Suc i"] d scan Nil u
        by (auto simp: hash_scan_next_def Let_def split: prod.splits option.splits)
    next
      case False
      from skip_empty_Some [OF this, of "Suc i"] obtain j m ms where
        j: "j < length (drop (Suc i) ?cs)" "drop (Suc i) ?cs ! j = m # ms"
          "skip_empty (drop (Suc i) ?cs) (Suc i) = (Suc i + j, Some (hn_addr m))"
          "concat (drop (Suc i) ?cs) = m # ms @ concat (drop (Suc j) (drop (Suc i) ?cs))"
        by blast
      let ?s = "\<lparr>sc_chain = of_nat (Suc i + j), sc_next = Some (hn_addr m)\<rparr>"
      have "hash_scan_next hash scan = Some (Some n, ?s)"
        using d scan Nil u j(3) by (simp add: hash_scan_next_def Let_def)
      moreover have "scan_at hash ?s rem"
      proof -
        have "?cs ! (Suc i + j) = [] @ m # ms"
          using nth_drop [of "Suc i" ?cs j] j(2) i(1) by (simp only: append_Nil Suc_le_eq)
        moreover have "Suc i + j < length ?cs"
          using j(1) unfolding length_drop by linarith
        moreover have "rem = m # ms @ concat (drop (Suc (Suc i + j)) ?cs)"
          using j(4) rem Nil by (simp add: add.commute)
        ultimately show ?thesis
          unfolding scan_at_def by blast
      qed
      ultimately show ?thesis by blast
    qed
  qed
qed

lemma scan_loop_at:
  assumes "hash_ok hash" "scan_at hash scan rem"
  shows "scan_loop hash scan ns = Some (ns @ rem)"
  using assms(2)
proof (induction rem arbitrary: scan ns)
  case Nil
  then show ?case
    by (subst scan_loop.simps) (simp add: hash_scan_next_def)
next
  case (Cons n rem)
  from hash_scan_next_at [OF assms(1) Cons.prems] obtain scan' where
    "hash_scan_next hash scan = Some (Some n, scan')" "scan_at hash scan' rem"
    by blast
  then show ?case
    using Cons.IH by (subst scan_loop.simps) simp
qed

subsection \<open>Deleting while scanning\<close>

lemma chain_unlink_remove1:
  "n \<in> set c \<Longrightarrow> distinct (map hn_addr c) \<Longrightarrow> chain_unlink (hn_addr n) c = Some (remove1 n c)"
  by (induction c) (auto simp: image_iff)

lemma concat_remove1:
  assumes "i < length cs" "n \<in> set (cs ! i)" "\<forall>j < i. n \<notin> set (cs ! j)"
  shows "concat (cs[i := remove1 n (cs ! i)]) = remove1 n (concat cs)"
  using assms
proof (induction cs arbitrary: i)
  case (Cons c cs)
  show ?case
  proof (cases i)
    case 0
    then show ?thesis using Cons.prems by (simp add: remove1_append)
  next
    case (Suc j)
    have "n \<notin> set c"
      using Cons.prems(3) [rule_format, of 0] Suc by simp
    moreover have "\<forall>j' < j. n \<notin> set (cs ! j')"
      using Cons.prems(3) [rule_format, of "Suc _"] Suc by simp
    then have "concat (cs[j := remove1 n (cs ! j)]) = remove1 n (concat cs)"
      using Cons.IH [of j] Cons.prems(1,2) Suc by simp
    ultimately show ?thesis
      using Suc by (simp add: remove1_append)
  qed
qed simp

lemma concat_disjoint:
  assumes "distinct (concat cs)" "i < length cs" "j < length cs" "i \<noteq> j" "n \<in> set (cs ! i)"
  shows "n \<notin> set (cs ! j)"
  using assms
proof (induction cs arbitrary: i j)
  case (Cons c cs)
  have sub: "set (cs ! l) \<subseteq> set (concat cs)" if "l < length cs" for l
    using nth_mem [OF that] by auto
  show ?case
    using Cons.prems Cons.IH [of "i - 1" "j - 1"] sub [of "i - 1"] sub [of "j - 1"]
    by (cases i; cases j) auto
qed simp

lemma hash_scan_delete_chain:
  assumes ok: "hash_ok hash" and n: "n \<in> set (hash_nodes hash)"
    and del: "hash_scan_delete hash n = Some h'"
  shows "\<exists>i < length (chains hash). n \<in> set (chains hash ! i) \<and>
    chains h' = (chains hash)[i := remove1 n (chains hash ! i)] \<and>
    hash_nodes h' = remove1 n (hash_nodes hash)"
proof -
  obtain k where at: "hash_at k hash"
    using ok by (auto simp: hash_ok_def)
  let ?w = "hn_hkey n AND h_mask hash" and ?i = "unat (hn_hkey n) mod 2 ^ k"
  note get = hash_at_get [OF at, of "hn_hkey n"]
  note ch = hash_at_chains [OF at]
  have w: "unat ?w = ?i"
    using at by (simp add: unat_and_mask hash_at_def)
  have i: "?i < length (chains hash)"
    using ch(1) get(2) by simp
  have nth: "chains hash ! ?i = h_table hash ! ?i"
    by (rule ch(2) [OF get(2)])
  have nin: "n \<in> set (chains hash ! ?i)"
    using hash_at_placed [OF at n] nth by simp
  have "distinct (map hn_addr (concat (chains hash)))"
    using ok by (simp add: hash_ok_def hash_content_def hash_nodes_def)
  then have dist: "distinct (concat (chains hash))" "distinct (concat (map (map hn_addr) (chains hash)))"
    by (simp_all only: distinct_map map_concat [symmetric])
  then have "distinct (map hn_addr (chains hash ! ?i))"
    using nth_mem [OF i] by (auto simp: distinct_concat_iff)
  then have "chain_unlink (hn_addr n) (h_table hash ! ?i) = Some (remove1 n (chains hash ! ?i))"
    using nin nth by (simp add: chain_unlink_remove1)
  then have "chains h' = (chains hash)[?i := remove1 n (chains hash ! ?i)]"
    using del get(1) w by (auto simp: hash_scan_delete_def Let_def take_update_swap elim!: bind_SomeD)
  moreover have "\<forall>j < ?i. n \<notin> set (chains hash ! j)"
    using concat_disjoint [OF dist(1) i _ _ nin] i by auto
  ultimately show ?thesis
    using i nin concat_remove1 [OF i nin] by (auto simp: hash_nodes_def intro!: exI [of _ ?i])
qed

lemma scan_at_delete:
  assumes ok: "hash_ok hash" and n: "n \<in> set (hash_nodes hash)" "n \<notin> set rem"
    and del: "hash_scan_delete hash n = Some h'" and at: "scan_at hash scan rem"
  shows "scan_at h' scan rem"
proof (cases "rem = []")
  case False
  from hash_scan_delete_chain [OF ok n(1) del] obtain i where
    i: "i < length (chains hash)" "n \<in> set (chains hash ! i)"
      "chains h' = (chains hash)[i := remove1 n (chains hash ! i)]"
    by blast
  obtain j pre m post where j: "j < length (chains hash)" "chains hash ! j = pre @ m # post"
    "scan = \<lparr>sc_chain = of_nat j, sc_next = Some (hn_addr m)\<rparr>"
    "rem = m # post @ concat (drop (Suc j) (chains hash))"
    using at False unfolding scan_at_def by blast
  have "\<not> j < i"
  proof
    assume "j < i"
    then have "chains hash ! i \<in> set (drop (Suc j) (chains hash))"
      using i(1) by (intro nth_mem_drop) auto
    then show False
      using i(2) j(4) n(2) by auto
  qed
  then have drop: "drop (Suc j) (chains h') = drop (Suc j) (chains hash)"
    unfolding i(3) by simp
  have len: "j < length (chains h')"
    unfolding i(3) using j(1) by simp
  show ?thesis
  proof (cases "i = j")
    case True
    then have "chains h' ! j = remove1 n (pre @ m # post)"
      unfolding i(3) using j by simp
    moreover have "n \<in> set pre"
      using i(2) True j n(2) by auto
    ultimately have "chains h' ! j = remove1 n pre @ m # post"
      by (simp add: remove1_append)
    then show ?thesis
      unfolding scan_at_def using j(3,4) len drop by metis
  next
    case False
    then have "chains h' ! j = pre @ m # post"
      unfolding i(3) using j by simp
    then show ?thesis
      unfolding scan_at_def using j(3,4) len drop by metis
  qed
qed (use at in simp)

lemma free_nodes_loop_at:
  assumes "hash_ok hash" "scan_at hash scan (hash_nodes hash)"
  shows "\<exists>h'. free_nodes_loop hash scan fs =
      Some (fs @ concat (map (h_freenode hash) (hash_nodes hash)), h') \<and>
    hash_ok h' \<and> same_keys hash h' \<and> hash_nodes h' = []"
  using assms
proof (induction "hash_nodes hash" arbitrary: hash scan fs)
  case Nil
  then have "sc_next scan = None"
    by (metis scan_at_Nil)
  then show ?case
    using Nil by (subst free_nodes_loop.simps) (simp add: hash_scan_next_def same_keys_def)
next
  case (Cons n rem)
  have n: "n \<in> set (hash_nodes hash)" "n \<notin> set rem"
    using Cons.hyps(2) [symmetric] Cons.prems(1)
    by (auto simp: hash_ok_def hash_content_def)
  from hash_scan_next_at [OF Cons.prems(1), of scan n rem] Cons.prems(2) Cons.hyps(2) obtain scan' where
    s: "hash_scan_next hash scan = Some (Some n, scan')" "scan_at hash scan' rem"
    by auto
  from hash_scan_delete_ok [OF Cons.prems(1) n(1)] obtain h1 where
    h1: "hash_scan_delete hash n = Some h1" "hash_ok h1" "same_keys hash h1"
    by blast
  have r: "rem = hash_nodes h1"
    using hash_scan_delete_chain [OF Cons.prems(1) n(1) h1(1)] Cons.hyps(2) [symmetric] by auto
  have "scan_at h1 scan' (hash_nodes h1)"
    using scan_at_delete [OF Cons.prems(1) n h1(1) s(2)] r by simp
  from Cons.hyps(1) [OF r h1(2) this, of "fs @ h_freenode h1 n"] obtain h' where
    "free_nodes_loop h1 scan' (fs @ h_freenode h1 n) =
       Some (fs @ h_freenode h1 n @ concat (map (h_freenode h1) rem), h')"
    "hash_ok h'" "same_keys h1 h'" "hash_nodes h' = []"
    using r by auto
  then show ?case
    using s(1) h1 Cons.hyps(2) [symmetric]
    by (subst free_nodes_loop.simps) (auto simp: same_keys_def)
qed

lemma hash_free_nodes_ok:
  assumes ok: "hash_ok hash"
  shows "\<exists>h'. hash_free_nodes hash = Some (concat (map (h_freenode hash) (hash_nodes hash)), h') \<and>
    hash_ok h' \<and> same_keys hash h' \<and> hash_nodes h' = [] \<and> h_nodecount h' = 0 \<and> hash_map h' = Map.empty"
proof -
  from free_nodes_loop_at [OF ok hash_scan_begin_at, of "\<lparr>sc_chain = 0, sc_next = None\<rparr>" "[]"] obtain g where
    g: "free_nodes_loop hash (hash_scan_begin hash \<lparr>sc_chain = 0, sc_next = None\<rparr>) [] =
          Some (concat (map (h_freenode hash) (hash_nodes hash)), g)"
      "hash_ok g" "same_keys hash g" "hash_nodes g = []"
    by auto
  have "unat (h_nodecount g) = 0"
    using g by (simp add: hash_ok_def hash_content_def)
  then have z: "h_nodecount g = 0"
    by (simp add: unat_eq_0)
  obtain k where "hash_at k g"
    using g by (auto simp: hash_ok_def)
  note ch = hash_at_chains [OF this]
  have "set (chains g) \<subseteq> {[]}"
    using g(4) by (auto simp: hash_nodes_def)
  then have "chains g = replicate (2 ^ k) []"
    using ch(1) by (intro replicate_eqI) auto
  then have "h_table g = replicate (2 ^ k) [] @ drop (2 ^ k) (h_table g)"
    using ch(3) append_take_drop_id [of "2 ^ k" "h_table g"] by simp
  then have "clear_table (g\<lparr>h_nodecount := 0\<rparr>) = g"
    using z ch(3) by (simp add: clear_table_def)
  then show ?thesis
    using g z by (intro exI [of _ g])
      (auto simp: hash_free_nodes_def hash_map_def intro!: ext)
qed

section \<open>The interface the rest of the program uses\<close>

text \<open>A table with string keys: what a client may rely on after inserting, looking up and removing
  an entry by key.  \<open>'r\<close> are the resources an operation consumes (a node address, the
  outcome of an allocation), \<open>tavail\<close> what is asked of them.\<close>

locale assoc_table =
  fixes tmap :: "'t \<Rightarrow> string \<Rightarrow> 'v option"
    and tinv :: "'t \<Rightarrow> bool"
    and tavail :: "'r \<Rightarrow> 't \<Rightarrow> bool"
    and tlookup :: "'t \<Rightarrow> string \<Rightarrow> 'v option option"
    and tinsert :: "'r \<Rightarrow> 't \<Rightarrow> string \<Rightarrow> 'v \<Rightarrow> 't option"
    and tdelete :: "'r \<Rightarrow> 't \<Rightarrow> string \<Rightarrow> 't option"
  assumes lookup_law: "tinv t \<Longrightarrow> tlookup t k = Some (tmap t k)"
    and insert_law: "tinv t \<Longrightarrow> tavail r t \<Longrightarrow> tmap t k = None \<Longrightarrow>
      \<exists>t'. tinsert r t k v = Some t' \<and> tinv t' \<and> tmap t' = (tmap t)(k \<mapsto> v)"
    and delete_law: "tinv t \<Longrightarrow>
      \<exists>t'. tdelete r t k = Some t' \<and> tinv t' \<and> tmap t' = (tmap t)(k := None) \<and>
           (tavail r t \<longrightarrow> tavail r t')"
begin

lemma insert_lookup:
  assumes "tinv t" "tavail r t" "tmap t k = None"
  shows "\<exists>t'. tinsert r t k v = Some t' \<and> tlookup t' k = Some (Some v) \<and>
           (\<forall>k'. k' \<noteq> k \<longrightarrow> tlookup t' k' = tlookup t k')"
proof -
  obtain t' where "tinsert r t k v = Some t'" "tinv t'" "tmap t' = (tmap t)(k \<mapsto> v)"
    using insert_law [OF assms, of v] by blast
  then show ?thesis
    using assms(1) by (intro exI [of _ t']) (simp add: lookup_law)
qed

lemma delete_lookup:
  assumes "tinv t"
  shows "\<exists>t'. tdelete r t k = Some t' \<and> tlookup t' k = Some None \<and>
           (\<forall>k'. k' \<noteq> k \<longrightarrow> tlookup t' k' = tlookup t k')"
proof -
  obtain t' where "tdelete r t k = Some t'" "tinv t'" "tmap t' = (tmap t)(k := None)"
    using delete_law [OF assms] by blast
  then show ?thesis
    using assms by (intro exI [of _ t']) (simp add: lookup_law)
qed

text \<open>Removing an entry before inserting it again overwrites it, whether or not it was there.\<close>

lemma replace_law:
  assumes "tinv t" "tavail r t"
  shows "\<exists>t'. tdelete r t k \<bind> (\<lambda>t. tinsert r t k v) = Some t' \<and> tinv t' \<and> tmap t' = (tmap t)(k \<mapsto> v)"
proof -
  obtain u where u: "tdelete r t k = Some u" "tinv u" "tmap u = (tmap t)(k := None)" "tavail r u"
    using delete_law [OF assms(1)] assms(2) by blast
  then obtain t' where "tinsert r u k v = Some t'" "tinv t'" "tmap t' = (tmap u)(k \<mapsto> v)"
    using insert_law [of u r k v] by auto
  then show ?thesis
    using u by auto
qed

end

text \<open>The idioms of the callers: look the value up, insert a fresh node, look a node up and delete it.\<close>

definition hash_get :: "'v hash_t \<Rightarrow> string \<Rightarrow> 'v option option" where
  "hash_get hash key = map_option (map_option hn_data) (hash_lookup hash key)"

definition hash_put :: "addr \<times> bool \<Rightarrow> 'v hash_t \<Rightarrow> string \<Rightarrow> 'v \<Rightarrow> 'v hash_t option" where
  "hash_put r hash key data = map_option snd (hash_alloc_insert (Some (fst r)) (snd r) hash key data)"

definition hash_remove :: "addr \<times> bool \<Rightarrow> 'v hash_t \<Rightarrow> string \<Rightarrow> 'v hash_t option" where
  "hash_remove r hash key = do {
     hn \<leftarrow> hash_lookup hash key;
     map_option snd (hash_delete_free (snd r) hash hn)
   }"

definition hash_avail :: "addr \<times> bool \<Rightarrow> 'v hash_t \<Rightarrow> bool" where
  "hash_avail r hash \<longleftrightarrow> h_nodecount hash < 2 ^ 59 \<and> h_nodecount hash < h_maxcount hash \<and>
     fst r \<notin> hn_addr ` set (hash_nodes hash)"

lemma hash_put_ok:
  assumes "hash_ok hash" "hash_avail r hash" "hash_map hash key = None"
  shows "\<exists>h'. hash_put r hash key data = Some h' \<and> hash_ok h' \<and>
    hash_map h' = (hash_map hash)(key \<mapsto> data)"
  using hash_insert_ok [of hash key "hnode_init (fst r) data" "snd r"] assms
  by (auto simp: hash_put_def hash_alloc_insert_def hash_avail_def hnode_init_def)

lemma hash_remove_ok:
  assumes ok: "hash_ok hash"
  shows "\<exists>h'. hash_remove r hash key = Some h' \<and> hash_ok h' \<and>
    hash_map h' = (hash_map hash)(key := None) \<and> (hash_avail r hash \<longrightarrow> hash_avail r h')"
proof (cases "hash_map hash key")
  case None
  then have "hash_lookup hash key = Some None"
    using hash_lookup_find [OF ok, of key] by (simp add: hash_map_def)
  then show ?thesis
    using ok None by (auto simp: hash_remove_def hash_delete_free_def fun_upd_idem)
next
  case (Some d)
  then obtain n where n: "hash_lookup hash key = Some (Some n)"
    using hash_lookup_find [OF ok, of key] by (auto simp: hash_map_def)
  then have nin: "n \<in> set (hash_nodes hash)" "hn_key n = key"
    using hash_lookup_Some [OF ok] by auto
  from hash_delete_ok [OF ok nin(1), of "snd r"] obtain h' where
    h': "hash_delete (snd r) hash n = Some h'" "hash_ok h'" "same_keys hash h'"
      "mset (hash_nodes hash) = add_mset n (mset (hash_nodes h'))"
      "h_nodecount h' = h_nodecount hash - 1"
      "hash_map h' = (hash_map hash)(hn_key n := None)"
    by blast
  have "set (hash_nodes h') \<subseteq> set (hash_nodes hash)"
    using arg_cong [OF h'(4), of set_mset] by auto
  moreover have "0 < unat (h_nodecount hash)"
    using ok nin(1) by (auto simp: hash_ok_def hash_content_def)
  then have "h_nodecount h' < h_nodecount hash"
    unfolding h'(5) word_less_nat_alt by (subst unat_word_pred) auto
  ultimately have "hash_avail r hash \<longrightarrow> hash_avail r h'"
    using h'(3) unfolding hash_avail_def same_keys_def by (metis image_mono less_trans subsetD)
  then show ?thesis
    using n h' nin by (auto simp: hash_remove_def hash_delete_free_def)
qed

lemma hash_get_ok: "hash_ok hash \<Longrightarrow> hash_get hash key = Some (hash_map hash key)"
  using hash_lookup_map [of hash key] by (simp add: hash_get_def)

interpretation hash_tbl: assoc_table hash_map hash_ok hash_avail hash_get hash_put hash_remove
  by unfold_locales (rule hash_get_ok hash_put_ok hash_remove_ok; assumption)+

section \<open>Properties\<close>

lemma hash_ok_verify: "hash_ok hash \<Longrightarrow> hash_verify hash"
  using hash_verify_ok by (auto simp: hash_ok_def hash_content_def)

lemma hash_ok_resized:
  assumes "hash_ok h" "hash_at k h'" "mset (hash_nodes h') = mset (hash_nodes h)"
    and "h_nodecount h' = h_nodecount h" "same_keys h h'"
  shows "hash_ok h'" "hash_map h' = hash_map h"
proof -
  show "hash_ok h'"
    using assms hash_content_mset [OF assms(3,4)] by (auto simp: hash_ok_def same_keys_def)
  then show "hash_map h' = hash_map h"
    using assms by (intro hash_map_mset) (simp_all add: hash_ok_def)
qed

lemma hash_create_empty:
  "\<exists>h :: 'v hash_t. hash_create True mx None None = Some (Some h) \<and> hash_ok h \<and>
    hash_map h = Map.empty \<and> h_nodecount h = 0 \<and> h_maxcount h = mx \<and> hash_nodes h = [] \<and>
    h_freenode h = hnode_free \<and> h_dynamic h"
  unfolding hash_create_def by (rule hash_create_with_ok) simp

text \<open>C7: Inserting a new key with \<open>hash_alloc_insert\<close> succeeds, whether or not the table has to grow
  and whether or not that allocation succeeds: no assertion fails, \<open>hash_verify\<close> holds
  afterwards, the table represents the old map extended by the entry, and every later
  \<open>hash_lookup\<close> answers from that map.\<close>

theorem hash_alloc_insert_refines:
  assumes "hash_ok hash" "hash_map hash key = None" "a \<notin> hn_addr ` set (hash_nodes hash)"
    and "h_nodecount hash < 2 ^ 59" "h_nodecount hash < h_maxcount hash"
  shows "\<exists>h'. hash_alloc_insert (Some a) mem hash key data = Some (True, h') \<and> hash_verify h' \<and>
    hash_ok h' \<and> hash_map h' = (hash_map hash)(key \<mapsto> data) \<and>
    h_nodecount h' = h_nodecount hash + 1 \<and>
    (\<forall>k. map_option (map_option hn_data) (hash_lookup h' k) = Some (((hash_map hash)(key \<mapsto> data)) k))"
proof -
  from hash_insert_ok [of hash key "hnode_init a data" mem] assms obtain h' where
    "hash_insert mem hash (hnode_init a data) key = Some h'" "hash_ok h'"
    "h_nodecount h' = h_nodecount hash + 1" "hash_map h' = (hash_map hash)(key \<mapsto> data)"
    by (auto simp: hnode_init_def)
  then show ?thesis
    using hash_lookup_map [of h'] hash_ok_verify [of h'] by (auto simp: hash_alloc_insert_def)
qed

theorem hash_alloc_insert_refines_witness:
  "\<exists>h h'. hash_create True 10 None None = Some (Some h) \<and>
     hash_alloc_insert (Some 7) True h ''uuid:1'' (42 :: int) = Some (True, h') \<and>
     hash_map h' = [''uuid:1'' \<mapsto> 42]"
proof -
  obtain h :: "int hash_t" where h: "hash_create True 10 None None = Some (Some h)" "hash_ok h"
    "hash_map h = Map.empty" "h_nodecount h = 0" "h_maxcount h = 10" "hash_nodes h = []"
    using hash_create_empty by blast
  then show ?thesis
    using hash_alloc_insert_refines [of h "''uuid:1''" 7 True 42] by auto
qed

text \<open>C11: Deleting the node a lookup returned, shrinking the table first when the load is low (and
  whatever \<open>realloc\<close> answers), releases that node once, removes exactly its key from the
  represented map and leaves a table that verifies.\<close>

theorem hash_delete_free_refines:
  assumes "hash_ok hash" "hash_lookup hash key = Some (Some n)"
  shows "\<exists>h'. hash_delete_free mem hash (Some n) = Some (h_freenode hash n, h') \<and> hash_verify h' \<and>
    hash_ok h' \<and> hash_map h' = (hash_map hash)(key := None) \<and> hash_lookup h' key = Some None \<and>
    mset (hash_nodes hash) = add_mset n (mset (hash_nodes h'))"
proof -
  have n: "n \<in> set (hash_nodes hash)" "hn_key n = key"
    using assms hash_lookup_Some by blast+
  from hash_delete_ok [OF assms(1) n(1), of mem] obtain h' where
    h': "hash_delete mem hash n = Some h'" "hash_ok h'" "same_keys hash h'"
      "mset (hash_nodes hash) = add_mset n (mset (hash_nodes h'))"
      "hash_map h' = (hash_map hash)(key := None)"
    using n(2) by blast
  have "map_option (map_option hn_data) (hash_lookup h' key) = Some None"
    using hash_lookup_map [OF h'(2), of key] h'(5) by simp
  then show ?thesis
    using h' hash_ok_verify [of h'] by (auto simp: hash_delete_free_def same_keys_def)
qed

theorem hash_delete_free_refines_witness:
  "\<exists>h n h'. hash_lookup h ''k'' = Some (Some n) \<and>
     hash_delete_free False h (Some n) = Some (hnode_free n, h') \<and> hash_lookup h' ''k'' = Some None \<and>
     hn_data n = (5 :: int)"
proof -
  obtain h0 :: "int hash_t" where h0: "hash_ok h0"
    "hash_map h0 = Map.empty" "h_nodecount h0 = 0" "h_maxcount h0 = 10" "hash_nodes h0 = []"
    "h_freenode h0 = hnode_free"
    using hash_create_empty [of 10] by blast
  then obtain h where h: "hash_insert True h0 (hnode_init 3 5) ''k'' = Some h" "hash_ok h"
    "same_keys h0 h" "hash_map h = [''k'' \<mapsto> 5]"
    using hash_insert_ok [of h0 "''k''" "hnode_init 3 5" True] by (auto simp: hnode_init_def)
  then obtain n where "hash_lookup h ''k'' = Some (Some n)" "hn_data n = 5"
    using hash_lookup_map [OF h(2), of "''k''"] by auto
  moreover have "h_freenode h = hnode_free"
    using h(3) h0(6) by (simp add: same_keys_def)
  ultimately show ?thesis
    using hash_delete_free_refines [OF h(2), of "''k''" n False] by auto
qed

text \<open>C12: Doubling a dynamic table and halving it again never loses, duplicates or hides an entry:
  both operations pass their assertions and represent the map they started from, although no key
  is hashed again.\<close>

theorem hash_resize_refines:
  assumes "hash_ok hash" "hash_at k hash" "h_dynamic hash" "k < 60"
  shows "\<exists>g s. grow_table True hash = Some g \<and> hash_ok g \<and> hash_map g = hash_map hash \<and>
    h_nchains g = 2 ^ Suc k \<and> shrink_table mem g = Some s \<and> hash_ok s \<and>
    hash_map s = hash_map hash \<and> h_nchains s = h_nchains hash"
proof -
  have c: "hash_content hash" and k: "6 \<le> k"
    using assms by (simp_all add: hash_ok_def hash_at_def)
  obtain g where g: "grow_table True hash = Some g" "hash_at (Suc k) g"
    "mset (hash_nodes g) = mset (hash_nodes hash)" "h_nodecount g = h_nodecount hash" "same_keys hash g"
    using grow_table_ok [OF assms(2) c assms(3,4)] by blast
  note g' = hash_ok_resized [OF assms(1) g(2-5)]
  have cg: "hash_content g" and dg: "h_dynamic g"
    using g' g(5) assms(3) by (simp_all add: hash_ok_def same_keys_def)
  obtain s where s: "shrink_table mem g = Some s" "hash_at k s"
    "mset (hash_nodes s) = mset (hash_nodes g)" "h_nodecount s = h_nodecount g" "same_keys g s"
    using shrink_table_ok [OF g(2) cg dg k] by blast
  note s' = hash_ok_resized [OF g'(1) s(2-5)]
  show ?thesis
    using g s g' s' assms(2) by (intro exI [of _ g] exI [of _ s]) (simp add: hash_at_def)
qed

theorem hash_resize_refines_witness:
  "\<exists>h g s. hash_create True 10 None None = Some (Some (h :: int hash_t)) \<and> grow_table True h = Some g \<and>
     h_nchains g = 128 \<and> shrink_table False g = Some s \<and> h_nchains s = 64"
proof -
  obtain h :: "int hash_t" where h: "hash_create True 10 None None = Some (Some h)" "hash_ok h"
    using hash_create_empty by blast
  then have d: "h_dynamic h" "h_nchains h = 64" "hash_at 6 h"
    by (auto simp: hash_create_def hash_create_with_def Let_def clear_table_def INIT_SIZE_def
        INIT_MASK_def hash_at_def mask_eq_exp_minus_1)
  show ?thesis
    using hash_resize_refines [OF h(2) d(3,1), of False] h(1) d(2) by auto
qed



text \<open>C14: \<open>hash_free_nodes\<close> terminates, hands every node to \<open>freenode\<close> exactly once and leaves
  an empty, well-formed table, so that \<open>hash_destroy\<close> may follow.\<close>

theorem hash_free_nodes_releases:
  assumes "hash_ok hash"
  shows "\<exists>h'. hash_free_nodes hash = Some (concat (map (h_freenode hash) (hash_nodes hash)), h') \<and>
    hash_ok h' \<and> hash_map h' = Map.empty \<and> hash_destroy h' = Some ()"
  using hash_free_nodes_ok [OF assms] by (auto simp: hash_destroy_def ow_hash_isempty_def)

theorem hash_free_nodes_releases_witness:
  "\<exists>h h'. hash_create3 True 10 None None = Some (Some (h :: int hash_t)) \<and>
     hash_free_nodes h = Some ([], h') \<and> hash_destroy h' = Some ()"
proof -
  obtain h :: "int hash_t" where "hash_create3 True 10 None None = Some (Some h)" "hash_ok h"
    "hash_nodes h = []"
    unfolding hash_create3_def using hash_create_with_ok [of None hnode_free3 10 None] by blast
  then show ?thesis
    using hash_free_nodes_releases [of h] by auto
qed

end
