(* ===== verification/Ws_Names.thy ===== *)
theory Ws_Names
  imports Main
begin

text \<open>
  The namespace URIs, element names, action URIs and filter dialects of
  \<open>src/include/wsman-names.h\<close> and the fault code names of \<open>src/include/wsman-faults.h\<close> that the
  modelled code uses, one constant per macro.
\<close>

definition XML_NS_SOAP_1_1 :: string where
  "XML_NS_SOAP_1_1 = ''http://schemas.xmlsoap.org/soap/envelope''"

definition XML_NS_SOAP_1_2 :: string where
  "XML_NS_SOAP_1_2 = ''http://www.w3.org/2003/05/soap-envelope''"

definition XML_NS_XML_NAMESPACES :: string where
  "XML_NS_XML_NAMESPACES = ''http://www.w3.org/XML/1998/namespace''"

definition XML_NS_ADDRESSING :: string where
  "XML_NS_ADDRESSING = ''http://schemas.xmlsoap.org/ws/2004/08/addressing''"

definition XML_NS_EVENTING :: string where
  "XML_NS_EVENTING = ''http://schemas.xmlsoap.org/ws/2004/08/eventing''"

definition XML_NS_ENUMERATION :: string where
  "XML_NS_ENUMERATION = ''http://schemas.xmlsoap.org/ws/2004/09/enumeration''"

definition XML_NS_TRANSFER :: string where
  "XML_NS_TRANSFER = ''http://schemas.xmlsoap.org/ws/2004/09/transfer''"

definition XML_NS_CIM_BINDING :: string where
  "XML_NS_CIM_BINDING = ''http://schemas.dmtf.org/wbem/wsman/1/cimbinding.xsd''"

definition XML_NS_CIM_CLASS :: string where
  "XML_NS_CIM_CLASS = ''http://schemas.dmtf.org/wbem/wscim/1/cim-schema/2''"

definition XML_NS_WS_MAN :: string where
  "XML_NS_WS_MAN = ''http://schemas.dmtf.org/wbem/wsman/1/wsman.xsd''"

definition XML_NS_WSMAN_FAULT_DETAIL :: string where
  "XML_NS_WSMAN_FAULT_DETAIL = ''http://schemas.dmtf.org/wbem/wsman/1/wsman/faultDetail''"

definition XML_NS_WSMAN_ID :: string where
  "XML_NS_WSMAN_ID = ''http://schemas.dmtf.org/wbem/wsman/identity/1/wsmanidentity.xsd''"

definition XML_NS_OPENWSMAN :: string where
  "XML_NS_OPENWSMAN = ''http://schema.openwsman.org/2006/openwsman''"

definition XML_NS_TRUST :: string where
  "XML_NS_TRUST = ''http://schemas.xmlsoap.org/ws/2005/02/trust''"

definition XML_NS_POLICY :: string where
  "XML_NS_POLICY = ''http://schemas.xmlsoap.org/ws/2004/09/policy''"

definition XML_NS_SE :: string where
  "XML_NS_SE = ''http://docs.oasis-open.org/wss/2004/01/oasis-200401-wss-wssecurity-secext-1.0.xsd''"

definition XML_NS_SCHEMA_INSTANCE :: string where
  "XML_NS_SCHEMA_INSTANCE = ''http://www.w3.org/2001/XMLSchema-instance''"

definition XML_NS_CIM_SCHEMA :: string where
  "XML_NS_CIM_SCHEMA = ''http://schemas.dmtf.org/wbem/wscim/1/common''"

definition XML_NS_WS_MAN_CAT :: string where
  "XML_NS_WS_MAN_CAT = ''http://schemas.xmlsoap.org/ws/2005/06/wsmancat''"

definition XML_NS_XML_SCHEMA :: string where
  "XML_NS_XML_SCHEMA = ''http://www.w3.org/2001/XMLSchema''"

definition WSMID_IDENTIFY :: string where
  "WSMID_IDENTIFY = ''Identify''"

definition WSMID_IDENTIFY_RESPONSE :: string where
  "WSMID_IDENTIFY_RESPONSE = ''IdentifyResponse''"

definition WSA_TO_ANONYMOUS :: string where
  "WSA_TO_ANONYMOUS = ''http://schemas.xmlsoap.org/ws/2004/08/addressing/role/anonymous''"

definition WSA_MESSAGE_ID :: string where
  "WSA_MESSAGE_ID = ''MessageID''"

definition WSA_ADDRESS :: string where
  "WSA_ADDRESS = ''Address''"

definition WSA_EPR :: string where
  "WSA_EPR = ''EndpointReference''"

definition WSA_ACTION :: string where
  "WSA_ACTION = ''Action''"

definition WSA_RELATES_TO :: string where
  "WSA_RELATES_TO = ''RelatesTo''"

definition WSA_TO :: string where
  "WSA_TO = ''To''"

definition WSA_REPLY_TO :: string where
  "WSA_REPLY_TO = ''ReplyTo''"

definition WSA_FROM :: string where
  "WSA_FROM = ''From''"

definition WSA_FAULT_TO :: string where
  "WSA_FAULT_TO = ''FaultTo''"

definition WSA_REFERENCE_PROPERTIES :: string where
  "WSA_REFERENCE_PROPERTIES = ''ReferenceProperties''"

definition WSA_REFERENCE_PARAMETERS :: string where
  "WSA_REFERENCE_PARAMETERS = ''ReferenceParameters''"

definition WSA_ACTION_FAULT :: string where
  "WSA_ACTION_FAULT = ''http://schemas.xmlsoap.org/ws/2004/08/addressing/fault''"

definition SOAP_ENVELOPE :: string where
  "SOAP_ENVELOPE = ''Envelope''"

definition SOAP_HEADER :: string where
  "SOAP_HEADER = ''Header''"

definition SOAP_BODY :: string where
  "SOAP_BODY = ''Body''"

definition SOAP_FAULT :: string where
  "SOAP_FAULT = ''Fault''"

definition SOAP_CODE :: string where
  "SOAP_CODE = ''Code''"

definition SOAP_VALUE :: string where
  "SOAP_VALUE = ''Value''"

definition SOAP_SUBCODE :: string where
  "SOAP_SUBCODE = ''Subcode''"

definition SOAP_REASON :: string where
  "SOAP_REASON = ''Reason''"

definition SOAP_TEXT :: string where
  "SOAP_TEXT = ''Text''"

definition SOAP_LANG :: string where
  "SOAP_LANG = ''lang''"

definition SOAP_DETAIL :: string where
  "SOAP_DETAIL = ''Detail''"

definition SOAP_FAULT_DETAIL :: string where
  "SOAP_FAULT_DETAIL = ''FaultDetail''"

definition SOAP_MUST_UNDERSTAND :: string where
  "SOAP_MUST_UNDERSTAND = ''mustUnderstand''"

definition TRANSFER_ACTION_GET :: string where
  "TRANSFER_ACTION_GET = ''http://schemas.xmlsoap.org/ws/2004/09/transfer/Get''"

definition TRANSFER_GET :: string where
  "TRANSFER_GET = ''Get''"

definition TRANSFER_ACTION_PUT :: string where
  "TRANSFER_ACTION_PUT = ''http://schemas.xmlsoap.org/ws/2004/09/transfer/Put''"

definition TRANSFER_PUT :: string where
  "TRANSFER_PUT = ''Put''"

definition TRANSFER_ACTION_CREATE :: string where
  "TRANSFER_ACTION_CREATE = ''http://schemas.xmlsoap.org/ws/2004/09/transfer/Create''"

definition TRANSFER_CREATE :: string where
  "TRANSFER_CREATE = ''Create''"

definition TRANSFER_ACTION_DELETE :: string where
  "TRANSFER_ACTION_DELETE = ''http://schemas.xmlsoap.org/ws/2004/09/transfer/Delete''"

definition TRANSFER_DELETE :: string where
  "TRANSFER_DELETE = ''Delete''"

definition WSXF_ACTION_FAULT :: string where
  "WSXF_ACTION_FAULT = ''http://schemas.xmlsoap.org/ws/2004/09/transfer/fault''"

definition ENUM_ACTION_ENUMERATE :: string where
  "ENUM_ACTION_ENUMERATE = ''http://schemas.xmlsoap.org/ws/2004/09/enumeration/Enumerate''"

definition WSENUM_ENUMERATE :: string where
  "WSENUM_ENUMERATE = ''Enumerate''"

definition WSENUM_ENUMERATE_RESP :: string where
  "WSENUM_ENUMERATE_RESP = ''EnumerateResponse''"

definition ENUM_ACTION_RELEASE :: string where
  "ENUM_ACTION_RELEASE = ''http://schemas.xmlsoap.org/ws/2004/09/enumeration/Release''"

definition WSENUM_RELEASE :: string where
  "WSENUM_RELEASE = ''Release''"

definition ENUM_ACTION_PULL :: string where
  "ENUM_ACTION_PULL = ''http://schemas.xmlsoap.org/ws/2004/09/enumeration/Pull''"

definition WSENUM_PULL :: string where
  "WSENUM_PULL = ''Pull''"

definition WSENUM_PULL_RESP :: string where
  "WSENUM_PULL_RESP = ''PullResponse''"

definition EVT_ACTION_SUBSCRIBE :: string where
  "EVT_ACTION_SUBSCRIBE = ''http://schemas.xmlsoap.org/ws/2004/08/eventing/Subscribe''"

definition WSEVENT_SUBSCRIBE :: string where
  "WSEVENT_SUBSCRIBE = ''Subscribe''"

definition WSEVENT_SUBSCRIBE_RESP :: string where
  "WSEVENT_SUBSCRIBE_RESP = ''SubscribeResponse''"

definition EVT_ACTION_PULL :: string where
  "EVT_ACTION_PULL = ''http://schemas.dmtf.org/wbem/wsman/1/wsman/Pull''"

definition EVT_ACTION_UNSUBSCRIBE :: string where
  "EVT_ACTION_UNSUBSCRIBE = ''http://schemas.xmlsoap.org/ws/2004/08/eventing/Unsubscribe''"

definition WSEVENT_UNSUBSCRIBE :: string where
  "WSEVENT_UNSUBSCRIBE = ''Unsubscribe''"

definition EVT_ACTION_RENEW :: string where
  "EVT_ACTION_RENEW = ''http://schemas.xmlsoap.org/ws/2004/08/eventing/Renew''"

definition WSEVENT_RENEW :: string where
  "WSEVENT_RENEW = ''Renew''"

definition WSEVENT_RENEW_RESP :: string where
  "WSEVENT_RENEW_RESP = ''RenewResponse''"

definition WSENUM_ACTION_FAULT :: string where
  "WSENUM_ACTION_FAULT = ''http://schemas.xmlsoap.org/ws/2004/09/enumeration/fault''"

definition WSMAN_ACTION_FAULT :: string where
  "WSMAN_ACTION_FAULT = ''http://schemas.dmtf.org/wbem/wsman/1/wsman/fault''"

definition WSENUM_END_TO :: string where
  "WSENUM_END_TO = ''EndTo''"

definition WSENUM_EXPIRES :: string where
  "WSENUM_EXPIRES = ''Expires''"

definition WSENUM_FILTER :: string where
  "WSENUM_FILTER = ''Filter''"

definition WSENUM_DIALECT :: string where
  "WSENUM_DIALECT = ''Dialect''"

definition WSENUM_ENUMERATION_CONTEXT :: string where
  "WSENUM_ENUMERATION_CONTEXT = ''EnumerationContext''"

definition WSENUM_MAX_TIME :: string where
  "WSENUM_MAX_TIME = ''MaxTime''"

definition WSENUM_MAX_ELEMENTS :: string where
  "WSENUM_MAX_ELEMENTS = ''MaxElements''"

definition WSENUM_ITEMS :: string where
  "WSENUM_ITEMS = ''Items''"

definition WSENUM_END_OF_SEQUENCE :: string where
  "WSENUM_END_OF_SEQUENCE = ''EndOfSequence''"

definition WSEVENT_DELIVERY :: string where
  "WSEVENT_DELIVERY = ''Delivery''"

definition WSEVENT_NOTIFY_TO :: string where
  "WSEVENT_NOTIFY_TO = ''NotifyTo''"

definition WSEVENT_ENDTO :: string where
  "WSEVENT_ENDTO = ''EndTo''"

definition WSEVENT_EXPIRES :: string where
  "WSEVENT_EXPIRES = ''Expires''"

definition WSEVENT_DELIVERY_MODE :: string where
  "WSEVENT_DELIVERY_MODE = ''Mode''"

definition WSEVENT_SUBSCRIPTION_MANAGER :: string where
  "WSEVENT_SUBSCRIPTION_MANAGER = ''SubscriptionManager''"

definition WSEVENT_IDENTIFIER :: string where
  "WSEVENT_IDENTIFIER = ''Identifier''"

definition WSEVENT_ACTION_FAULT :: string where
  "WSEVENT_ACTION_FAULT = ''http://schemas.xmlsoap.org/ws/2004/08/eventing/fault''"

definition WSEVENT_DELIVERY_MODE_PUSH :: string where
  "WSEVENT_DELIVERY_MODE_PUSH = ''http://schemas.xmlsoap.org/ws/2004/08/eventing/DeliveryModes/Push''"

definition WSEVENT_DELIVERY_MODE_PUSHWITHACK :: string where
  "WSEVENT_DELIVERY_MODE_PUSHWITHACK = ''http://schemas.dmtf.org/wbem/wsman/1/wsman/PushWithAck''"

definition WSEVENT_DELIVERY_MODE_EVENTS :: string where
  "WSEVENT_DELIVERY_MODE_EVENTS = ''http://schemas.dmtf.org/wbem/wsman/1/wsman/Events''"

definition WSEVENT_DELIVERY_MODE_PULL :: string where
  "WSEVENT_DELIVERY_MODE_PULL = ''http://schemas.dmtf.org/wbem/wsman/1/wsman/Pull''"

definition WSM_LOCALE :: string where
  "WSM_LOCALE = ''Locale''"

definition WSM_RESOURCE_URI :: string where
  "WSM_RESOURCE_URI = ''ResourceURI''"

definition WSM_SELECTOR_SET :: string where
  "WSM_SELECTOR_SET = ''SelectorSet''"

definition WSM_SELECTOR :: string where
  "WSM_SELECTOR = ''Selector''"

definition WSM_NAME :: string where
  "WSM_NAME = ''Name''"

definition WSM_REQUEST_TOTAL :: string where
  "WSM_REQUEST_TOTAL = ''RequestTotalItemsCountEstimate''"

definition WSM_TOTAL_ESTIMATE :: string where
  "WSM_TOTAL_ESTIMATE = ''TotalItemsCountEstimate''"

definition WSM_OPTIMIZE_ENUM :: string where
  "WSM_OPTIMIZE_ENUM = ''OptimizeEnumeration''"

definition WSM_MAX_ELEMENTS :: string where
  "WSM_MAX_ELEMENTS = ''MaxElements''"

definition WSM_ENUM_EPR :: string where
  "WSM_ENUM_EPR = ''EnumerateEPR''"

definition WSM_ENUM_OBJ_AND_EPR :: string where
  "WSM_ENUM_OBJ_AND_EPR = ''EnumerateObjectAndEPR''"

definition WSM_ENUM_MODE :: string where
  "WSM_ENUM_MODE = ''EnumerationMode''"

definition WSM_FRAGMENT_TRANSFER :: string where
  "WSM_FRAGMENT_TRANSFER = ''FragmentTransfer''"

definition WSM_OPTION_SET :: string where
  "WSM_OPTION_SET = ''OptionSet''"

definition WSM_OPTION :: string where
  "WSM_OPTION = ''Option''"

definition WSM_HEARTBEATS :: string where
  "WSM_HEARTBEATS = ''Heartbeats''"

definition WSM_EVENTS :: string where
  "WSM_EVENTS = ''Events''"

definition WSM_ACTION :: string where
  "WSM_ACTION = ''Action''"

definition WSM_EVENT :: string where
  "WSM_EVENT = ''Event''"

definition WSM_ACKREQUESTED :: string where
  "WSM_ACKREQUESTED = ''AckRequested''"

definition WSM_MAX_ENVELOPE_SIZE :: string where
  "WSM_MAX_ENVELOPE_SIZE = ''MaxEnvelopeSize''"

definition WSM_OPERATION_TIMEOUT :: string where
  "WSM_OPERATION_TIMEOUT = ''OperationTimeout''"

definition WSM_FILTER :: string where
  "WSM_FILTER = ''Filter''"

definition WSM_DIALECT :: string where
  "WSM_DIALECT = ''Dialect''"

definition WSM_CONTENTCODING :: string where
  "WSM_CONTENTCODING = ''ContentEncoding''"

definition WSM_CONNECTIONRETRY :: string where
  "WSM_CONNECTIONRETRY = ''ConnectionRetry''"

definition WSM_SENDBOOKMARKS :: string where
  "WSM_SENDBOOKMARKS = ''SendBookmarks''"

definition WSM_BOOKMARK :: string where
  "WSM_BOOKMARK = ''Bookmark''"

definition WSM_AUTH :: string where
  "WSM_AUTH = ''Auth''"

definition WSM_PROFILE :: string where
  "WSM_PROFILE = ''Profile''"

definition WSMB_POLYMORPHISM_MODE :: string where
  "WSMB_POLYMORPHISM_MODE = ''PolymorphismMode''"

definition WSMB_INCLUDE_SUBCLASS_PROP :: string where
  "WSMB_INCLUDE_SUBCLASS_PROP = ''IncludeSubClassProperties''"

definition WSMB_EXCLUDE_SUBCLASS_PROP :: string where
  "WSMB_EXCLUDE_SUBCLASS_PROP = ''ExcludeSubClassProperties''"

definition WSMB_NONE :: string where
  "WSMB_NONE = ''None''"

definition WSMB_ACTION_FAULT :: string where
  "WSMB_ACTION_FAULT = ''http://schemas.dmtf.org/wbem/wsman/1/cimbinding/fault''"

definition WSM_SELECTOR_FILTER_DIALECT :: string where
  "WSM_SELECTOR_FILTER_DIALECT = ''http://schemas.dmtf.org/wbem/wsman/1/wsman/SelectorFilter''"

definition WSM_WQL_FILTER_DIALECT :: string where
  "WSM_WQL_FILTER_DIALECT = ''http://schemas.microsoft.com/wbem/wsman/1/WQL''"

definition WSM_XPATH_FILTER_DIALECT :: string where
  "WSM_XPATH_FILTER_DIALECT = ''http://www.w3.org/TR/1999/REC-xpath-19991116''"

definition WSM_CQL_FILTER_DIALECT :: string where
  "WSM_CQL_FILTER_DIALECT = ''http://schemas.dmtf.org/wbem/cql/1/dsp0202.pdf''"

definition WSM_ASSOCIATION_FILTER_DIALECT :: string where
  "WSM_ASSOCIATION_FILTER_DIALECT = ''http://schemas.dmtf.org/wbem/wsman/1/cimbinding/associationFilter''"

definition WSFW_RESPONSE_STR :: string where
  "WSFW_RESPONSE_STR = ''Response''"

definition CIM_NAMESPACE_SELECTOR :: string where
  "CIM_NAMESPACE_SELECTOR = ''__cimnamespace''"

definition CIM_ALL_AVAILABLE_CLASSES :: string where
  "CIM_ALL_AVAILABLE_CLASSES = ''http://schemas.dmtf.org/wbem/wscim/1/*''"

definition WSMB_ASSOCIATED_INSTANCES :: string where
  "WSMB_ASSOCIATED_INSTANCES = ''AssociatedInstances''"

definition WSMB_ASSOCIATION_INSTANCES :: string where
  "WSMB_ASSOCIATION_INSTANCES = ''AssociationInstances''"

definition WSMB_OBJECT :: string where
  "WSMB_OBJECT = ''Object''"

definition WSMB_ASSOCIATION_CLASS_NAME :: string where
  "WSMB_ASSOCIATION_CLASS_NAME = ''AssociationClassName''"

definition WSMB_RESULT_CLASS_NAME :: string where
  "WSMB_RESULT_CLASS_NAME = ''ResultClassName''"

definition WSMB_ROLE :: string where
  "WSMB_ROLE = ''Role''"

definition WSMB_RESULT_ROLE :: string where
  "WSMB_RESULT_ROLE = ''ResultRole''"

definition WSMB_INCLUDE_RESULT_PROPERTY :: string where
  "WSMB_INCLUDE_RESULT_PROPERTY = ''IncludeResultProperty''"

definition TRANSFER_GET_RESP :: string where
  "TRANSFER_GET_RESP = ''GetResponse''"

definition TRANSFER_PUT_RESP :: string where
  "TRANSFER_PUT_RESP = ''PutResponse''"

definition WSENUM_MAX_CHARACTERS :: string where
  "WSENUM_MAX_CHARACTERS = ''MaxCharacters''"

definition WSFW_INDOC :: string where
  "WSFW_INDOC = ''indoc''"

definition WSMAN_ACTION_ACK :: string where
  "WSMAN_ACTION_ACK = ''http://schemas.xmlsoap.org/wbmem/wsman/1/wsman/Ack''"

definition WSMAN_ACTION_EVENT :: string where
  "WSMAN_ACTION_EVENT = ''http://schemas.xmlsoap.org/wbmem/wsman/1/wsman/Event''"

definition WSMAN_ACTION_HEARTBEAT :: string where
  "WSMAN_ACTION_HEARTBEAT = ''http://schemas.xmlsoap.org/wbmem/wsman/1/wsman/Heartbeat''"

definition WSMAN_SECURITY_PROFILE_HTTPS_BASIC :: string where
  "WSMAN_SECURITY_PROFILE_HTTPS_BASIC = ''http://schemas.dmtf.org/wbem/wsman/1/wsman/secprofile/https/basic''"

definition WSMAN_SECURITY_PROFILE_HTTPS_DIGEST :: string where
  "WSMAN_SECURITY_PROFILE_HTTPS_DIGEST = ''http://schemas.dmtf.org/wbem/wsman/1/wsman/secprofile/https/digest''"

definition WSMAN_SECURITY_PROFILE_HTTPS_MUTUAL :: string where
  "WSMAN_SECURITY_PROFILE_HTTPS_MUTUAL = ''http://schemas.dmtf.org/wbem/wsman/1/wsman/secprofile/https/mutual''"

definition WSMAN_SECURITY_PROFILE_HTTPS_MUTUAL_BASIC :: string where
  "WSMAN_SECURITY_PROFILE_HTTPS_MUTUAL_BASIC = ''http://schemas.dmtf.org/wbem/wsman/1/wsman/secprofile/https/mutual/basic''"

definition WSMAN_SECURITY_PROFILE_HTTPS_MUTUAL_DIGEST :: string where
  "WSMAN_SECURITY_PROFILE_HTTPS_MUTUAL_DIGEST = ''http://schemas.dmtf.org/wbem/wsman/1/wsman/secprofile/https/mutual/digest''"

definition WSMAN_SECURITY_PROFILE_HTTPS_MUTUAL_SPNEGO_KERBEROS :: string where
  "WSMAN_SECURITY_PROFILE_HTTPS_MUTUAL_SPNEGO_KERBEROS = ''http://schemas.dmtf.org/wbem/wsman/1/wsman/secprofile/https/mutual/spnego-kerberos''"

definition WSMAN_SECURITY_PROFILE_HTTPS_SPNEGO_KERBEROS :: string where
  "WSMAN_SECURITY_PROFILE_HTTPS_SPNEGO_KERBEROS = ''http://schemas.dmtf.org/wbem/wsman/1/wsman/secprofile/https/spnego-kerberos''"

definition WSMAN_SECURITY_PROFILE_HTTP_BASIC :: string where
  "WSMAN_SECURITY_PROFILE_HTTP_BASIC = ''http://schemas.dmtf.org/wbem/wsman/1/wsman/secprofile/http/basic''"

definition WSMAN_SECURITY_PROFILE_HTTP_DIGEST :: string where
  "WSMAN_SECURITY_PROFILE_HTTP_DIGEST = ''http://schemas.dmtf.org/wbem/wsman/1/wsman/secprofile/http/digest''"

definition WSMAN_SECURITY_PROFILE_HTTP_SPNEGO_KERBEROS :: string where
  "WSMAN_SECURITY_PROFILE_HTTP_SPNEGO_KERBEROS = ''http://schemas.dmtf.org/wbem/wsman/1/wsman/secprofile/http/spnego-kerberos''"

definition WSM_CERTIFICATETHUMBPRINT :: string where
  "WSM_CERTIFICATETHUMBPRINT = ''CertificateThumbprint''"

definition WSM_DEFAULTBOOKMARK :: string where
  "WSM_DEFAULTBOOKMARK = ''http://schemas.dmtf.org/wbem/wsman/1/wsman/bookmark/earliest''"

definition WSP_APPLIESTO :: string where
  "WSP_APPLIESTO = ''AppliesTo''"

definition WSSE_PASSWORD :: string where
  "WSSE_PASSWORD = ''Password''"

definition WSSE_USERNAME :: string where
  "WSSE_USERNAME = ''Username''"

definition WSSE_USERNAMETOKEN :: string where
  "WSSE_USERNAMETOKEN = ''UsernameToken''"

definition WST_CERTIFICATETHUMBPRINT :: string where
  "WST_CERTIFICATETHUMBPRINT = ''http://schemas.dmtf.org/wbem/wsman/1/wsman/token/certificateThumbprint''"

definition WST_ISSUEDTOKENS :: string where
  "WST_ISSUEDTOKENS = ''IssuedTokens''"

definition WST_REQUESTEDSECURITYTOKEN :: string where
  "WST_REQUESTEDSECURITYTOKEN = ''RequestedSecurityToken''"

definition WST_REQUESTSECURITYTOKENRESPONSE :: string where
  "WST_REQUESTSECURITYTOKENRESPONSE = ''RequestSecurityTokenResponse''"

definition WST_TOKENTYPE :: string where
  "WST_TOKENTYPE = ''TokenType''"

definition WST_USERNAMETOKEN :: string where
  "WST_USERNAMETOKEN = ''http://docs.oasis-open.org/wss/2004/01/oasis-200401-wss-username-token-profile-1.0#UsernameToken''"

definition XML_SCHEMA_NIL :: string where
  "XML_SCHEMA_NIL = ''nil''"

definition FAULT_MUSTUNDERSTAND_CODE :: string where
  "FAULT_MUSTUNDERSTAND_CODE = ''MustUnderstand''"

definition FAULT_SENDER_CODE :: string where
  "FAULT_SENDER_CODE = ''Sender''"

definition FAULT_RECEIVER_CODE :: string where
  "FAULT_RECEIVER_CODE = ''Receiver''"

definition FAULT_SENDER_CODE_NS :: string where
  "FAULT_SENDER_CODE_NS = ''s:Sender''"

definition FAULT_RECEIVER_CODE_NS :: string where
  "FAULT_RECEIVER_CODE_NS = ''s:Receiver''"

lemmas ws_names = XML_NS_SOAP_1_1_def
  XML_NS_SOAP_1_2_def
  XML_NS_XML_NAMESPACES_def
  XML_NS_ADDRESSING_def
  XML_NS_EVENTING_def
  XML_NS_ENUMERATION_def
  XML_NS_TRANSFER_def
  XML_NS_CIM_BINDING_def
  XML_NS_CIM_CLASS_def
  XML_NS_WS_MAN_def
  XML_NS_WSMAN_FAULT_DETAIL_def
  XML_NS_WSMAN_ID_def
  XML_NS_OPENWSMAN_def
  XML_NS_TRUST_def
  XML_NS_POLICY_def
  XML_NS_SE_def
  XML_NS_SCHEMA_INSTANCE_def
  XML_NS_CIM_SCHEMA_def
  XML_NS_WS_MAN_CAT_def
  XML_NS_XML_SCHEMA_def
  WSMID_IDENTIFY_def
  WSMID_IDENTIFY_RESPONSE_def
  WSA_TO_ANONYMOUS_def
  WSA_MESSAGE_ID_def
  WSA_ADDRESS_def
  WSA_EPR_def
  WSA_ACTION_def
  WSA_RELATES_TO_def
  WSA_TO_def
  WSA_REPLY_TO_def
  WSA_FROM_def
  WSA_FAULT_TO_def
  WSA_REFERENCE_PROPERTIES_def
  WSA_REFERENCE_PARAMETERS_def
  WSA_ACTION_FAULT_def
  SOAP_ENVELOPE_def
  SOAP_HEADER_def
  SOAP_BODY_def
  SOAP_FAULT_def
  SOAP_CODE_def
  SOAP_VALUE_def
  SOAP_SUBCODE_def
  SOAP_REASON_def
  SOAP_TEXT_def
  SOAP_LANG_def
  SOAP_DETAIL_def
  SOAP_FAULT_DETAIL_def
  SOAP_MUST_UNDERSTAND_def
  TRANSFER_ACTION_GET_def
  TRANSFER_GET_def
  TRANSFER_ACTION_PUT_def
  TRANSFER_PUT_def
  TRANSFER_ACTION_CREATE_def
  TRANSFER_CREATE_def
  TRANSFER_ACTION_DELETE_def
  TRANSFER_DELETE_def
  WSXF_ACTION_FAULT_def
  ENUM_ACTION_ENUMERATE_def
  WSENUM_ENUMERATE_def
  WSENUM_ENUMERATE_RESP_def
  ENUM_ACTION_RELEASE_def
  WSENUM_RELEASE_def
  ENUM_ACTION_PULL_def
  WSENUM_PULL_def
  WSENUM_PULL_RESP_def
  EVT_ACTION_SUBSCRIBE_def
  WSEVENT_SUBSCRIBE_def
  WSEVENT_SUBSCRIBE_RESP_def
  EVT_ACTION_PULL_def
  EVT_ACTION_UNSUBSCRIBE_def
  WSEVENT_UNSUBSCRIBE_def
  EVT_ACTION_RENEW_def
  WSEVENT_RENEW_def
  WSEVENT_RENEW_RESP_def
  WSENUM_ACTION_FAULT_def
  WSMAN_ACTION_FAULT_def
  WSENUM_END_TO_def
  WSENUM_EXPIRES_def
  WSENUM_FILTER_def
  WSENUM_DIALECT_def
  WSENUM_ENUMERATION_CONTEXT_def
  WSENUM_MAX_TIME_def
  WSENUM_MAX_ELEMENTS_def
  WSENUM_ITEMS_def
  WSENUM_END_OF_SEQUENCE_def
  WSEVENT_DELIVERY_def
  WSEVENT_NOTIFY_TO_def
  WSEVENT_ENDTO_def
  WSEVENT_EXPIRES_def
  WSEVENT_DELIVERY_MODE_def
  WSEVENT_SUBSCRIPTION_MANAGER_def
  WSEVENT_IDENTIFIER_def
  WSEVENT_ACTION_FAULT_def
  WSEVENT_DELIVERY_MODE_PUSH_def
  WSEVENT_DELIVERY_MODE_PUSHWITHACK_def
  WSEVENT_DELIVERY_MODE_EVENTS_def
  WSEVENT_DELIVERY_MODE_PULL_def
  WSM_LOCALE_def
  WSM_RESOURCE_URI_def
  WSM_SELECTOR_SET_def
  WSM_SELECTOR_def
  WSM_NAME_def
  WSM_REQUEST_TOTAL_def
  WSM_TOTAL_ESTIMATE_def
  WSM_OPTIMIZE_ENUM_def
  WSM_MAX_ELEMENTS_def
  WSM_ENUM_EPR_def
  WSM_ENUM_OBJ_AND_EPR_def
  WSM_ENUM_MODE_def
  WSM_FRAGMENT_TRANSFER_def
  WSM_OPTION_SET_def
  WSM_OPTION_def
  WSM_HEARTBEATS_def
  WSM_EVENTS_def
  WSM_ACTION_def
  WSM_EVENT_def
  WSM_ACKREQUESTED_def
  WSM_MAX_ENVELOPE_SIZE_def
  WSM_OPERATION_TIMEOUT_def
  WSM_FILTER_def
  WSM_DIALECT_def
  WSM_CONTENTCODING_def
  WSM_CONNECTIONRETRY_def
  WSM_SENDBOOKMARKS_def
  WSM_BOOKMARK_def
  WSM_AUTH_def
  WSM_PROFILE_def
  WSMB_POLYMORPHISM_MODE_def
  WSMB_INCLUDE_SUBCLASS_PROP_def
  WSMB_EXCLUDE_SUBCLASS_PROP_def
  WSMB_NONE_def
  WSMB_ACTION_FAULT_def
  WSM_SELECTOR_FILTER_DIALECT_def
  WSM_WQL_FILTER_DIALECT_def
  WSM_XPATH_FILTER_DIALECT_def
  WSM_CQL_FILTER_DIALECT_def
  WSM_ASSOCIATION_FILTER_DIALECT_def
  WSFW_RESPONSE_STR_def
  CIM_NAMESPACE_SELECTOR_def
  CIM_ALL_AVAILABLE_CLASSES_def
  WSMB_ASSOCIATED_INSTANCES_def
  WSMB_ASSOCIATION_INSTANCES_def
  WSMB_OBJECT_def
  WSMB_ASSOCIATION_CLASS_NAME_def
  WSMB_RESULT_CLASS_NAME_def
  WSMB_ROLE_def
  WSMB_RESULT_ROLE_def
  WSMB_INCLUDE_RESULT_PROPERTY_def
  TRANSFER_GET_RESP_def
  TRANSFER_PUT_RESP_def
  WSENUM_MAX_CHARACTERS_def
  WSFW_INDOC_def
  WSMAN_ACTION_ACK_def
  WSMAN_ACTION_EVENT_def
  WSMAN_ACTION_HEARTBEAT_def
  WSMAN_SECURITY_PROFILE_HTTPS_BASIC_def
  WSMAN_SECURITY_PROFILE_HTTPS_DIGEST_def
  WSMAN_SECURITY_PROFILE_HTTPS_MUTUAL_def
  WSMAN_SECURITY_PROFILE_HTTPS_MUTUAL_BASIC_def
  WSMAN_SECURITY_PROFILE_HTTPS_MUTUAL_DIGEST_def
  WSMAN_SECURITY_PROFILE_HTTPS_MUTUAL_SPNEGO_KERBEROS_def
  WSMAN_SECURITY_PROFILE_HTTPS_SPNEGO_KERBEROS_def
  WSMAN_SECURITY_PROFILE_HTTP_BASIC_def
  WSMAN_SECURITY_PROFILE_HTTP_DIGEST_def
  WSMAN_SECURITY_PROFILE_HTTP_SPNEGO_KERBEROS_def
  WSM_CERTIFICATETHUMBPRINT_def
  WSM_DEFAULTBOOKMARK_def
  WSP_APPLIESTO_def
  WSSE_PASSWORD_def
  WSSE_USERNAME_def
  WSSE_USERNAMETOKEN_def
  WST_CERTIFICATETHUMBPRINT_def
  WST_ISSUEDTOKENS_def
  WST_REQUESTEDSECURITYTOKEN_def
  WST_REQUESTSECURITYTOKENRESPONSE_def
  WST_TOKENTYPE_def
  WST_USERNAMETOKEN_def
  XML_SCHEMA_NIL_def
  FAULT_MUSTUNDERSTAND_CODE_def
  FAULT_SENDER_CODE_def
  FAULT_RECEIVER_CODE_def
  FAULT_SENDER_CODE_NS_def
  FAULT_RECEIVER_CODE_NS_def

end
