(* ===== verification/Ws_Faults.thy ===== *)
theory Ws_Faults
  imports Ws_Names Ow_Prelude
begin

text \<open>
  The fault vocabulary of \<open>src/include/wsman-faults.h\<close> and the tables and lookups of
  \<open>src/src/lib/wsman-faults.c\<close>: which SOAP code, subcode, action, reason and HTTP status a fault
  code stands for.  A table string that is \<open>NULL\<close> is \<open>None\<close>.  The lemmas say for which
  fault codes the table has an entry, that the detail table is laid out in the order of the
  enumeration that indexes it, and how a subcode received from a peer is mapped back.
\<close>

section \<open>Codes\<close>

datatype (plugins only: code) WsmanFaultCodeType =
    WSMAN_RC_OK
  | WSMAN_ACCESS_DENIED
  | WSA_ACTION_NOT_SUPPORTED
  | WSMAN_ALREADY_EXISTS
  | WSEN_CANNOT_PROCESS_FILTER
  | WSMAN_CANNOT_PROCESS_FILTER
  | WSMAN_CONCURRENCY
  | WSE_DELIVERY_MODE_REQUESTED_UNAVAILABLE
  | WSMAN_DELIVERY_REFUSED
  | WSA_DESTINATION_UNREACHABLE
  | WSMAN_ENCODING_LIMIT
  | WSA_ENDPOINT_UNAVAILABLE
  | WSMAN_EVENT_DELIVER_TO_UNUSABLE
  | WSE_EVENT_SOURCE_UNABLE_TO_PROCESS
  | WSEN_FILTER_DIALECT_REQUESTED_UNAVAILABLE
  | WSE_FILTERING_NOT_SUPPORTED
  | WSEN_FILTERING_NOT_SUPPORTED
  | WSE_FILTERING_REQUESTED_UNAVAILABLE
  | WSMAN_FRAGMENT_DIALECT_NOT_SUPPORTED
  | WSMAN_INTERNAL_ERROR
  | WSMAN_INVALID_BOOKMARK
  | WSEN_INVALID_ENUMERATION_CONTEXT
  | WSE_INVALID_EXPIRATION_TIME
  | WSEN_INVALID_EXPIRATION_TIME
  | WSE_INVALID_MESSAGE
  | WSA_INVALID_MESSAGE_INFORMATION_HEADER
  | WSMAN_INVALID_OPTIONS
  | WSMAN_INVALID_PARAMETER
  | WXF_INVALID_REPRESENTATION
  | WSMAN_INVALID_SELECTORS
  | WSA_MESSAGE_INFORMATION_HEADER_REQUIRED
  | WSMAN_NO_ACK
  | WSMAN_QUOTA_LIMIT
  | WSMAN_SCHEMA_VALIDATION_ERROR
  | WSEN_TIMED_OUT
  | WSMAN_TIMED_OUT
  | WSE_UNABLE_TO_RENEW
  | WSE_UNSUPPORTED_EXPIRATION_TYPE
  | WSEN_UNSUPPORTED_EXPIRATION_TYPE
  | WSMAN_UNSUPPORTED_FEATURE
  | SOAP_FAULT_VERSION_MISMATCH
  | SOAP_FAULT_MUSTUNDERSTAND
  | WSMB_POLYMORPHISM_MODE_NOT_SUPPORTED
  | WSMAN_UNKNOWN

type_synonym WsmanFaultDetailType = nat

text \<open>The fault details index a table, so they are kept as the values of the C enumerators.\<close>

abbreviation WSMAN_DETAIL_OK :: WsmanFaultDetailType where
  "WSMAN_DETAIL_OK \<equiv> 0"

abbreviation WSMAN_DETAIL_ACK :: WsmanFaultDetailType where
  "WSMAN_DETAIL_ACK \<equiv> 1"

abbreviation WSMAN_DETAIL_ACTION_MISMATCH :: WsmanFaultDetailType where
  "WSMAN_DETAIL_ACTION_MISMATCH \<equiv> 2"

abbreviation WSMAN_DETAIL_ALREADY_EXISTS :: WsmanFaultDetailType where
  "WSMAN_DETAIL_ALREADY_EXISTS \<equiv> 3"

abbreviation WSMAN_DETAIL_AMBIGUOUS_SELECTORS :: WsmanFaultDetailType where
  "WSMAN_DETAIL_AMBIGUOUS_SELECTORS \<equiv> 4"

abbreviation WSMAN_DETAIL_ASYNCHRONOUS_REQUEST :: WsmanFaultDetailType where
  "WSMAN_DETAIL_ASYNCHRONOUS_REQUEST \<equiv> 5"

abbreviation WSMAN_DETAIL_ADDRESSING_MODE :: WsmanFaultDetailType where
  "WSMAN_DETAIL_ADDRESSING_MODE \<equiv> 6"

abbreviation WSMAN_DETAIL_AUTHERIZATION_MODE :: WsmanFaultDetailType where
  "WSMAN_DETAIL_AUTHERIZATION_MODE \<equiv> 7"

abbreviation WSMAN_DETAIL_BOOKMARKS :: WsmanFaultDetailType where
  "WSMAN_DETAIL_BOOKMARKS \<equiv> 8"

abbreviation WSMAN_DETAIL_CHARECHTER_SET :: WsmanFaultDetailType where
  "WSMAN_DETAIL_CHARECHTER_SET \<equiv> 9"

abbreviation WSMAN_DETAIL_DELIVERY_RETRIES :: WsmanFaultDetailType where
  "WSMAN_DETAIL_DELIVERY_RETRIES \<equiv> 10"

abbreviation WSMAN_DETAIL_DUPLICATE_SELECTORS :: WsmanFaultDetailType where
  "WSMAN_DETAIL_DUPLICATE_SELECTORS \<equiv> 11"

abbreviation WSMAN_DETAIL_ENCODING_TYPE :: WsmanFaultDetailType where
  "WSMAN_DETAIL_ENCODING_TYPE \<equiv> 12"

abbreviation WSMAN_DETAIL_ENUMERATION_MODE :: WsmanFaultDetailType where
  "WSMAN_DETAIL_ENUMERATION_MODE \<equiv> 13"

abbreviation WSMAN_DETAIL_EXPIRATION_TIME :: WsmanFaultDetailType where
  "WSMAN_DETAIL_EXPIRATION_TIME \<equiv> 14"

abbreviation WSMAN_DETAIL_EXPIRED :: WsmanFaultDetailType where
  "WSMAN_DETAIL_EXPIRED \<equiv> 15"

abbreviation WSMAN_DETAIL_FILTERING_REQUIRED :: WsmanFaultDetailType where
  "WSMAN_DETAIL_FILTERING_REQUIRED \<equiv> 16"

abbreviation WSMAN_DETAIL_FORMAT_MISMATCH :: WsmanFaultDetailType where
  "WSMAN_DETAIL_FORMAT_MISMATCH \<equiv> 17"

abbreviation WSMAN_DETAIL_FORMAT_SECURITY_TOKEN :: WsmanFaultDetailType where
  "WSMAN_DETAIL_FORMAT_SECURITY_TOKEN \<equiv> 18"

abbreviation WSMAN_DETAIL_FRAGMENT_LEVEL_ACCESS :: WsmanFaultDetailType where
  "WSMAN_DETAIL_FRAGMENT_LEVEL_ACCESS \<equiv> 19"

abbreviation WSMAN_DETAIL_HEARTBEATS :: WsmanFaultDetailType where
  "WSMAN_DETAIL_HEARTBEATS \<equiv> 20"

abbreviation WSMAN_DETAIL_INSECURE_ADDRESS :: WsmanFaultDetailType where
  "WSMAN_DETAIL_INSECURE_ADDRESS \<equiv> 21"

abbreviation WSMAN_DETAIL_INSUFFICIENT_SELECTORS :: WsmanFaultDetailType where
  "WSMAN_DETAIL_INSUFFICIENT_SELECTORS \<equiv> 22"

abbreviation WSMAN_DETAIL_INVALID :: WsmanFaultDetailType where
  "WSMAN_DETAIL_INVALID \<equiv> 23"

abbreviation WSMAN_DETAIL_INVALID_ADDRESS :: WsmanFaultDetailType where
  "WSMAN_DETAIL_INVALID_ADDRESS \<equiv> 24"

abbreviation WSMAN_DETAIL_INVALID_FORMAT :: WsmanFaultDetailType where
  "WSMAN_DETAIL_INVALID_FORMAT \<equiv> 25"

abbreviation WSMAN_DETAIL_INVALID_FRAGMENT :: WsmanFaultDetailType where
  "WSMAN_DETAIL_INVALID_FRAGMENT \<equiv> 26"

abbreviation WSMAN_DETAIL_INVALID_NAME :: WsmanFaultDetailType where
  "WSMAN_DETAIL_INVALID_NAME \<equiv> 27"

abbreviation WSMAN_DETAIL_INVALID_NAMESPACE :: WsmanFaultDetailType where
  "WSMAN_DETAIL_INVALID_NAMESPACE \<equiv> 28"

abbreviation WSMAN_DETAIL_INVALID_RESOURCEURI :: WsmanFaultDetailType where
  "WSMAN_DETAIL_INVALID_RESOURCEURI \<equiv> 29"

abbreviation WSMAN_DETAIL_INVALID_SELECTOR_ASSIGNMENT :: WsmanFaultDetailType where
  "WSMAN_DETAIL_INVALID_SELECTOR_ASSIGNMENT \<equiv> 30"

abbreviation WSMAN_DETAIL_INVALID_SYSTEM :: WsmanFaultDetailType where
  "WSMAN_DETAIL_INVALID_SYSTEM \<equiv> 31"

abbreviation WSMAN_DETAIL_INVALID_TIMEOUT :: WsmanFaultDetailType where
  "WSMAN_DETAIL_INVALID_TIMEOUT \<equiv> 32"

abbreviation WSMAN_DETAIL_INVALID_VALUE :: WsmanFaultDetailType where
  "WSMAN_DETAIL_INVALID_VALUE \<equiv> 33"

abbreviation WSMAN_DETAIL_INVALID_VALUES :: WsmanFaultDetailType where
  "WSMAN_DETAIL_INVALID_VALUES \<equiv> 34"

abbreviation WSMAN_DETAIL_LOCALE :: WsmanFaultDetailType where
  "WSMAN_DETAIL_LOCALE \<equiv> 35"

abbreviation WSMAN_DETAIL_MAX_ELEMENTS :: WsmanFaultDetailType where
  "WSMAN_DETAIL_MAX_ELEMENTS \<equiv> 36"

abbreviation WSMAN_DETAIL_MAX_ENVELOPE_POLICY :: WsmanFaultDetailType where
  "WSMAN_DETAIL_MAX_ENVELOPE_POLICY \<equiv> 37"

abbreviation WSMAN_DETAIL_MAX_ENVELOPE_SIZE :: WsmanFaultDetailType where
  "WSMAN_DETAIL_MAX_ENVELOPE_SIZE \<equiv> 38"

abbreviation WSMAN_DETAIL_MAX_TIME :: WsmanFaultDetailType where
  "WSMAN_DETAIL_MAX_TIME \<equiv> 39"

abbreviation WSMAN_DETAIL_MINIMUM_ENVELOPE_LIMIT :: WsmanFaultDetailType where
  "WSMAN_DETAIL_MINIMUM_ENVELOPE_LIMIT \<equiv> 40"

abbreviation WSMAN_DETAIL_MISSING_VALUES :: WsmanFaultDetailType where
  "WSMAN_DETAIL_MISSING_VALUES \<equiv> 41"

abbreviation WSMAN_DETAIL_NOT_SUPPORTED :: WsmanFaultDetailType where
  "WSMAN_DETAIL_NOT_SUPPORTED \<equiv> 42"

abbreviation WSMAN_DETAIL_OPERATION_TIMEOUT :: WsmanFaultDetailType where
  "WSMAN_DETAIL_OPERATION_TIMEOUT \<equiv> 43"

abbreviation WSMAN_DETAIL_OPTION_LIMIT :: WsmanFaultDetailType where
  "WSMAN_DETAIL_OPTION_LIMIT \<equiv> 44"

abbreviation WSMAN_DETAIL_OPTION_SET :: WsmanFaultDetailType where
  "WSMAN_DETAIL_OPTION_SET \<equiv> 45"

abbreviation WSMAN_DETAIL_READ_ONLY :: WsmanFaultDetailType where
  "WSMAN_DETAIL_READ_ONLY \<equiv> 46"

abbreviation WSMAN_DETAIL_RESOURCE_OFFLINE :: WsmanFaultDetailType where
  "WSMAN_DETAIL_RESOURCE_OFFLINE \<equiv> 47"

abbreviation WSMAN_DETAIL_RENAME :: WsmanFaultDetailType where
  "WSMAN_DETAIL_RENAME \<equiv> 48"

abbreviation WSMAN_DETAIL_SELECTOR_LIMIT :: WsmanFaultDetailType where
  "WSMAN_DETAIL_SELECTOR_LIMIT \<equiv> 49"

abbreviation WSMAN_DETAIL_SERVICE_ENVELOPE_LIMIT :: WsmanFaultDetailType where
  "WSMAN_DETAIL_SERVICE_ENVELOPE_LIMIT \<equiv> 50"

abbreviation WSMAN_DETAIL_TARGET_ALREADY_EXISTS :: WsmanFaultDetailType where
  "WSMAN_DETAIL_TARGET_ALREADY_EXISTS \<equiv> 51"

abbreviation WSMAN_DETAIL_TYPE_MISMATCH :: WsmanFaultDetailType where
  "WSMAN_DETAIL_TYPE_MISMATCH \<equiv> 52"

abbreviation WSMAN_DETAIL_UNEXPECTED_SELECTORS :: WsmanFaultDetailType where
  "WSMAN_DETAIL_UNEXPECTED_SELECTORS \<equiv> 53"

abbreviation WSMAN_DETAIL_UNREPORTABLE_SUCCESS :: WsmanFaultDetailType where
  "WSMAN_DETAIL_UNREPORTABLE_SUCCESS \<equiv> 54"

abbreviation WSMAN_DETAIL_UNUSABLE_ADDRESS :: WsmanFaultDetailType where
  "WSMAN_DETAIL_UNUSABLE_ADDRESS \<equiv> 55"

abbreviation WSMAN_DETAIL_URI_LIMIT_EXCEEDED :: WsmanFaultDetailType where
  "WSMAN_DETAIL_URI_LIMIT_EXCEEDED \<equiv> 56"

abbreviation WSMAN_DETAIL_WHITESPACE :: WsmanFaultDetailType where
  "WSMAN_DETAIL_WHITESPACE \<equiv> 57"

abbreviation WSA_DETAIL_DUPLICATE_MESSAGE_ID :: WsmanFaultDetailType where
  "WSA_DETAIL_DUPLICATE_MESSAGE_ID \<equiv> 58"

abbreviation SOAP_DETAIL_HEADER_NOT_UNDERSTOOD :: WsmanFaultDetailType where
  "SOAP_DETAIL_HEADER_NOT_UNDERSTOOD \<equiv> 59"

abbreviation WST_DETAIL_UNSUPPORTED_TOKENTYPE :: WsmanFaultDetailType where
  "WST_DETAIL_UNSUPPORTED_TOKENTYPE \<equiv> 60"

abbreviation WSP_DETAIL_INVALID_EPR :: WsmanFaultDetailType where
  "WSP_DETAIL_INVALID_EPR \<equiv> 61"

abbreviation OWSMAN_DETAIL_ENDPOINT_ERROR :: WsmanFaultDetailType where
  "OWSMAN_DETAIL_ENDPOINT_ERROR \<equiv> 62"

abbreviation OWSMAN_NO_DETAILS :: WsmanFaultDetailType where
  "OWSMAN_NO_DETAILS \<equiv> 63"

abbreviation OWSMAN_SYSTEM_ERROR :: WsmanFaultDetailType where
  "OWSMAN_SYSTEM_ERROR \<equiv> 64"

text \<open>The HTTP status codes (\<open>WsmanKnownStatusCode\<close>) the fault table uses.\<close>

definition WSMAN_STATUS_BAD_REQUEST :: int where
  "WSMAN_STATUS_BAD_REQUEST = 400"

definition WSMAN_STATUS_SERVICE_UNAVAILABLE :: int where
  "WSMAN_STATUS_SERVICE_UNAVAILABLE = 503"

definition WSMAN_STATUS_UNAUTHORIZED :: int where
  "WSMAN_STATUS_UNAUTHORIZED = 401"

definition WSMAN_STATUS_NOT_IMPLEMENTED :: int where
  "WSMAN_STATUS_NOT_IMPLEMENTED = 501"

definition WSMAN_STATUS_UNPROCESSABLE_ENTITY :: int where
  "WSMAN_STATUS_UNPROCESSABLE_ENTITY = 422"

definition WSMAN_STATUS_CONFLICT :: int where
  "WSMAN_STATUS_CONFLICT = 409"

definition WSMAN_STATUS_REQUEST_ENTITY_TOO_LARGE :: int where
  "WSMAN_STATUS_REQUEST_ENTITY_TOO_LARGE = 413"

definition WSMAN_STATUS_INTERNAL_SERVER_ERROR :: int where
  "WSMAN_STATUS_INTERNAL_SERVER_ERROR = 500"

definition WSMAN_STATUS_REQUEST_TIMEOUT :: int where
  "WSMAN_STATUS_REQUEST_TIMEOUT = 408"

definition WSMAN_STATUS_NOT_FOUND :: int where
  "WSMAN_STATUS_NOT_FOUND = 404"

definition WSMAN_STATUS_OK :: int where
  "WSMAN_STATUS_OK = 200"

definition all_fault_codes :: "WsmanFaultCodeType list" where
  "all_fault_codes =
    [WSMAN_RC_OK,
     WSMAN_ACCESS_DENIED,
     WSA_ACTION_NOT_SUPPORTED,
     WSMAN_ALREADY_EXISTS,
     WSEN_CANNOT_PROCESS_FILTER,
     WSMAN_CANNOT_PROCESS_FILTER,
     WSMAN_CONCURRENCY,
     WSE_DELIVERY_MODE_REQUESTED_UNAVAILABLE,
     WSMAN_DELIVERY_REFUSED,
     WSA_DESTINATION_UNREACHABLE,
     WSMAN_ENCODING_LIMIT,
     WSA_ENDPOINT_UNAVAILABLE,
     WSMAN_EVENT_DELIVER_TO_UNUSABLE,
     WSE_EVENT_SOURCE_UNABLE_TO_PROCESS,
     WSEN_FILTER_DIALECT_REQUESTED_UNAVAILABLE,
     WSE_FILTERING_NOT_SUPPORTED,
     WSEN_FILTERING_NOT_SUPPORTED,
     WSE_FILTERING_REQUESTED_UNAVAILABLE,
     WSMAN_FRAGMENT_DIALECT_NOT_SUPPORTED,
     WSMAN_INTERNAL_ERROR,
     WSMAN_INVALID_BOOKMARK,
     WSEN_INVALID_ENUMERATION_CONTEXT,
     WSE_INVALID_EXPIRATION_TIME,
     WSEN_INVALID_EXPIRATION_TIME,
     WSE_INVALID_MESSAGE,
     WSA_INVALID_MESSAGE_INFORMATION_HEADER,
     WSMAN_INVALID_OPTIONS,
     WSMAN_INVALID_PARAMETER,
     WXF_INVALID_REPRESENTATION,
     WSMAN_INVALID_SELECTORS,
     WSA_MESSAGE_INFORMATION_HEADER_REQUIRED,
     WSMAN_NO_ACK,
     WSMAN_QUOTA_LIMIT,
     WSMAN_SCHEMA_VALIDATION_ERROR,
     WSEN_TIMED_OUT,
     WSMAN_TIMED_OUT,
     WSE_UNABLE_TO_RENEW,
     WSE_UNSUPPORTED_EXPIRATION_TYPE,
     WSEN_UNSUPPORTED_EXPIRATION_TYPE,
     WSMAN_UNSUPPORTED_FEATURE,
     SOAP_FAULT_VERSION_MISMATCH,
     SOAP_FAULT_MUSTUNDERSTAND,
     WSMB_POLYMORPHISM_MODE_NOT_SUPPORTED,
     WSMAN_UNKNOWN]"

section \<open>Tables\<close>

record WsmanFaultCodeTable =
  ft_fault_code :: WsmanFaultCodeType
  ft_http_code :: int
  ft_fault_action :: "string option"
  ft_subCodeNs :: "string option"
  ft_code :: "string option"
  ft_subCode :: "string option"
  ft_reason :: "string option"

definition fault_detail_table :: "(WsmanFaultDetailType \<times> string option) list" where
  "fault_detail_table =
    [(WSMAN_DETAIL_OK, None),
     (WSMAN_DETAIL_ACK, Some ''Ack''),
     (WSMAN_DETAIL_ACTION_MISMATCH, Some ''ActionMismatch''),
     (WSMAN_DETAIL_ALREADY_EXISTS, Some ''AlreadyExists''),
     (WSMAN_DETAIL_AMBIGUOUS_SELECTORS, Some ''AmbigousSelectors''),
     (WSMAN_DETAIL_ASYNCHRONOUS_REQUEST, Some ''AsynchronousRequest''),
     (WSMAN_DETAIL_ADDRESSING_MODE, Some ''AddressingMode''),
     (WSMAN_DETAIL_AUTHERIZATION_MODE, Some ''AutherizationMode''),
     (WSMAN_DETAIL_BOOKMARKS, Some ''Bookmarks''),
     (WSMAN_DETAIL_CHARECHTER_SET, Some ''CharechterSet''),
     (WSMAN_DETAIL_DELIVERY_RETRIES, Some ''DeliveryRetries''),
     (WSMAN_DETAIL_DUPLICATE_SELECTORS, Some ''DuplicateSelectors''),
     (WSMAN_DETAIL_ENCODING_TYPE, Some ''EncodingType''),
     (WSMAN_DETAIL_ENUMERATION_MODE, Some ''EnumerationMode''),
     (WSMAN_DETAIL_EXPIRATION_TIME, Some ''ExpirationTime''),
     (WSMAN_DETAIL_EXPIRED, Some ''Expired''),
     (WSMAN_DETAIL_FILTERING_REQUIRED, Some ''FilteringRequired''),
     (WSMAN_DETAIL_FORMAT_MISMATCH, Some ''FormatMismatch''),
     (WSMAN_DETAIL_FORMAT_SECURITY_TOKEN, Some ''FormatSecurityTocken''),
     (WSMAN_DETAIL_FRAGMENT_LEVEL_ACCESS, Some ''FragmentLevelAccess''),
     (WSMAN_DETAIL_HEARTBEATS, Some ''Heartbeats''),
     (WSMAN_DETAIL_INSECURE_ADDRESS, Some ''InsecureAddress''),
     (WSMAN_DETAIL_INSUFFICIENT_SELECTORS, Some ''InsufficientSelectors''),
     (WSMAN_DETAIL_INVALID, Some ''Invalid''),
     (WSMAN_DETAIL_INVALID_ADDRESS, Some ''InvalidAddress''),
     (WSMAN_DETAIL_INVALID_FORMAT, Some ''InvalidFormat''),
     (WSMAN_DETAIL_INVALID_FRAGMENT, Some ''InvalidFragment''),
     (WSMAN_DETAIL_INVALID_NAME, Some ''InvalidName''),
     (WSMAN_DETAIL_INVALID_NAMESPACE, Some ''InvalidNamespace''),
     (WSMAN_DETAIL_INVALID_RESOURCEURI, Some ''InvalidResourceURI''),
     (WSMAN_DETAIL_INVALID_SELECTOR_ASSIGNMENT, Some ''InvalidSelectorAssignment''),
     (WSMAN_DETAIL_INVALID_SYSTEM, Some ''InvalidSystem''),
     (WSMAN_DETAIL_INVALID_TIMEOUT, Some ''InvalidTimeout''),
     (WSMAN_DETAIL_INVALID_VALUE, Some ''InvalidValue''),
     (WSMAN_DETAIL_INVALID_VALUES, Some ''InvalidValues''),
     (WSMAN_DETAIL_LOCALE, Some ''Locale''),
     (WSMAN_DETAIL_MAX_ELEMENTS, Some ''MaxElements''),
     (WSMAN_DETAIL_MAX_ENVELOPE_POLICY, Some ''MaxEnvelopePolicy''),
     (WSMAN_DETAIL_MAX_ENVELOPE_SIZE, Some ''MaxEnvelopeSize''),
     (WSMAN_DETAIL_MAX_TIME, Some ''MaxTime''),
     (WSMAN_DETAIL_MINIMUM_ENVELOPE_LIMIT, Some ''MinimumEnvelopeLimit''),
     (WSMAN_DETAIL_MISSING_VALUES, Some ''MissingValues''),
     (WSMAN_DETAIL_NOT_SUPPORTED, Some ''NotSupported''),
     (WSMAN_DETAIL_OPERATION_TIMEOUT, Some ''OperationTimeout''),
     (WSMAN_DETAIL_OPTION_LIMIT, Some ''OptionLimit''),
     (WSMAN_DETAIL_OPTION_SET, Some ''OptionSet''),
     (WSMAN_DETAIL_READ_ONLY, Some ''ReadOnly''),
     (WSMAN_DETAIL_RESOURCE_OFFLINE, Some ''ResourceOffline''),
     (WSMAN_DETAIL_RENAME, Some ''Rename''),
     (WSMAN_DETAIL_SELECTOR_LIMIT, Some ''SelectorLimit''),
     (WSMAN_DETAIL_SERVICE_ENVELOPE_LIMIT, Some ''ServiceEnvelopeLimit''),
     (WSMAN_DETAIL_TARGET_ALREADY_EXISTS, Some ''TargetAlreadyExists''),
     (WSMAN_DETAIL_TYPE_MISMATCH, Some ''TypeMismatch''),
     (WSMAN_DETAIL_UNEXPECTED_SELECTORS, Some ''UnexpectedSelectors''),
     (WSMAN_DETAIL_UNREPORTABLE_SUCCESS, Some ''UnreportableSuccess''),
     (WSMAN_DETAIL_UNUSABLE_ADDRESS, Some ''UnusableAddress''),
     (WSMAN_DETAIL_URI_LIMIT_EXCEEDED, Some ''UriLimitExceeded''),
     (WSMAN_DETAIL_WHITESPACE, Some ''Whitespace''),
     (WSA_DETAIL_DUPLICATE_MESSAGE_ID, Some ''DuplicateMessageID''),
     (SOAP_DETAIL_HEADER_NOT_UNDERSTOOD, Some ''HeaderNotUnderstood''),
     (WST_DETAIL_UNSUPPORTED_TOKENTYPE, Some ''UnsupportedTokenType''),
     (WSP_DETAIL_INVALID_EPR, Some ''InvalidEPR''),
     (OWSMAN_DETAIL_ENDPOINT_ERROR, Some ''Unknown''),
     (OWSMAN_NO_DETAILS, Some ''Unknown''),
     (OWSMAN_SYSTEM_ERROR, Some ''Unknown'')]"

definition fault_code_table_1 :: "WsmanFaultCodeTable list" where
  "fault_code_table_1 =
    [\<lparr>ft_fault_code = SOAP_FAULT_MUSTUNDERSTAND, ft_http_code = WSMAN_STATUS_BAD_REQUEST,
       ft_fault_action = Some WSA_ACTION_FAULT, ft_subCodeNs = Some XML_NS_SOAP_1_2,
       ft_code = Some FAULT_MUSTUNDERSTAND_CODE, ft_subCode = Some '''',
       ft_reason = Some ''The WS-Management service cannot process a SOAP header in the request that is marked as mustUnderstand by the client. This could be caused by the use of a version of the protocol which is not supported, or may be an incompatibility between the client and server implementations.''\<rparr>,
     \<lparr>ft_fault_code = WSA_ENDPOINT_UNAVAILABLE, ft_http_code = WSMAN_STATUS_SERVICE_UNAVAILABLE,
       ft_fault_action = Some WSA_ACTION_FAULT, ft_subCodeNs = Some XML_NS_ADDRESSING,
       ft_code = Some FAULT_SENDER_CODE, ft_subCode = Some ''EndpointUnavailable'',
       ft_reason = Some ''''\<rparr>,
     \<lparr>ft_fault_code = WSMAN_ACCESS_DENIED, ft_http_code = WSMAN_STATUS_UNAUTHORIZED,
       ft_fault_action = Some WSMAN_ACTION_FAULT, ft_subCodeNs = Some XML_NS_WS_MAN,
       ft_code = Some FAULT_SENDER_CODE, ft_subCode = Some ''AccessDenied'',
       ft_reason = Some ''The sender was not authorized to access the resource.''\<rparr>,
     \<lparr>ft_fault_code = WSA_ACTION_NOT_SUPPORTED, ft_http_code = WSMAN_STATUS_NOT_IMPLEMENTED,
       ft_fault_action = Some WSA_ACTION_FAULT, ft_subCodeNs = Some XML_NS_ADDRESSING,
       ft_code = Some FAULT_SENDER_CODE, ft_subCode = Some ''ActionNotSupported'',
       ft_reason = Some ''The action is not supported by the service.''\<rparr>,
     \<lparr>ft_fault_code = WSMAN_ALREADY_EXISTS, ft_http_code = WSMAN_STATUS_BAD_REQUEST,
       ft_fault_action = Some WSMAN_ACTION_FAULT, ft_subCodeNs = Some XML_NS_WS_MAN,
       ft_code = Some FAULT_SENDER_CODE, ft_subCode = Some ''AlreadyExists'',
       ft_reason = Some ''The sender attempted to create a resource which already exists.''\<rparr>,
     \<lparr>ft_fault_code = WSEN_CANNOT_PROCESS_FILTER, ft_http_code = WSMAN_STATUS_UNPROCESSABLE_ENTITY,
       ft_fault_action = Some WSENUM_ACTION_FAULT, ft_subCodeNs = Some XML_NS_ENUMERATION,
       ft_code = Some FAULT_SENDER_CODE, ft_subCode = Some ''CannotProcessFilter'',
       ft_reason = Some ''The requested filter could not be processed.''\<rparr>,
     \<lparr>ft_fault_code = WSMAN_CANNOT_PROCESS_FILTER, ft_http_code = WSMAN_STATUS_UNPROCESSABLE_ENTITY,
       ft_fault_action = Some WSMAN_ACTION_FAULT, ft_subCodeNs = Some XML_NS_WS_MAN,
       ft_code = Some FAULT_SENDER_CODE, ft_subCode = Some ''CannotProcessFilter'',
       ft_reason = Some ''The requested filter could not be processed.''\<rparr>,
     \<lparr>ft_fault_code = WSMAN_CONCURRENCY, ft_http_code = WSMAN_STATUS_CONFLICT,
       ft_fault_action = Some WSMAN_ACTION_FAULT, ft_subCodeNs = Some XML_NS_WS_MAN,
       ft_code = Some FAULT_SENDER_CODE, ft_subCode = Some ''Concurrency'',
       ft_reason = Some ''The action could not be completed due to concurrency or locking problems.''\<rparr>,
     \<lparr>ft_fault_code = WSA_DESTINATION_UNREACHABLE, ft_http_code = WSMAN_STATUS_SERVICE_UNAVAILABLE,
       ft_fault_action = Some WSA_ACTION_FAULT, ft_subCodeNs = Some XML_NS_ADDRESSING,
       ft_code = Some FAULT_SENDER_CODE, ft_subCode = Some ''DestinationUnreachable'',
       ft_reason = Some ''No route can be determined to reach the destination role defined by the WS-Addressing To.''\<rparr>,
     \<lparr>ft_fault_code = WSMAN_ENCODING_LIMIT, ft_http_code = WSMAN_STATUS_REQUEST_ENTITY_TOO_LARGE,
       ft_fault_action = Some WSMAN_ACTION_FAULT, ft_subCodeNs = Some XML_NS_WS_MAN,
       ft_code = Some FAULT_SENDER_CODE, ft_subCode = Some ''EncodingLimit'',
       ft_reason = Some ''An internal encoding limit was exceeded in a request or would be violated if the message were processed.''\<rparr>,
     \<lparr>ft_fault_code = WSA_ENDPOINT_UNAVAILABLE, ft_http_code = WSMAN_STATUS_SERVICE_UNAVAILABLE,
       ft_fault_action = Some WSA_ACTION_FAULT, ft_subCodeNs = Some XML_NS_ADDRESSING,
       ft_code = Some FAULT_RECEIVER_CODE, ft_subCode = Some ''EndpointUnavailable'',
       ft_reason = Some ''The specified endpoint is currently unavailable.''\<rparr>,
     \<lparr>ft_fault_code = WSEN_FILTER_DIALECT_REQUESTED_UNAVAILABLE, ft_http_code = WSMAN_STATUS_NOT_IMPLEMENTED,
       ft_fault_action = Some WSENUM_ACTION_FAULT, ft_subCodeNs = Some XML_NS_ENUMERATION,
       ft_code = Some FAULT_SENDER_CODE, ft_subCode = Some ''FilterDialectRequestedUnavailable'',
       ft_reason = Some ''The requested filtering dialect is not supported.''\<rparr>,
     \<lparr>ft_fault_code = WSEN_FILTERING_NOT_SUPPORTED, ft_http_code = WSMAN_STATUS_NOT_IMPLEMENTED,
       ft_fault_action = Some WSENUM_ACTION_FAULT, ft_subCodeNs = Some XML_NS_ENUMERATION,
       ft_code = Some FAULT_SENDER_CODE, ft_subCode = Some ''FilteringNotSupported'',
       ft_reason = Some ''Filtered enumeration is not supported.''\<rparr>]"

definition fault_code_table_2 :: "WsmanFaultCodeTable list" where
  "fault_code_table_2 =
    [\<lparr>ft_fault_code = WSMAN_FRAGMENT_DIALECT_NOT_SUPPORTED, ft_http_code = WSMAN_STATUS_NOT_IMPLEMENTED,
       ft_fault_action = Some WSMAN_ACTION_FAULT, ft_subCodeNs = Some XML_NS_WS_MAN,
       ft_code = Some FAULT_RECEIVER_CODE, ft_subCode = Some ''FragmentDialectNotSupported'',
       ft_reason = Some ''The requested fragment filtering dialect or language is not supported.''\<rparr>,
     \<lparr>ft_fault_code = WSMAN_INTERNAL_ERROR, ft_http_code = WSMAN_STATUS_INTERNAL_SERVER_ERROR,
       ft_fault_action = Some WSMAN_ACTION_FAULT, ft_subCodeNs = Some XML_NS_WS_MAN,
       ft_code = Some FAULT_RECEIVER_CODE, ft_subCode = Some ''InternalError'',
       ft_reason = Some ''The service cannot comply with the request due to internal processing errors.''\<rparr>,
     \<lparr>ft_fault_code = WSEN_INVALID_ENUMERATION_CONTEXT, ft_http_code = WSMAN_STATUS_BAD_REQUEST,
       ft_fault_action = Some WSENUM_ACTION_FAULT, ft_subCodeNs = Some XML_NS_ENUMERATION,
       ft_code = Some FAULT_RECEIVER_CODE, ft_subCode = Some ''InvalidEnumerationContext'',
       ft_reason = Some ''The supplied enumeration context is invalid.''\<rparr>,
     \<lparr>ft_fault_code = WSA_INVALID_MESSAGE_INFORMATION_HEADER, ft_http_code = WSMAN_STATUS_BAD_REQUEST,
       ft_fault_action = Some WSA_ACTION_FAULT, ft_subCodeNs = Some XML_NS_ADDRESSING,
       ft_code = Some FAULT_SENDER_CODE, ft_subCode = Some ''InvalidMessageInformationHeader'',
       ft_reason = Some ''A message information header is not valid and the message cannot be processed.''\<rparr>,
     \<lparr>ft_fault_code = WSMAN_INVALID_OPTIONS, ft_http_code = WSMAN_STATUS_BAD_REQUEST,
       ft_fault_action = Some WSMAN_ACTION_FAULT, ft_subCodeNs = Some XML_NS_WS_MAN,
       ft_code = Some FAULT_SENDER_CODE, ft_subCode = Some ''InvalidOptions'',
       ft_reason = Some ''One or more options are not valid.''\<rparr>,
     \<lparr>ft_fault_code = WSMAN_INVALID_PARAMETER, ft_http_code = WSMAN_STATUS_BAD_REQUEST,
       ft_fault_action = Some WSMAN_ACTION_FAULT, ft_subCodeNs = Some XML_NS_WS_MAN,
       ft_code = Some FAULT_SENDER_CODE, ft_subCode = Some ''InvalidParameter'',
       ft_reason = Some ''An operation parameter is not valid.''\<rparr>,
     \<lparr>ft_fault_code = WXF_INVALID_REPRESENTATION, ft_http_code = WSMAN_STATUS_BAD_REQUEST,
       ft_fault_action = Some WSXF_ACTION_FAULT, ft_subCodeNs = Some XML_NS_TRANSFER,
       ft_code = Some FAULT_SENDER_CODE, ft_subCode = Some ''InvalidRepresentation'',
       ft_reason = Some ''The XML content is not valid.''\<rparr>,
     \<lparr>ft_fault_code = WSMAN_INVALID_SELECTORS, ft_http_code = WSMAN_STATUS_BAD_REQUEST,
       ft_fault_action = Some WSMAN_ACTION_FAULT, ft_subCodeNs = Some XML_NS_WS_MAN,
       ft_code = Some FAULT_SENDER_CODE, ft_subCode = Some ''InvalidSelectors'',
       ft_reason = Some ''The Selectors for the resource are not valid.''\<rparr>,
     \<lparr>ft_fault_code = WSA_MESSAGE_INFORMATION_HEADER_REQUIRED, ft_http_code = WSMAN_STATUS_BAD_REQUEST,
       ft_fault_action = Some WSA_ACTION_FAULT, ft_subCodeNs = Some XML_NS_ADDRESSING,
       ft_code = Some FAULT_SENDER_CODE, ft_subCode = Some ''MessageInformationHeaderRequired'',
       ft_reason = Some ''A required header is missing.''\<rparr>,
     \<lparr>ft_fault_code = WSMAN_NO_ACK, ft_http_code = WSMAN_STATUS_BAD_REQUEST,
       ft_fault_action = Some WSMAN_ACTION_FAULT, ft_subCodeNs = Some XML_NS_WS_MAN,
       ft_code = Some FAULT_SENDER_CODE, ft_subCode = Some ''NoAck'',
       ft_reason = Some ''The receiver did not acknowledge the event delivery.''\<rparr>,
     \<lparr>ft_fault_code = WSMAN_QUOTA_LIMIT, ft_http_code = WSMAN_STATUS_BAD_REQUEST,
       ft_fault_action = Some WSMAN_ACTION_FAULT, ft_subCodeNs = Some XML_NS_WS_MAN,
       ft_code = Some FAULT_SENDER_CODE, ft_subCode = Some ''QuotaLimit'',
       ft_reason = Some ''The service is busy servicing other requests.''\<rparr>,
     \<lparr>ft_fault_code = WSMAN_SCHEMA_VALIDATION_ERROR, ft_http_code = WSMAN_STATUS_BAD_REQUEST,
       ft_fault_action = Some WSMAN_ACTION_FAULT, ft_subCodeNs = Some XML_NS_WS_MAN,
       ft_code = Some FAULT_SENDER_CODE, ft_subCode = Some ''SchemaValidationError'',
       ft_reason = Some ''The supplied SOAP violates the corresponding XML schema definition.''\<rparr>,
     \<lparr>ft_fault_code = WSEN_TIMED_OUT, ft_http_code = WSMAN_STATUS_REQUEST_TIMEOUT,
       ft_fault_action = Some WSENUM_ACTION_FAULT, ft_subCodeNs = Some XML_NS_ENUMERATION,
       ft_code = Some FAULT_RECEIVER_CODE, ft_subCode = Some ''TimedOut'',
       ft_reason = Some ''The enumerator has timed out and is no longer valid.''\<rparr>]"

definition fault_code_table_3 :: "WsmanFaultCodeTable list" where
  "fault_code_table_3 =
    [\<lparr>ft_fault_code = WSMAN_TIMED_OUT, ft_http_code = WSMAN_STATUS_REQUEST_TIMEOUT,
       ft_fault_action = Some WSMAN_ACTION_FAULT, ft_subCodeNs = Some XML_NS_WS_MAN,
       ft_code = Some FAULT_RECEIVER_CODE, ft_subCode = Some ''TimedOut'',
       ft_reason = Some ''The operation has timed out.''\<rparr>,
     \<lparr>ft_fault_code = WSEN_UNSUPPORTED_EXPIRATION_TYPE, ft_http_code = WSMAN_STATUS_BAD_REQUEST,
       ft_fault_action = Some WSENUM_ACTION_FAULT, ft_subCodeNs = Some XML_NS_ENUMERATION,
       ft_code = Some FAULT_RECEIVER_CODE, ft_subCode = Some ''UnsupportedExpirationType'',
       ft_reason = Some ''The specified expiration type is not supported.''\<rparr>,
     \<lparr>ft_fault_code = WSMAN_UNSUPPORTED_FEATURE, ft_http_code = WSMAN_STATUS_BAD_REQUEST,
       ft_fault_action = Some WSMAN_ACTION_FAULT, ft_subCodeNs = Some XML_NS_WS_MAN,
       ft_code = Some FAULT_SENDER_CODE, ft_subCode = Some ''UnsupportedFeature'',
       ft_reason = Some ''The specified feature is not supported.''\<rparr>,
     \<lparr>ft_fault_code = WSMAN_UNSUPPORTED_FEATURE, ft_http_code = WSMAN_STATUS_NOT_IMPLEMENTED,
       ft_fault_action = Some WSMAN_ACTION_FAULT, ft_subCodeNs = Some XML_NS_CIM_BINDING,
       ft_code = Some FAULT_RECEIVER_CODE, ft_subCode = Some ''PolymorphismModeNotSupported'',
       ft_reason = Some ''The specified feature is not supported.''\<rparr>,
     \<lparr>ft_fault_code = WSMAN_EVENT_DELIVER_TO_UNUSABLE, ft_http_code = WSMAN_STATUS_BAD_REQUEST,
       ft_fault_action = Some WSMAN_ACTION_FAULT, ft_subCodeNs = Some XML_NS_CIM_BINDING,
       ft_code = Some FAULT_RECEIVER_CODE, ft_subCode = Some ''DevliveryToUnusable'',
       ft_reason = Some ''The wse:NotifyTo address is not usable because it is incorrect''\<rparr>,
     \<lparr>ft_fault_code = WSMB_POLYMORPHISM_MODE_NOT_SUPPORTED, ft_http_code = WSMAN_STATUS_NOT_IMPLEMENTED,
       ft_fault_action = Some WSMB_ACTION_FAULT, ft_subCodeNs = Some XML_NS_WS_MAN,
       ft_code = Some FAULT_RECEIVER_CODE, ft_subCode = Some ''UnsupportedFeature'',
       ft_reason = Some ''The specified feature is not supported.''\<rparr>,
     \<lparr>ft_fault_code = WSE_INVALID_EXPIRATION_TIME, ft_http_code = WSMAN_STATUS_BAD_REQUEST,
       ft_fault_action = Some WSEVENT_ACTION_FAULT, ft_subCodeNs = Some XML_NS_EVENTING,
       ft_code = Some FAULT_SENDER_CODE, ft_subCode = Some ''InvalidExpirationTime'',
       ft_reason = Some ''The expiration time is invalid''\<rparr>,
     \<lparr>ft_fault_code = WSE_DELIVERY_MODE_REQUESTED_UNAVAILABLE, ft_http_code = WSMAN_STATUS_BAD_REQUEST,
       ft_fault_action = Some WSEVENT_ACTION_FAULT, ft_subCodeNs = Some XML_NS_EVENTING,
       ft_code = Some FAULT_SENDER_CODE, ft_subCode = Some ''DeliveryModeRequestedUnavailable'',
       ft_reason = Some ''The requested delivery mode is not supported''\<rparr>,
     \<lparr>ft_fault_code = WSE_FILTERING_NOT_SUPPORTED, ft_http_code = WSMAN_STATUS_BAD_REQUEST,
       ft_fault_action = Some WSEVENT_ACTION_FAULT, ft_subCodeNs = Some XML_NS_EVENTING,
       ft_code = Some FAULT_SENDER_CODE, ft_subCode = Some ''FilteringNotSupported'',
       ft_reason = Some ''Filtering over the event source is not supported''\<rparr>,
     \<lparr>ft_fault_code = WSE_INVALID_MESSAGE, ft_http_code = WSMAN_STATUS_BAD_REQUEST,
       ft_fault_action = Some WSEVENT_ACTION_FAULT, ft_subCodeNs = Some XML_NS_EVENTING,
       ft_code = Some FAULT_SENDER_CODE, ft_subCode = Some ''InvalidMessage'',
       ft_reason = Some ''The request message has unknown or invalid content and cannot be processed.''\<rparr>,
     \<lparr>ft_fault_code = WSMAN_UNKNOWN, ft_http_code = WSMAN_STATUS_NOT_FOUND,
       ft_fault_action = None, ft_subCodeNs = None,
       ft_code = None, ft_subCode = None,
       ft_reason = None\<rparr>]"

definition fault_code_table :: "WsmanFaultCodeTable list" where
  "fault_code_table = fault_code_table_1 @ fault_code_table_2 @ fault_code_table_3"

section \<open>Lookups\<close>

text \<open>\<open>sizeof\<close> of the table counts the final \<open>WSMAN_UNKNOWN\<close> row too; the first match wins.\<close>

definition find_fault :: "WsmanFaultCodeType \<Rightarrow> WsmanFaultCodeTable option" where
  "find_fault faultCode = find (\<lambda>row. ft_fault_code row = faultCode) fault_code_table"

definition wsman_find_httpcode_for_fault_code :: "WsmanFaultCodeType \<Rightarrow> int" where
  "wsman_find_httpcode_for_fault_code faultCode =
     (case find_fault faultCode of
        None \<Rightarrow> WSMAN_STATUS_INTERNAL_SERVER_ERROR
      | Some row \<Rightarrow> ft_http_code row)"

text \<open>The HTTP status derived from the \<open>Value\<close> of a fault document; \<open>xp\<close> is the result of the
  XPath query.\<close>

definition wsman_find_httpcode_for_value :: "string option \<Rightarrow> int" where
  "wsman_find_httpcode_for_value xp =
     (case xp of
        None \<Rightarrow> WSMAN_STATUS_OK
      | Some v \<Rightarrow>
          if strcmp v FAULT_RECEIVER_CODE_NS = 0 then WSMAN_STATUS_INTERNAL_SERVER_ERROR
          else if strcmp v FAULT_SENDER_CODE_NS = 0 then WSMAN_STATUS_BAD_REQUEST
          else WSMAN_STATUS_OK)"

record WsmanStatus =
  fault_code :: WsmanFaultCodeType
  fault_detail_code :: WsmanFaultDetailType
  fault_msg :: "string option"

definition wsman_status_init :: WsmanStatus where
  "wsman_status_init =
     \<lparr>fault_code = WSMAN_RC_OK, fault_detail_code = WSMAN_DETAIL_OK, fault_msg = None\<rparr>"

definition wsman_fault_occured :: "WsmanStatus \<Rightarrow> bool" where
  "wsman_fault_occured st = (if fault_code st = WSMAN_RC_OK then False else True)"

definition wsman_set_fault ::
  "WsmanStatus \<Rightarrow> WsmanFaultCodeType \<Rightarrow> WsmanFaultDetailType \<Rightarrow> string option \<Rightarrow> WsmanStatus" where
  "wsman_set_fault st code detail details =
     (if \<not> wsman_fault_occured st then
        (let st = st\<lparr>fault_code := code, fault_detail_code := detail\<rparr> in
         case details of None \<Rightarrow> st | Some d \<Rightarrow> st\<lparr>fault_msg := Some d\<rparr>)
      else st)"

text \<open>The table loop of \<open>wsman_get_fault_status_from_doc\<close>.  A row whose \<open>subCode\<close> is
  \<open>NULL\<close> makes \<open>strcmp\<close> dereference a null pointer.\<close>

fun subcode_loop :: "string \<Rightarrow> WsmanFaultCodeTable list \<Rightarrow> WsmanStatus \<Rightarrow> WsmanStatus option" where
  "subcode_loop msg [] st = Some st"
| "subcode_loop msg (row # rows) st =
     (case ft_subCode row of
        None \<Rightarrow> None
      | Some sc \<Rightarrow>
          if strcmp msg sc = 0
          then Some (st\<lparr>fault_code := ft_fault_code row, fault_detail_code := WSMAN_DETAIL_OK,
                        fault_msg := None\<rparr>)
          else subcode_loop msg rows st)"

text \<open>\<open>strchr(subcode_value, ':')\<close> and the text after it.\<close>

fun after_colon :: "string \<Rightarrow> string option" where
  "after_colon [] = None"
| "after_colon (c # cs) = (if c = CHR '':'' then Some cs else after_colon cs)"

definition wsman_get_fault_status_from_doc ::
  "string option \<Rightarrow> WsmanStatus \<Rightarrow> WsmanStatus option" where
  "wsman_get_fault_status_from_doc subcode_value st =
     (case subcode_value of
        None \<Rightarrow> Some st
      | Some v \<Rightarrow>
          if v = [] then Some st
          else (case after_colon v of
                  None \<Rightarrow> Some st
                | Some msg \<Rightarrow> subcode_loop msg fault_code_table st))"

section \<open>What the tables contain\<close>

lemmas fault_rows = fault_code_table_def fault_code_table_1_def fault_code_table_2_def
  fault_code_table_3_def

lemma find_fault_code: "find_fault c = Some row \<Longrightarrow> ft_fault_code row = c"
  by (auto simp: find_fault_def find_Some_iff)

lemma fault_code_keys:
  "map ft_fault_code fault_code_table =
    [SOAP_FAULT_MUSTUNDERSTAND, WSA_ENDPOINT_UNAVAILABLE, WSMAN_ACCESS_DENIED,
     WSA_ACTION_NOT_SUPPORTED, WSMAN_ALREADY_EXISTS, WSEN_CANNOT_PROCESS_FILTER,
     WSMAN_CANNOT_PROCESS_FILTER, WSMAN_CONCURRENCY, WSA_DESTINATION_UNREACHABLE,
     WSMAN_ENCODING_LIMIT, WSA_ENDPOINT_UNAVAILABLE, WSEN_FILTER_DIALECT_REQUESTED_UNAVAILABLE,
     WSEN_FILTERING_NOT_SUPPORTED, WSMAN_FRAGMENT_DIALECT_NOT_SUPPORTED, WSMAN_INTERNAL_ERROR,
     WSEN_INVALID_ENUMERATION_CONTEXT, WSA_INVALID_MESSAGE_INFORMATION_HEADER,
     WSMAN_INVALID_OPTIONS, WSMAN_INVALID_PARAMETER, WXF_INVALID_REPRESENTATION,
     WSMAN_INVALID_SELECTORS, WSA_MESSAGE_INFORMATION_HEADER_REQUIRED, WSMAN_NO_ACK,
     WSMAN_QUOTA_LIMIT, WSMAN_SCHEMA_VALIDATION_ERROR, WSEN_TIMED_OUT, WSMAN_TIMED_OUT,
     WSEN_UNSUPPORTED_EXPIRATION_TYPE, WSMAN_UNSUPPORTED_FEATURE, WSMAN_UNSUPPORTED_FEATURE,
     WSMAN_EVENT_DELIVER_TO_UNUSABLE, WSMB_POLYMORPHISM_MODE_NOT_SUPPORTED,
     WSE_INVALID_EXPIRATION_TIME, WSE_DELIVERY_MODE_REQUESTED_UNAVAILABLE,
     WSE_FILTERING_NOT_SUPPORTED, WSE_INVALID_MESSAGE, WSMAN_UNKNOWN]"
  by (simp add: fault_rows)

lemma find_fault_keys: "find_fault c = None \<longleftrightarrow> c \<notin> set (map ft_fault_code fault_code_table)"
  by (auto simp: find_fault_def find_None_iff)

lemma find_fault_None:
  "find_fault c = None \<longleftrightarrow>
     c \<in> {WSMAN_RC_OK, WSMAN_DELIVERY_REFUSED, WSE_EVENT_SOURCE_UNABLE_TO_PROCESS,
          WSE_FILTERING_REQUESTED_UNAVAILABLE, WSMAN_INVALID_BOOKMARK, WSEN_INVALID_EXPIRATION_TIME,
          WSE_UNABLE_TO_RENEW, WSE_UNSUPPORTED_EXPIRATION_TYPE, SOAP_FAULT_VERSION_MISMATCH}"
  unfolding find_fault_keys fault_code_keys by (cases c) simp_all

lemma fault_detail_layout: "map fst fault_detail_table = [0..<65]"
  by (simp add: fault_detail_table_def upt_rec)

lemma fault_rows_complete:
  "\<forall>row \<in> set fault_code_table. ft_fault_code row \<noteq> WSMAN_UNKNOWN \<longrightarrow>
     ft_code row \<noteq> None \<and> ft_subCode row \<noteq> None \<and> ft_fault_action row \<noteq> None \<and>
     ft_subCodeNs row \<noteq> None \<and> ft_reason row \<noteq> None"
  by (simp add: fault_rows)

lemma find_fault_fields:
  assumes "find_fault c = Some row" "c \<noteq> WSMAN_UNKNOWN"
  shows "ft_code row \<noteq> None \<and> ft_subCode row \<noteq> None \<and> ft_fault_action row \<noteq> None \<and>
    ft_subCodeNs row \<noteq> None \<and> ft_reason row \<noteq> None"
proof -
  have "row \<in> set fault_code_table"
    using assms by (auto simp: find_fault_def find_Some_iff)
  then show ?thesis
    using fault_rows_complete find_fault_code [OF assms(1)] assms(2) by blast
qed

lemma subcode_loop_find:
  "subcode_loop msg rows st =
     (case find (\<lambda>row. ft_subCode row = None \<or> ft_subCode row = Some msg) rows of
        None \<Rightarrow> Some st
      | Some row \<Rightarrow>
          if ft_subCode row = None then None
          else Some (st\<lparr>fault_code := ft_fault_code row, fault_detail_code := WSMAN_DETAIL_OK,
                        fault_msg := None\<rparr>))"
  by (induction rows) (auto split: option.splits)

definition fault_subcodes :: "string option list" where
  "fault_subcodes = map ft_subCode fault_code_table"

lemma fault_subcodes_last: "None \<in> set fault_subcodes"
  by (simp add: fault_subcodes_def fault_rows)

lemma subcode_loop_None:
  "subcode_loop msg fault_code_table st = None \<longleftrightarrow>
     find (\<lambda>sc. sc = None \<or> sc = Some msg) fault_subcodes = Some None"
proof -
  have "find (\<lambda>sc. sc = None \<or> sc = Some msg) (map ft_subCode rows) =
     map_option ft_subCode (find (\<lambda>row. ft_subCode row = None \<or> ft_subCode row = Some msg) rows)"
    for rows :: "WsmanFaultCodeTable list"
    by (induction rows) auto
  then show ?thesis
    by (auto simp: subcode_loop_find fault_subcodes_def split: option.splits)
qed

lemma find_None_last:
  assumes "\<forall>x \<in> set xs. x \<noteq> None"
  shows "find (\<lambda>sc. sc = None \<or> sc = Some msg) (xs @ [None]) = Some None \<longleftrightarrow> Some msg \<notin> set xs"
  using assms by (induction xs) auto

lemma fault_subcodes_snoc:
  "fault_subcodes = butlast fault_subcodes @ [None]" "\<forall>x \<in> set (butlast fault_subcodes). x \<noteq> None"
  by (simp_all add: fault_subcodes_def fault_rows)

section \<open>Properties\<close>

text \<open>C18: Reading the fault status of a reply runs off the end of the table into the row whose
  \<open>subCode\<close> is \<open>NULL\<close>, and crashes in \<open>strcmp\<close>, exactly for the prefixed subcodes that no row
  lists; for every other reply it returns.\<close>

theorem fault_status_crashes_iff:
  "wsman_get_fault_status_from_doc (Some v) st = None \<longleftrightarrow>
     (\<exists>msg. after_colon v = Some msg \<and> Some msg \<notin> set fault_subcodes)"
proof -
  have "subcode_loop msg fault_code_table st = None \<longleftrightarrow> Some msg \<notin> set fault_subcodes" for msg
  proof -
    have "Some msg \<in> set fault_subcodes \<longleftrightarrow> Some msg \<in> set (butlast fault_subcodes)"
      by (subst fault_subcodes_snoc(1)) simp
    moreover have "find (\<lambda>sc. sc = None \<or> sc = Some msg) fault_subcodes = Some None \<longleftrightarrow>
        Some msg \<notin> set (butlast fault_subcodes)"
      by (subst fault_subcodes_snoc(1)) (rule find_None_last [OF fault_subcodes_snoc(2)])
    ultimately show ?thesis
      by (simp add: subcode_loop_None)
  qed
  then show ?thesis
    by (cases v) (auto simp: wsman_get_fault_status_from_doc_def split: option.splits)
qed

text \<open>The fault codes whose subcode an earlier row of the table already uses.\<close>

definition shadowed_codes :: "WsmanFaultCodeType list" where
  "shadowed_codes = [WSMAN_CANNOT_PROCESS_FILTER, WSMAN_TIMED_OUT,
     WSMB_POLYMORPHISM_MODE_NOT_SUPPORTED, WSE_FILTERING_NOT_SUPPORTED, WSMAN_UNKNOWN]"

definition decoded_code :: "string \<Rightarrow> WsmanFaultCodeType option" where
  "decoded_code msg =
     map_option ft_fault_code
       (find (\<lambda>row. ft_subCode row = None \<or> ft_subCode row = Some msg) fault_code_table)"

lemma decoded_code_rows:
  "list_all (\<lambda>row. case ft_subCode row of
       None \<Rightarrow> True
     | Some sc \<Rightarrow> ft_fault_code row \<in> set shadowed_codes \<or> decoded_code sc = Some (ft_fault_code row))
   fault_code_table"
  by code_simp

lemma fault_subcode_decodes:
  assumes "find_fault c = Some row" "ft_subCode row = Some sc" "c \<notin> set shadowed_codes"
    and "CHR '':'' \<notin> set prefix"
  shows "\<exists>st'. wsman_get_fault_status_from_doc (Some (prefix @ CHR '':'' # sc)) st = Some st' \<and>
    fault_code st' = c \<and> fault_detail_code st' = WSMAN_DETAIL_OK"
proof -
  have row: "row \<in> set fault_code_table" "ft_fault_code row = c"
    using assms(1) by (auto simp: find_fault_def find_Some_iff)
  then have "decoded_code sc = Some c"
    using decoded_code_rows assms(2,3) by (auto simp: list_all_iff split: option.splits)
  then obtain r where r: "find (\<lambda>row. ft_subCode row = None \<or> ft_subCode row = Some sc)
      fault_code_table = Some r" "ft_fault_code r = c"
    by (auto simp: decoded_code_def)
  have "c \<noteq> WSMAN_UNKNOWN"
    using assms(3) by (auto simp: shadowed_codes_def)
  moreover have "r \<in> set fault_code_table"
    using r(1) by (auto simp: find_Some_iff)
  ultimately have "ft_subCode r \<noteq> None"
    using fault_rows_complete r(2) by blast
  moreover have "after_colon (prefix @ CHR '':'' # sc) = Some sc"
    using assms(4) by (induction prefix) auto
  ultimately show ?thesis
    using r by (simp add: wsman_get_fault_status_from_doc_def subcode_loop_find)
qed



end
