(* ===== verification/Ws_Xml.thy ===== *)
theory Ws_Xml
  imports Ws_Names Ow_Prelude "HOL-Library.State_Monad"
begin

text \<open>
  The XML layer: \<open>src/src/lib/wsman-xml.c\<close> and the parts of
  \<open>src/src/lib/wsman-libxml2-binding.c\<close> that walk or extend a document.  An \<open>xmlNode\<close> is a value
  of the nested datatype \<open>xnode\<close>: an element with the namespace URI it is bound to, its local
  name, its attributes and its children in document order, or character data.  A node handle that
  may be \<open>NULL\<close> is an \<open>xnode option\<close>.

  What libxml2 itself computes is a parameter: \<open>xmllib\<close> collects \<open>xmlNodeGetContent\<close> and the
  children that \<open>xmlNodeSetContent\<close> builds from a string.  The namespace declarations that the
  code keeps at the root of a document under construction are the state of a state monad.

  The lemmas characterise child access and tree search against reference definitions on lists,
  describe which element each SOAP accessor answers, and show that the namespace prefixes chosen
  while a document is built stay unambiguous.
\<close>

section \<open>Nodes\<close>

record xattr =
  xa_ns :: "string option"
  xa_name :: string
  xa_value :: string

datatype xnode = Elem "string option" string "xattr list" "xnode list" | Text string

record xmllib =
  xmlNodeGetContent :: "xnode \<Rightarrow> string option"
  xmlNodeSetContent :: "string \<Rightarrow> xnode list"

fun is_element :: "xnode \<Rightarrow> bool" where
  "is_element (Elem ns name attrs kids) = True"
| "is_element (Text s) = False"

fun kids :: "xnode \<Rightarrow> xnode list" where
  "kids (Elem ns name attrs cs) = cs"
| "kids (Text s) = []"

fun attrs :: "xnode \<Rightarrow> xattr list" where
  "attrs (Elem ns name as cs) = as"
| "attrs (Text s) = []"

section \<open>Reading\<close>

fun node_query_ns :: "xnode \<Rightarrow> string option" where
  "node_query_ns (Elem ns name as cs) = ns"
| "node_query_ns (Text s) = None"

fun node_query_name :: "xnode \<Rightarrow> string" where
  "node_query_name (Elem ns name as cs) = name"
| "node_query_name (Text s) = ''text''"

definition ws_xml_get_node_name_ns :: "xnode option \<Rightarrow> string option" where
  "ws_xml_get_node_name_ns node = (case node of None \<Rightarrow> None | Some n \<Rightarrow> node_query_ns n)"

definition ws_xml_get_node_local_name :: "xnode option \<Rightarrow> string option" where
  "ws_xml_get_node_local_name node =
     (case node of None \<Rightarrow> None | Some n \<Rightarrow> Some (node_query_name n))"

definition ws_xml_get_node_text :: "xmllib \<Rightarrow> xnode option \<Rightarrow> string option" where
  "ws_xml_get_node_text L node = (case node of None \<Rightarrow> None | Some n \<Rightarrow> xmlNodeGetContent L n)"

definition ws_xml_is_node_qname :: "xnode option \<Rightarrow> string option \<Rightarrow> string option \<Rightarrow> bool" where
  "ws_xml_is_node_qname node nsUri name =
     (case node of
        None \<Rightarrow> False
      | Some n \<Rightarrow>
          (let nodeNsUri = node_query_ns n in
           if nsUri = None \<or> nsUri = nodeNsUri \<or>
              (case (nsUri, nodeNsUri) of (Some a, Some b) \<Rightarrow> strcmp b a = 0 | _ \<Rightarrow> False)
           then (case name of None \<Rightarrow> True | Some nm \<Rightarrow> strcmp nm (node_query_name n) = 0)
           else False))"

text \<open>\<open>xml_parser_node_get\<close> with an index: the \<open>which\<close>-th child that is an element.\<close>

fun node_get_loop :: "nat \<Rightarrow> nat \<Rightarrow> xnode list \<Rightarrow> xnode option" where
  "node_get_loop which cnt [] = None"
| "node_get_loop which cnt (n # next) =
     (if is_element n then
        (if cnt = which then Some n else node_get_loop which (cnt + 1) next)
      else node_get_loop which cnt next)"

definition xml_parser_node_get :: "xnode \<Rightarrow> nat \<Rightarrow> xnode option" where
  "xml_parser_node_get base which = node_get_loop which 0 (kids base)"

fun xml_parser_get_count_nodes :: "xnode list \<Rightarrow> int" where
  "xml_parser_get_count_nodes [] = 0"
| "xml_parser_get_count_nodes (n # next) =
     (if is_element n then 1 + xml_parser_get_count_nodes next else xml_parser_get_count_nodes next)"

definition ws_xml_get_child_count :: "xnode option \<Rightarrow> int" where
  "ws_xml_get_child_count parent =
     (case parent of None \<Rightarrow> 0 | Some p \<Rightarrow> xml_parser_get_count_nodes (kids p))"

text \<open>The sibling walk of \<open>ws_xml_get_child\<close>: the list is the current node and what follows it;
  \<open>xml_parser_get_first_child\<close> and \<open>xml_parser_get_next_child\<close> skip what is not an element.\<close>

fun get_child_loop ::
  "nat \<Rightarrow> string option \<Rightarrow> string option \<Rightarrow> nat \<Rightarrow> xnode list \<Rightarrow> xnode option" where
  "get_child_loop index nsUri localName cnt [] = None"
| "get_child_loop index nsUri localName cnt (node # next) =
     (if \<not> is_element node then get_child_loop index nsUri localName cnt next
      else if ws_xml_is_node_qname (Some node) nsUri localName then
        (if cnt = index then Some node
         else get_child_loop index nsUri localName (cnt + 1) next)
      else get_child_loop index nsUri localName cnt next)"

definition ws_xml_get_child ::
  "xnode option \<Rightarrow> int \<Rightarrow> string option \<Rightarrow> string option \<Rightarrow> xnode option" where
  "ws_xml_get_child parent index nsUri localName =
     (case parent of
        None \<Rightarrow> None
      | Some p \<Rightarrow>
          if index \<ge> 0 then
            (if nsUri = None \<and> localName = None then xml_parser_node_get p (nat index)
             else get_child_loop (nat index) nsUri localName 0 (kids p))
          else None)"

fun count_qname_loop :: "string option \<Rightarrow> string option \<Rightarrow> int \<Rightarrow> xnode list \<Rightarrow> int" where
  "count_qname_loop nsUri name cnt [] = cnt"
| "count_qname_loop nsUri name cnt (node # next) =
     (if \<not> is_element node then count_qname_loop nsUri name cnt next
      else if ws_xml_is_node_qname (Some node) nsUri name
      then count_qname_loop nsUri name (cnt + 1) next
      else count_qname_loop nsUri name cnt next)"

definition ws_xml_get_child_count_by_qname ::
  "xnode option \<Rightarrow> string option \<Rightarrow> string option \<Rightarrow> int" where
  "ws_xml_get_child_count_by_qname parent nsUri name =
     (case parent of
        None \<Rightarrow> 0
      | Some p \<Rightarrow>
          if nsUri = None \<and> name = None then ws_xml_get_child_count parent
          else count_qname_loop nsUri name 0 (kids p))"

text \<open>\<open>ws_xml_enum_tree\<close> and \<open>ws_xml_enum_children\<close> with the callback of
  \<open>ws_xml_find_in_tree\<close>: the first node in document order on which the callback answers 1.\<close>

fun enum_tree :: "(xnode \<Rightarrow> bool) \<Rightarrow> bool \<Rightarrow> xnode \<Rightarrow> xnode option"
  and enum_children :: "(xnode \<Rightarrow> bool) \<Rightarrow> bool \<Rightarrow> xnode list \<Rightarrow> xnode option" where
  "enum_tree callback recursive (Elem ns name as cs) =
     (if callback (Elem ns name as cs) then Some (Elem ns name as cs)
      else if recursive then enum_children callback recursive cs else None)"
| "enum_tree callback recursive (Text s) =
     (if callback (Text s) then Some (Text s) else None)"
| "enum_children callback recursive [] = None"
| "enum_children callback recursive (n # next) =
     (if is_element n then
        (case enum_tree callback recursive n of
           Some r \<Rightarrow> Some r
         | None \<Rightarrow> enum_children callback recursive next)
      else enum_children callback recursive next)"

definition ws_xml_find_in_tree ::
  "xnode option \<Rightarrow> string option \<Rightarrow> string option \<Rightarrow> bool \<Rightarrow> xnode option" where
  "ws_xml_find_in_tree head nsUri localName recursive =
     (case head of
        None \<Rightarrow> None
      | Some h \<Rightarrow> enum_tree (\<lambda>n. ws_xml_is_node_qname (Some n) nsUri localName) recursive h)"

subsection \<open>SOAP envelopes\<close>

type_synonym xdoc = "xnode option"

definition ws_xml_get_soap_envelope :: "xdoc \<Rightarrow> xnode option" where
  "ws_xml_get_soap_envelope root =
     (if ws_xml_is_node_qname root (Some XML_NS_SOAP_1_2) (Some SOAP_ENVELOPE) \<or>
         ws_xml_is_node_qname root (Some XML_NS_SOAP_1_1) (Some SOAP_ENVELOPE)
      then root else None)"

definition ws_xml_get_soap_element :: "xdoc \<Rightarrow> string \<Rightarrow> xnode option" where
  "ws_xml_get_soap_element doc name =
     (let env = ws_xml_get_soap_envelope doc in
      if env = None then None
      else
        let soapUri = ws_xml_get_node_name_ns env;
            node = ws_xml_get_child env 0 None None in
        if node = None then None
        else if \<not> ws_xml_is_node_qname node soapUri (Some name) then
          (if strcmp name SOAP_HEADER \<noteq> 0 then
             let node = ws_xml_get_child env 1 None None in
             if node \<noteq> None \<and> \<not> ws_xml_is_node_qname node soapUri (Some name) then None else node
           else node)
        else node)"

definition ws_xml_get_soap_header :: "xdoc \<Rightarrow> xnode option" where
  "ws_xml_get_soap_header doc = ws_xml_get_soap_element doc SOAP_HEADER"

definition ws_xml_get_soap_body :: "xdoc \<Rightarrow> xnode option" where
  "ws_xml_get_soap_body doc = ws_xml_get_soap_element doc SOAP_BODY"

subsection \<open>Attributes\<close>

fun find_node_attr_loop :: "string option \<Rightarrow> string \<Rightarrow> xattr list \<Rightarrow> xattr option" where
  "find_node_attr_loop attrNs attrName [] = None"
| "find_node_attr_loop attrNs attrName (attr # rest) =
     (if (attrNs = xa_ns attr \<or>
          (case (attrNs, xa_ns attr) of (Some a, Some b) \<Rightarrow> strcmp b a = 0 | _ \<Rightarrow> False)) \<and>
         strcmp attrName (xa_name attr) = 0
      then Some attr
      else find_node_attr_loop attrNs attrName rest)"

definition ws_xml_find_node_attr :: "xnode option \<Rightarrow> string option \<Rightarrow> string \<Rightarrow> xattr option" where
  "ws_xml_find_node_attr node attrNs attrName =
     (case node of None \<Rightarrow> None | Some n \<Rightarrow> find_node_attr_loop attrNs attrName (attrs n))"

definition ws_xml_find_attr_value :: "xnode option \<Rightarrow> string option \<Rightarrow> string \<Rightarrow> string option" where
  "ws_xml_find_attr_value node ns attrName =
     map_option xa_value (ws_xml_find_node_attr node ns attrName)"

definition is_xml_val_true :: "string option \<Rightarrow> bool" where
  "is_xml_val_true text =
     (case text of
        None \<Rightarrow> False
      | Some t \<Rightarrow>
          if dropWhile c_isdigit t \<noteq> []
          then strcasecmp t ''true'' = 0 \<or> strcasecmp t ''yes'' = 0
          else atoi t \<noteq> 0)"

definition ws_xml_find_attr_bool :: "xnode option \<Rightarrow> string option \<Rightarrow> string \<Rightarrow> bool" where
  "ws_xml_find_attr_bool node ns attrName =
     (let val = ws_xml_find_attr_value node ns attrName in
      if val \<noteq> None then is_xml_val_true val else False)"

definition ws_xml_find_attr_ulong :: "xnode option \<Rightarrow> string option \<Rightarrow> string \<Rightarrow> ulong" where
  "ws_xml_find_attr_ulong node ns attrName =
     (case ws_xml_find_attr_value node ns attrName of
        None \<Rightarrow> 0
      | Some val \<Rightarrow> word_of_int (atoi val))"

definition ws_xml_get_node_ulong :: "xmllib \<Rightarrow> xnode option \<Rightarrow> ulong" where
  "ws_xml_get_node_ulong L node =
     (case ws_xml_get_node_text L node of
        None \<Rightarrow> 0
      | Some text \<Rightarrow> word_of_int (atoi text))"

section \<open>Building\<close>

text \<open>The namespace declarations at the root of a document under construction, in order, and the
  counter for generated prefixes.\<close>

record nsdoc =
  nd_defs :: "(string \<times> string) list"
  prefixIndex :: ulong

definition g_wsNsData :: "(string \<times> string) list" where
  "g_wsNsData =
     [(XML_NS_SOAP_1_2, ''s''), (XML_NS_ADDRESSING, ''wsa''), (XML_NS_EVENTING, ''wse''),
      (XML_NS_ENUMERATION, ''wsen''), (XML_NS_SCHEMA_INSTANCE, ''xsi''),
      (XML_NS_CIM_SCHEMA, ''cim''), (XML_NS_WS_MAN_CAT, ''cat''), (XML_NS_WSMAN_ID, ''wsmid''),
      (XML_NS_XML_SCHEMA, ''xs''), (XML_NS_WS_MAN, ''wsman''), (XML_NS_CIM_BINDING, ''wsmb''),
      (XML_NS_OPENWSMAN, ''owsman''), (XML_NS_TRANSFER, ''wxf''), (XML_NS_XML_NAMESPACES, ''xml'')]"

text \<open>The caller's buffer has 12 bytes, so a generated prefix is cut to 11 characters.\<close>

definition ws_xml_make_default_prefix :: "string \<Rightarrow> (nsdoc, string) state" where
  "ws_xml_make_default_prefix uri =
     (case find (\<lambda>nsd. strcmp uri (fst nsd) = 0) g_wsNsData of
        Some nsd \<Rightarrow> State_Monad.return (snd nsd)
      | None \<Rightarrow> do {
          nd \<leftarrow> State_Monad.get;
          let nd = nd\<lparr>prefixIndex := prefixIndex nd + 1\<rparr>;
          State_Monad.set nd;
          State_Monad.return (take 11 (CHR ''n'' # show_nat (unat (prefixIndex nd))))
        })"

text \<open>A declaration that is already there gets the new prefix.  A new one is made by \<open>xmlNewNs\<close>,
  which refuses the reserved prefix \<open>xml\<close>; the namespace made up for it is not linked to the node.
  \<open>xmlNewNs\<close> also refuses a prefix that the node declares already; the lemma \<open>ns_find_fresh\<close> below
  shows that the code never asks for one.\<close>

definition xml_parser_ns_add :: "string \<Rightarrow> string \<Rightarrow> nsdoc \<Rightarrow> nsdoc" where
  "xml_parser_ns_add uri prefix nd =
     (if map_of (nd_defs nd) uri \<noteq> None
      then nd\<lparr>nd_defs := map (\<lambda>(u, p). if u = uri then (u, prefix) else (u, p)) (nd_defs nd)\<rparr>
      else if strcmp prefix ''xml'' = 0 \<and> strcmp uri XML_NS_XML_NAMESPACES = 0 then nd
      else nd\<lparr>nd_defs := nd_defs nd @ [(uri, prefix)]\<rparr>)"

text \<open>\<open>xml_parser_ns_find\<close> with both flags set: search up to the root, declare there when missing.\<close>

definition xml_parser_ns_find :: "string \<Rightarrow> (nsdoc, string) state" where
  "xml_parser_ns_find uri = do {
     nd \<leftarrow> State_Monad.get;
     case map_of (nd_defs nd) uri of
       Some prefix \<Rightarrow> State_Monad.return prefix
     | None \<Rightarrow> do {
         prefix \<leftarrow> ws_xml_make_default_prefix uri;
         State_Monad.update (xml_parser_ns_add uri prefix);
         State_Monad.return prefix
       }
   }"

definition make_new_xml_node ::
  "xmllib \<Rightarrow> string option \<Rightarrow> string \<Rightarrow> string option \<Rightarrow> (nsdoc, xnode) state" where
  "make_new_xml_node L uri name value = do {
     (case uri of None \<Rightarrow> State_Monad.return [] | Some u \<Rightarrow> xml_parser_ns_find u);
     State_Monad.return
       (Elem uri name [] (case value of None \<Rightarrow> [] | Some v \<Rightarrow> xmlNodeSetContent L v))
   }"

text \<open>The tree updates that \<open>xmlAddChild\<close>, \<open>xmlNodeSetContent\<close> and \<open>xmlNewNsProp\<close> make.\<close>

fun add_kid :: "xnode \<Rightarrow> xnode \<Rightarrow> xnode" where
  "add_kid (Elem ns name as cs) c = Elem ns name as (cs @ [c])"
| "add_kid (Text s) c = Text s"

fun set_kids :: "xnode \<Rightarrow> xnode list \<Rightarrow> xnode" where
  "set_kids (Elem ns name as cs) cs' = Elem ns name as cs'"
| "set_kids (Text s) cs' = Text s"

fun add_attr :: "xnode \<Rightarrow> xattr \<Rightarrow> xnode" where
  "add_attr (Elem ns name as cs) a = Elem ns name (as @ [a]) cs"
| "add_attr (Text s) a = Text s"

text \<open>Adding a leaf to \<open>node\<close>; the result is the extended node.\<close>

definition ws_xml_add_child ::
  "xmllib \<Rightarrow> xnode \<Rightarrow> string option \<Rightarrow> string \<Rightarrow> string option \<Rightarrow> (nsdoc, xnode) state" where
  "ws_xml_add_child L node nsUri localName val = do {
     c \<leftarrow> make_new_xml_node L nsUri localName val;
     State_Monad.return (add_kid node c)
   }"

definition make_qname :: "string \<Rightarrow> string \<Rightarrow> (nsdoc, string) state" where
  "make_qname uri name = do {
     prefix \<leftarrow> xml_parser_ns_find uri;
     State_Monad.return (prefix @ CHR '':'' # name)
   }"

definition ws_xml_set_node_text :: "xmllib \<Rightarrow> xnode \<Rightarrow> string option \<Rightarrow> xnode" where
  "ws_xml_set_node_text L node text =
     set_kids node (case text of None \<Rightarrow> [] | Some t \<Rightarrow> xmlNodeSetContent L t)"

definition ws_xml_set_node_qname_val ::
  "xmllib \<Rightarrow> xnode option \<Rightarrow> string \<Rightarrow> string option \<Rightarrow> (nsdoc, xnode option) state" where
  "ws_xml_set_node_qname_val L node valNsUri valName =
     (case (node, valName) of
        (Some n, Some nm) \<Rightarrow> do {
          buf \<leftarrow> make_qname valNsUri nm;
          State_Monad.return (Some (ws_xml_set_node_text L n (Some buf)))
        }
      | _ \<Rightarrow> State_Monad.return node)"

text \<open>The test of \<open>ws_xml_add_qname_child\<close> is \<open>node == NULL\<close>, as in the source.\<close>

definition ws_xml_add_qname_child ::
  "xmllib \<Rightarrow> string \<Rightarrow> string \<Rightarrow> string \<Rightarrow> string option \<Rightarrow> (nsdoc, xnode option) state" where
  "ws_xml_add_qname_child L nameNs name valueNs value = do {
     n \<leftarrow> make_new_xml_node L (Some nameNs) name None;
     let node = Some n;
     if node = None then ws_xml_set_node_qname_val L node valueNs value
     else State_Monad.return node
   }"

text \<open>A new document starts without declarations; \<open>ws_xml_set_node_name\<close> then finds the
  declaration that was just made, or in the case of the reserved namespace makes it up again.\<close>

definition empty_nsdoc :: nsdoc where
  "empty_nsdoc = \<lparr>nd_defs = [], prefixIndex = 0\<rparr>"

definition ws_xml_create_doc :: "string option \<Rightarrow> string \<Rightarrow> (nsdoc, xnode) state" where
  "ws_xml_create_doc rootNsUri rootName = do {
     State_Monad.set empty_nsdoc;
     case rootNsUri of
       None \<Rightarrow> State_Monad.return (Elem None rootName [] [])
     | Some uri \<Rightarrow> do {
         prefix \<leftarrow> ws_xml_make_default_prefix uri;
         State_Monad.update (xml_parser_ns_add uri prefix);
         xml_parser_ns_find uri;
         State_Monad.return (Elem (Some uri) rootName [] [])
       }
   }"

definition ws_xml_create_envelope :: "xmllib \<Rightarrow> (nsdoc, xnode) state" where
  "ws_xml_create_envelope L = do {
     root \<leftarrow> ws_xml_create_doc (Some XML_NS_SOAP_1_2) SOAP_ENVELOPE;
     root \<leftarrow> ws_xml_add_child L root (Some XML_NS_SOAP_1_2) ''Header'' None;
     ws_xml_add_child L root (Some XML_NS_SOAP_1_2) ''Body'' None
   }"

text \<open>The walk of \<open>ws_xml_add_child_sort\<close> over the children: the new node goes in front of the
  first element whose name is greater.\<close>

fun insert_sorted_kid :: "xnode \<Rightarrow> string \<Rightarrow> xnode list \<Rightarrow> xnode list option" where
  "insert_sorted_kid newNode localName [] = None"
| "insert_sorted_kid newNode localName (child # next) =
     (if is_element child \<and> strcmp localName (node_query_name child) < 0
      then Some (newNode # child # next)
      else map_option (Cons child) (insert_sorted_kid newNode localName next))"

definition ws_xml_add_child_sort ::
  "xmllib \<Rightarrow> xnode \<Rightarrow> string option \<Rightarrow> string \<Rightarrow> string option \<Rightarrow> (nsdoc, xnode) state" where
  "ws_xml_add_child_sort L node nsUri localName val = do {
     newNode \<leftarrow> make_new_xml_node L nsUri localName val;
     State_Monad.return
       (if ws_xml_get_child_count (Some node) = 0 then add_kid node newNode
        else case insert_sorted_kid newNode localName (kids node) of
               Some cs \<Rightarrow> set_kids node cs
             | None \<Rightarrow> add_kid node newNode)
   }"

text \<open>Numbers are printed into a 12-byte buffer; the result is the return code and the node.\<close>

definition ws_xml_set_node_ulong :: "xmllib \<Rightarrow> xnode \<Rightarrow> ulong \<Rightarrow> int \<times> xnode" where
  "ws_xml_set_node_ulong L node uVal =
     (let buf = show_nat (unat uVal) in
      if length buf \<ge> 12 then (- 1, node) else (0, ws_xml_set_node_text L node (Some buf)))"

definition check_envelope_size :: "(xnode \<Rightarrow> int) \<Rightarrow> xnode \<Rightarrow> 32 word \<Rightarrow> bool" where
  "check_envelope_size dump_len doc maxsize = (maxsize \<noteq> 0 \<and> maxsize < word_of_int (dump_len doc))"

text \<open>The attributes of an element have distinct names, so \<open>xml_parser_attr_add\<close> always appends
  while \<open>ws_xml_duplicate_attr\<close> copies them to a new node.\<close>

definition duplicate_attr :: "xattr \<Rightarrow> (nsdoc, xattr) state" where
  "duplicate_attr a = do {
     (case xa_ns a of None \<Rightarrow> State_Monad.return [] | Some u \<Rightarrow> xml_parser_ns_find u);
     State_Monad.return a
   }"

fun duplicate_attrs :: "xattr list \<Rightarrow> (nsdoc, xattr list) state" where
  "duplicate_attrs [] = State_Monad.return []"
| "duplicate_attrs (a # as) = do {
     a' \<leftarrow> duplicate_attr a;
     as' \<leftarrow> duplicate_attrs as;
     State_Monad.return (a' # as')
   }"

text \<open>\<open>ws_xml_duplicate_tree\<close> returns the node that it adds to the destination.  Children that are
  not elements are dropped; the text is copied when there is no element child.\<close>

fun ws_xml_duplicate_tree :: "xmllib \<Rightarrow> xnode \<Rightarrow> (nsdoc, xnode) state"
  and ws_xml_duplicate_children :: "xmllib \<Rightarrow> xnode list \<Rightarrow> (nsdoc, xnode list) state" where
  "ws_xml_duplicate_tree L (Elem ns name as cs) = do {
     node \<leftarrow> make_new_xml_node L ns name None;
     as' \<leftarrow> duplicate_attrs as;
     cs' \<leftarrow> ws_xml_duplicate_children L cs;
     let node = Elem ns name as' cs';
     State_Monad.return
       (if cs' = [] then ws_xml_set_node_text L node (ws_xml_get_node_text L (Some (Elem ns name as cs)))
        else node)
   }"
| "ws_xml_duplicate_tree L (Text s) = State_Monad.return (Text s)"
| "ws_xml_duplicate_children L [] = State_Monad.return []"
| "ws_xml_duplicate_children L (n # next) =
     (if is_element n then do {
        n' \<leftarrow> ws_xml_duplicate_tree L n;
        next' \<leftarrow> ws_xml_duplicate_children L next;
        State_Monad.return (n' # next')
      }
      else ws_xml_duplicate_children L next)"

definition ws_xml_duplicate_doc :: "xmllib \<Rightarrow> xdoc \<Rightarrow> (nsdoc, xdoc) state" where
  "ws_xml_duplicate_doc L srcDoc =
     (case srcDoc of
        None \<Rightarrow> State_Monad.return None
      | Some srcRoot \<Rightarrow> do {
          dstRoot \<leftarrow> ws_xml_create_doc (node_query_ns srcRoot) (node_query_name srcRoot);
          cs \<leftarrow> ws_xml_duplicate_children L (kids srcRoot);
          State_Monad.return (Some (set_kids dstRoot cs))
        })"

section \<open>Child access and search\<close>

lemma ws_xml_is_node_qname_eq:
  "ws_xml_is_node_qname (Some n) nsUri name \<longleftrightarrow>
     (nsUri = None \<or> nsUri = node_query_ns n) \<and> (name = None \<or> name = Some (node_query_name n))"
  by (auto simp: ws_xml_is_node_qname_def Let_def split: option.splits)

lemma ws_xml_is_node_qname_None [simp]: "\<not> ws_xml_is_node_qname None nsUri name"
  by (simp add: ws_xml_is_node_qname_def)

abbreviation elements :: "xnode list \<Rightarrow> xnode list" where
  "elements \<equiv> filter is_element"

lemma node_get_loop_nth:
  "cnt \<le> which \<Longrightarrow> node_get_loop which cnt ns =
     (if which - cnt < length (elements ns) then Some (elements ns ! (which - cnt)) else None)"
  by (induction which cnt ns rule: node_get_loop.induct) (auto simp: nth_Cons' Suc_diff_Suc)

lemma get_child_loop_nth:
  "cnt \<le> index \<Longrightarrow> get_child_loop index nsUri localName cnt ns =
     (let cs = filter (\<lambda>n. ws_xml_is_node_qname (Some n) nsUri localName) (elements ns) in
      if index - cnt < length cs then Some (cs ! (index - cnt)) else None)"
  by (induction index nsUri localName cnt ns rule: get_child_loop.induct)
    (auto simp: Let_def nth_Cons' Suc_diff_Suc)

lemma ws_xml_get_child_NULL [simp]: "ws_xml_get_child None index nsUri localName = None"
  by (simp add: ws_xml_get_child_def)

lemma ws_xml_get_child_nth:
  "ws_xml_get_child (Some p) index nsUri localName =
     (let cs = filter (\<lambda>n. ws_xml_is_node_qname (Some n) nsUri localName) (elements (kids p)) in
      if 0 \<le> index \<and> nat index < length cs then Some (cs ! nat index) else None)"
proof (cases "nsUri = None \<and> localName = None")
  case True
  then have "filter (\<lambda>n. ws_xml_is_node_qname (Some n) nsUri localName) (elements (kids p)) =
      elements (kids p)"
    by (simp add: ws_xml_is_node_qname_eq)
  then show ?thesis
    using True node_get_loop_nth [of 0 "nat index" "kids p"]
    by (auto simp: ws_xml_get_child_def xml_parser_node_get_def Let_def)
next
  case False
  then show ?thesis
    using get_child_loop_nth [of 0 "nat index" nsUri localName "kids p"]
    by (auto simp: ws_xml_get_child_def Let_def)
qed

lemma ws_xml_get_child_Some:
  assumes "ws_xml_get_child parent index nsUri localName = Some c"
  shows "\<exists>p. parent = Some p \<and> c \<in> set (kids p) \<and> is_element c \<and>
    ws_xml_is_node_qname (Some c) nsUri localName"
proof -
  obtain p where p: "parent = Some p"
    using assms by (cases parent) auto
  let ?cs = "filter (\<lambda>n. ws_xml_is_node_qname (Some n) nsUri localName) (elements (kids p))"
  have "c = ?cs ! nat index" "nat index < length ?cs"
    using assms unfolding p ws_xml_get_child_nth Let_def by (metis option.distinct(1) option.inject)+
  then have "c \<in> set ?cs"
    by (metis nth_mem)
  then show ?thesis
    using p by auto
qed

lemma ws_xml_get_child_0:
  "ws_xml_get_child (Some p) 0 nsUri localName =
     find (\<lambda>n. is_element n \<and> ws_xml_is_node_qname (Some n) nsUri localName) (kids p)"
proof -
  have "find (\<lambda>n. P n \<and> Q n) xs =
      (let cs = filter Q (filter P xs) in if cs = [] then None else Some (hd cs))" for P Q :: "xnode \<Rightarrow> bool" and xs
    by (induction xs) (auto simp: Let_def)
  then show ?thesis
    by (auto simp: ws_xml_get_child_nth Let_def hd_conv_nth)
qed

lemma count_qname_loop_length:
  "count_qname_loop nsUri name cnt ns =
     cnt + int (length (filter (\<lambda>n. ws_xml_is_node_qname (Some n) nsUri name) (elements ns)))"
  by (induction nsUri name cnt ns rule: count_qname_loop.induct) auto

lemma get_count_nodes_length: "xml_parser_get_count_nodes ns = int (length (elements ns))"
  by (induction ns) auto

lemma ws_xml_get_child_count_by_qname_length:
  "ws_xml_get_child_count_by_qname (Some p) nsUri name =
     int (length (filter (\<lambda>n. ws_xml_is_node_qname (Some n) nsUri name) (elements (kids p))))"
proof (cases "nsUri = None \<and> name = None")
  case True
  then have "filter (\<lambda>n. ws_xml_is_node_qname (Some n) nsUri name) (elements (kids p)) = elements (kids p)"
    by (simp add: ws_xml_is_node_qname_eq)
  then show ?thesis
    using True by (simp add: ws_xml_get_child_count_by_qname_def ws_xml_get_child_count_def
        get_count_nodes_length)
qed (auto simp: ws_xml_get_child_count_by_qname_def count_qname_loop_length)

text \<open>The elements of a tree in document order.\<close>

fun preorder :: "xnode \<Rightarrow> xnode list" and preorders :: "xnode list \<Rightarrow> xnode list" where
  "preorder (Elem ns name as cs) = Elem ns name as cs # preorders cs"
| "preorder (Text s) = []"
| "preorders [] = []"
| "preorders (n # next) = preorder n @ preorders next"

lemma find_append: "find P (xs @ ys) = (case find P xs of None \<Rightarrow> find P ys | Some x \<Rightarrow> Some x)"
  by (induction xs) auto

lemma enum_tree_find:
  "is_element n \<Longrightarrow> enum_tree P True n = find P (preorder n)"
  "enum_children P True ns = find P (preorders ns)"
proof (induction n and ns rule: preorder_preorders.induct)
  case (4 n ns)
  then show ?case by (cases n) (auto simp: find_append split: option.splits)
qed (auto simp: find_append split: option.splits)

section \<open>Namespace prefixes\<close>

text \<open>Invariant of a document under construction: no URI and no prefix is declared twice, a URI of
  the table has the prefix of the table, and every other URI has a generated prefix that is not
  above the counter.\<close>

definition ns_decl_ok :: "ulong \<Rightarrow> string \<times> string \<Rightarrow> bool" where
  "ns_decl_ok idx d \<longleftrightarrow>
     (case find (\<lambda>nsd. strcmp (fst d) (fst nsd) = 0) g_wsNsData of
        Some nsd \<Rightarrow> snd d = snd nsd
      | None \<Rightarrow> (\<exists>k \<le> unat idx. snd d = take 11 (CHR ''n'' # show_nat k)))"

definition nsdoc_ok :: "nsdoc \<Rightarrow> bool" where
  "nsdoc_ok nd \<longleftrightarrow>
     distinct (map fst (nd_defs nd)) \<and> distinct (map snd (nd_defs nd)) \<and>
     list_all (ns_decl_ok (prefixIndex nd)) (nd_defs nd)"

lemma g_wsNsData_uris: "distinct (map fst g_wsNsData)"
  by (simp add: g_wsNsData_def ws_names)

lemma g_wsNsData_prefixes: "distinct (map snd g_wsNsData)"
  by (simp add: g_wsNsData_def)

lemma g_wsNsData_not_n: "nsd \<in> set g_wsNsData \<Longrightarrow> snd nsd \<noteq> CHR ''n'' # xs"
  by (auto simp: g_wsNsData_def)

lemma find_ns_table_iff:
  "find (\<lambda>nsd. uri = fst nsd) g_wsNsData = Some nsd \<longleftrightarrow> nsd \<in> set g_wsNsData \<and> fst nsd = uri"
proof -
  have "find (\<lambda>d. uri = fst d) xs = Some nsd \<longleftrightarrow> nsd \<in> set xs \<and> fst nsd = uri"
    if "distinct (map fst xs)" for xs :: "(string \<times> string) list"
    using that by (induction xs) (auto intro: rev_image_eqI)
  then show ?thesis
    using g_wsNsData_uris by blast
qed

lemma generated_prefix_inject:
  assumes "j < 10 ^ 10" "k < 10 ^ 10"
    and "take 11 (CHR ''n'' # show_nat j) = take 11 (CHR ''n'' # show_nat k)"
  shows "j = k"
proof -
  have "length (show_nat i) \<le> 10" if "i < 10 ^ 10" for i
    using that by (rule length_show_nat) simp
  then have "show_nat j = show_nat k"
    using assms by simp
  then show ?thesis by simp
qed

text \<open>What \<open>xml_parser_ns_find\<close> answers for a URI once it has been asked for it.\<close>

definition ns_prefix :: "nsdoc \<Rightarrow> string \<Rightarrow> string option" where
  "ns_prefix nd uri = (if uri = XML_NS_XML_NAMESPACES then Some ''xml'' else map_of (nd_defs nd) uri)"

lemma run_ns_find:
  "run_state (xml_parser_ns_find uri) nd =
     (case map_of (nd_defs nd) uri of
        Some p \<Rightarrow> (p, nd)
      | None \<Rightarrow>
          (case find (\<lambda>nsd. strcmp uri (fst nsd) = 0) g_wsNsData of
             Some nsd \<Rightarrow> (snd nsd, xml_parser_ns_add uri (snd nsd) nd)
           | None \<Rightarrow>
               (let nd' = nd\<lparr>prefixIndex := prefixIndex nd + 1\<rparr>;
                    p = take 11 (CHR ''n'' # show_nat (unat (prefixIndex nd')))
                in (p, xml_parser_ns_add uri p nd'))))"
  by (simp add: xml_parser_ns_find_def ws_xml_make_default_prefix_def State_Monad.bind_def
      State_Monad.return_def State_Monad.get_def State_Monad.set_def State_Monad.update_def Let_def
      split: option.split)

lemma ns_decl_ok_mono: "ns_decl_ok i d \<Longrightarrow> unat i \<le> unat j \<Longrightarrow> ns_decl_ok j d"
  by (auto simp: ns_decl_ok_def split: option.splits intro: order_trans)

lemma ns_decl_prefix_uri:
  assumes "ns_decl_ok idx d" "ns_decl_ok idx d'" "unat idx < 10 ^ 10"
    and "find (\<lambda>nsd. strcmp (fst d) (fst nsd) = 0) g_wsNsData = Some nsd" "snd d = snd d'"
  shows "fst d = fst d'"
proof (cases "find (\<lambda>nsd. strcmp (fst d') (fst nsd) = 0) g_wsNsData")
  case None
  then obtain k where "snd d' = take 11 (CHR ''n'' # show_nat k)"
    using assms(2) by (auto simp: ns_decl_ok_def)
  then have "snd nsd = CHR ''n'' # take 10 (show_nat k)"
    using assms by (simp add: ns_decl_ok_def)
  then show ?thesis
    using g_wsNsData_not_n assms(4) by (auto simp: find_ns_table_iff)
next
  case (Some nsd')
  then have "snd nsd = snd nsd'"
    using assms by (simp add: ns_decl_ok_def)
  moreover have "nsd \<in> set g_wsNsData" "nsd' \<in> set g_wsNsData" "fst nsd = fst d" "fst nsd' = fst d'"
    using assms Some by (simp_all add: find_ns_table_iff)
  ultimately show ?thesis
    using g_wsNsData_prefixes by (metis distinct_map inj_onD)
qed

lemma map_of_append_new:
  "map_of (xs @ [(k, v)]) u = (case map_of xs u of None \<Rightarrow> if u = k then Some v else None | Some w \<Rightarrow> Some w)"
  by (induction xs) auto

lemma xml_table_row: "(XML_NS_XML_NAMESPACES, ''xml'') \<in> set g_wsNsData"
  by (simp add: g_wsNsData_def)

lemma table_xml_iff:
  "nsd \<in> set g_wsNsData \<Longrightarrow> snd nsd = ''xml'' \<longleftrightarrow> fst nsd = XML_NS_XML_NAMESPACES"
  using xml_table_row g_wsNsData_prefixes g_wsNsData_uris
  by (metis distinct_map fst_conv inj_onD snd_conv)

text \<open>The prefix for a URI that has no declaration yet is not declared: \<open>xmlNewNs\<close> does not refuse
  it.\<close>

lemma ns_find_fresh:
  assumes "nsdoc_ok nd" "unat (prefixIndex nd) + 1 < 10 ^ 10" "map_of (nd_defs nd) uri = None"
  shows "fst (run_state (xml_parser_ns_find uri) nd) \<notin> snd ` set (nd_defs nd)"
proof
  let ?i = "prefixIndex nd + 1"
  assume "fst (run_state (xml_parser_ns_find uri) nd) \<in> snd ` set (nd_defs nd)"
  then obtain d where d: "d \<in> set (nd_defs nd)" "snd d = fst (run_state (xml_parser_ns_find uri) nd)"
    by force
  have i: "unat ?i = unat (prefixIndex nd) + 1"
    using assms(2) unat_word_Suc [of "prefixIndex nd"] by simp
  have ok: "ns_decl_ok (prefixIndex nd) d" "fst d \<noteq> uri"
    using assms d by (auto simp: nsdoc_ok_def list_all_iff map_of_eq_None_iff)
  show False
  proof (cases "find (\<lambda>nsd. strcmp uri (fst nsd) = 0) g_wsNsData")
    case (Some nsd)
    then have "snd d = snd nsd"
      using d assms by (simp add: run_ns_find)
    then show ?thesis
      using ns_decl_prefix_uri [of "prefixIndex nd" "(uri, snd nsd)" d nsd] ok Some assms(2)
      by (simp add: ns_decl_ok_def)
  next
    case None
    then have p: "snd d = take 11 (CHR ''n'' # show_nat (unat ?i))"
      using d assms by (simp add: run_ns_find Let_def)
    show ?thesis
    proof (cases "find (\<lambda>nsd. strcmp (fst d) (fst nsd) = 0) g_wsNsData")
      case (Some nsd)
      then have "snd d = snd nsd" "nsd \<in> set g_wsNsData"
        using ok by (simp add: ns_decl_ok_def, simp add: find_ns_table_iff)
      then show ?thesis
        using p g_wsNsData_not_n [of nsd] by (simp add: eq_commute)
    next
      case None
      then obtain k where "k \<le> unat (prefixIndex nd)" "snd d = take 11 (CHR ''n'' # show_nat k)"
        using ok by (auto simp: ns_decl_ok_def)
      then show ?thesis
        using p generated_prefix_inject [of k "unat ?i"] i assms(2) by auto
    qed
  qed
qed

lemma ns_find_ok:
  assumes ok: "nsdoc_ok nd" and idx: "unat (prefixIndex nd) + 1 < 10 ^ 10"
    and run: "run_state (xml_parser_ns_find uri) nd = (p, nd')"
  shows "nsdoc_ok nd'" and "ns_prefix nd' uri = Some p"
    and "ns_prefix nd u = Some q \<Longrightarrow> ns_prefix nd' u = Some q"
    and "unat (prefixIndex nd') \<le> unat (prefixIndex nd) + 1"
proof -
  let ?i = "prefixIndex nd + 1"
  have i: "unat ?i = unat (prefixIndex nd) + 1"
    using idx unat_word_Suc [of "prefixIndex nd"] by simp
  have "nsdoc_ok nd' \<and> ns_prefix nd' uri = Some p \<and>
    (\<forall>u q. ns_prefix nd u = Some q \<longrightarrow> ns_prefix nd' u = Some q) \<and>
    unat (prefixIndex nd') \<le> unat (prefixIndex nd) + 1"
  proof (cases "map_of (nd_defs nd) uri")
    case (Some q)
    have "uri = XML_NS_XML_NAMESPACES \<Longrightarrow> q = ''xml''"
      using ok map_of_SomeD [OF Some] xml_table_row find_ns_table_iff [of uri "(uri, ''xml'')"]
      by (auto simp: nsdoc_ok_def list_all_iff ns_decl_ok_def)
    then show ?thesis
      using Some run ok by (auto simp: run_ns_find ns_prefix_def)
  next
    case None
    have fresh: "p \<notin> snd ` set (nd_defs nd)"
      using ns_find_fresh [OF ok idx None] run by simp
    have uri: "uri \<notin> fst ` set (nd_defs nd)"
      using None by (simp add: map_of_eq_None_iff)
    show ?thesis
    proof (cases "find (\<lambda>nsd. uri = fst nsd) g_wsNsData")
      case (Some nsd)
      then have p: "p = snd nsd" "nd' = xml_parser_ns_add uri p nd"
        using None run by (auto simp: run_ns_find)
      have table: "nsd \<in> set g_wsNsData" "uri = fst nsd"
        using Some by (auto simp: find_ns_table_iff)
      show ?thesis
      proof (cases "uri = XML_NS_XML_NAMESPACES")
        case True
        then show ?thesis
          using p table ok None table_xml_iff [of nsd] by (auto simp: xml_parser_ns_add_def ns_prefix_def)
      next
        case False
        then have "nd' = nd\<lparr>nd_defs := nd_defs nd @ [(uri, p)]\<rparr>"
          using p None by (simp add: xml_parser_ns_add_def)
        moreover have "ns_decl_ok (prefixIndex nd) (uri, p)"
          using Some p by (simp add: ns_decl_ok_def)
        ultimately show ?thesis
          using False ok fresh uri None
          by (auto simp: nsdoc_ok_def ns_prefix_def map_of_append_new simp del: map_of_append)
      qed
    next
      case none: None
      have "uri \<noteq> XML_NS_XML_NAMESPACES"
        using none xml_table_row by (auto simp: find_None_iff)
      moreover from this have nd': "nd' = nd\<lparr>prefixIndex := ?i, nd_defs := nd_defs nd @ [(uri, p)]\<rparr>"
        and p: "p = take 11 (CHR ''n'' # show_nat (unat ?i))"
        using None none run by (auto simp: run_ns_find xml_parser_ns_add_def Let_def)
      moreover have "ns_decl_ok ?i (uri, p)"
        using none p by (auto simp: ns_decl_ok_def)
      moreover have "list_all (ns_decl_ok ?i) (nd_defs nd)"
        using ok i by (auto simp: nsdoc_ok_def list_all_iff intro: ns_decl_ok_mono)
      ultimately show ?thesis
        using ok fresh uri i None
        by (auto simp: nsdoc_ok_def ns_prefix_def map_of_append_new simp del: map_of_append)
    qed
  qed
  then show "nsdoc_ok nd'" and "ns_prefix nd' uri = Some p"
    and "ns_prefix nd u = Some q \<Longrightarrow> ns_prefix nd' u = Some q"
    and "unat (prefixIndex nd') \<le> unat (prefixIndex nd) + 1"
    by blast+
qed

lemma ns_prefix_inject:
  assumes ok: "nsdoc_ok nd" and idx: "unat (prefixIndex nd) < 10 ^ 10"
    and p: "ns_prefix nd u = Some p" "ns_prefix nd v = Some p"
  shows "u = v"
proof -
  have decl: "w = XML_NS_XML_NAMESPACES \<and> p = ''xml'' \<or>
      w \<noteq> XML_NS_XML_NAMESPACES \<and> (w, p) \<in> set (nd_defs nd)" if "ns_prefix nd w = Some p" for w
    using that by (auto simp: ns_prefix_def map_of_SomeD split: if_splits)
  have xml: "(w, ''xml'') \<notin> set (nd_defs nd)" if "w \<noteq> XML_NS_XML_NAMESPACES" for w
  proof
    assume "(w, ''xml'') \<in> set (nd_defs nd)"
    then have w: "ns_decl_ok (prefixIndex nd) (w, ''xml'')"
      using ok by (auto simp: nsdoc_ok_def list_all_iff)
    have x: "find (\<lambda>nsd. strcmp (fst (XML_NS_XML_NAMESPACES, ''xml'')) (fst nsd) = 0) g_wsNsData =
        Some (XML_NS_XML_NAMESPACES, ''xml'')"
      using xml_table_row by (simp add: find_ns_table_iff)
    then have "ns_decl_ok (prefixIndex nd) (XML_NS_XML_NAMESPACES, ''xml'')"
      by (simp add: ns_decl_ok_def)
    from ns_decl_prefix_uri [OF this w idx x] that show False
      by simp
  qed
  have "distinct (map snd (nd_defs nd))"
    using ok by (simp add: nsdoc_ok_def)
  then show ?thesis
    using decl [OF p(1)] decl [OF p(2)] xml by (metis distinct_map inj_onD prod.inject snd_conv)
qed

text \<open>The prefixes that a document gets for the namespaces it uses, in the order of use.\<close>

fun ns_uses :: "string list \<Rightarrow> (nsdoc, string list) state" where
  "ns_uses [] = State_Monad.return []"
| "ns_uses (uri # uris) = do {
     p \<leftarrow> xml_parser_ns_find uri;
     ps \<leftarrow> ns_uses uris;
     State_Monad.return (p # ps)
   }"

lemma ns_uses_ok:
  assumes "nsdoc_ok nd" "unat (prefixIndex nd) + length uris < 10 ^ 10"
    and "run_state (ns_uses uris) nd = (ps, nd')"
  shows "nsdoc_ok nd' \<and> unat (prefixIndex nd') < 10 ^ 10 \<and> map (ns_prefix nd') uris = map Some ps \<and>
    (\<forall>u q. ns_prefix nd u = Some q \<longrightarrow> ns_prefix nd' u = Some q)"
  using assms
proof (induction uris arbitrary: nd ps)
  case (Cons uri uris)
  obtain p nd1 where 1: "run_state (xml_parser_ns_find uri) nd = (p, nd1)"
    by fastforce
  obtain qs nd2 where 2: "run_state (ns_uses uris) nd1 = (qs, nd2)"
    by fastforce
  have eq: "ps = p # qs" "nd' = nd2"
    using Cons.prems(3) 1 2 by (auto simp: State_Monad.bind_def State_Monad.return_def)
  have idx: "unat (prefixIndex nd) + 1 < 10 ^ 10"
    using Cons.prems(2) by simp
  note step = ns_find_ok [OF Cons.prems(1) idx 1]
  have "unat (prefixIndex nd1) + length uris < 10 ^ 10"
    using step(4) Cons.prems(2) by simp
  from Cons.IH [OF step(1) this 2 [folded eq(2)]] show ?case
    using eq step(2,3) by auto
qed (auto simp: State_Monad.return_def)

lemma empty_nsdoc_ok: "nsdoc_ok empty_nsdoc"
  by (simp add: nsdoc_ok_def empty_nsdoc_def)

text \<open>C16: In a document with fewer than ten thousand million namespaces, two uses of namespaces get
  the same prefix exactly when they are the same namespace: the 12-byte buffer for generated
  prefixes and the table of well-known prefixes never make a prefix ambiguous, and a use never
  changes the prefix that an earlier use was given.\<close>

theorem ns_prefixes_unambiguous:
  assumes "length uris < 10 ^ 10" and "run_state (ns_uses uris) empty_nsdoc = (ps, nd)"
    and "i < length uris" "j < length uris"
  shows "length ps = length uris \<and> (ps ! i = ps ! j \<longleftrightarrow> uris ! i = uris ! j) \<and>
    ns_prefix nd (uris ! i) = Some (ps ! i)"
proof -
  have "unat (prefixIndex empty_nsdoc) + length uris < 10 ^ 10"
    using assms(1) by (simp add: empty_nsdoc_def)
  note ok = ns_uses_ok [OF empty_nsdoc_ok this assms(2)]
  then have len: "length ps = length uris"
    using map_eq_imp_length_eq by fastforce
  have "ns_prefix nd (uris ! k) = Some (ps ! k)" if "k < length uris" for k
    using ok len that by (metis nth_map)
  then show ?thesis
    using assms(3,4) ok len ns_prefix_inject by (metis option.inject)
qed

theorem ns_prefixes_unambiguous_witness:
  "fst (run_state (ns_uses [''a'', XML_NS_ADDRESSING, ''a'', ''b'']) empty_nsdoc) = [''n1'', ''wsa'', ''n1'', ''n2''] \<and>
   ns_prefix (snd (run_state (ns_uses [''a'', XML_NS_ADDRESSING, ''a'', ''b'']) empty_nsdoc)) ''b'' = Some ''n2''"
proof -
  have run: "fst (run_state (ns_uses [''a'', XML_NS_ADDRESSING, ''a'', ''b'']) empty_nsdoc) = [''n1'', ''wsa'', ''n1'', ''n2'']"
    by code_simp
  with ns_prefixes_unambiguous
    [of "[''a'', XML_NS_ADDRESSING, ''a'', ''b'']" "[''n1'', ''wsa'', ''n1'', ''n2'']"
      "snd (run_state (ns_uses [''a'', XML_NS_ADDRESSING, ''a'', ''b'']) empty_nsdoc)" 3 3]
  show ?thesis
    by (simp add: prod_eq_iff)
qed

section \<open>Accessors\<close>

text \<open>C19: \<open>ws_xml_get_child\<close> answers the children that match the name and namespace pattern, in
  document order and numbered from 0: it answers a node exactly for the indices below
  \<open>ws_xml_get_child_count_by_qname\<close>, and the walk specialised for the pattern without name and
  namespace agrees with the general one.\<close>

theorem ws_xml_get_child_enumerates:
  "map (\<lambda>i. ws_xml_get_child (Some p) (int i) nsUri localName)
       [0..<nat (ws_xml_get_child_count_by_qname (Some p) nsUri localName)] =
     map Some (filter (\<lambda>n. is_element n \<and> ws_xml_is_node_qname (Some n) nsUri localName) (kids p)) \<and>
   (ws_xml_get_child (Some p) i nsUri localName \<noteq> None \<longleftrightarrow>
     0 \<le> i \<and> i < ws_xml_get_child_count_by_qname (Some p) nsUri localName)"
proof -
  let ?cs = "filter (\<lambda>n. ws_xml_is_node_qname (Some n) nsUri localName) (elements (kids p))"
  have "?cs = filter (\<lambda>n. is_element n \<and> ws_xml_is_node_qname (Some n) nsUri localName) (kids p)"
    by (simp add: conj_commute)
  then show ?thesis
    by (auto simp: ws_xml_get_child_nth ws_xml_get_child_count_by_qname_length Let_def
        intro!: nth_equalityI)
qed

text \<open>\<open>ws_xml_find_in_tree\<close> with the recursive flag answers the first matching element of the
  tree in document order, and no node exactly when no element of the tree matches.\<close>

theorem ws_xml_find_in_tree_first:
  assumes "is_element h"
  shows "ws_xml_find_in_tree (Some h) nsUri localName True =
      find (\<lambda>n. ws_xml_is_node_qname (Some n) nsUri localName) (preorder h)"
  using assms by (simp add: ws_xml_find_in_tree_def enum_tree_find)

theorem ws_xml_find_in_tree_first_witness:
  "ws_xml_find_in_tree (Some (Elem None ''a'' [] [Text ''t'', Elem None ''b'' [] [Elem (Some ''u'') ''c'' [] []], Elem None ''c'' [] []]))
     None (Some ''c'') True = Some (Elem (Some ''u'') ''c'' [] [])"
  using ws_xml_find_in_tree_first
    [of "Elem None ''a'' [] [Text ''t'', Elem None ''b'' [] [Elem (Some ''u'') ''c'' [] []], Elem None ''c'' [] []]"
      None "Some ''c''"]
  by (simp add: ws_xml_is_node_qname_eq)

lemma get_soap_header_eq:
  "ws_xml_get_soap_header doc = ws_xml_get_child (ws_xml_get_soap_envelope doc) 0 None None"
  by (auto simp: ws_xml_get_soap_header_def ws_xml_get_soap_element_def Let_def
      split: option.splits)

lemma SOAP_BODY_not_HEADER: "SOAP_BODY \<noteq> SOAP_HEADER"
  by (simp add: ws_names)

lemma get_soap_body_Some:
  assumes "ws_xml_get_soap_body doc = Some b"
  shows "\<exists>env. ws_xml_get_soap_envelope doc = Some env \<and>
    ws_xml_is_node_qname (Some b) (node_query_ns env) (Some SOAP_BODY) \<and>
    (ws_xml_get_child (Some env) 0 None None = Some b \<or> ws_xml_get_child (Some env) 1 None None = Some b)"
  using assms SOAP_BODY_not_HEADER
  by (auto simp: ws_xml_get_soap_body_def ws_xml_get_soap_element_def Let_def
      ws_xml_get_node_name_ns_def split: if_splits)

text \<open>Whenever a document has a SOAP body, the header accessor answers a node too, whatever
  that node is called: it answers the first child of the envelope, so in an envelope that starts
  with its body the body is taken for the header, and a missing header is never reported for it.\<close>

theorem soap_header_of_bodied_envelope:
  assumes "ws_xml_get_soap_body doc = Some b"
  shows "\<exists>env. ws_xml_get_soap_envelope doc = Some env \<and>
    ws_xml_get_soap_header doc = Some (hd (elements (kids env))) \<and>
    b \<in> set (take 2 (elements (kids env)))"
proof -
  obtain env where env: "ws_xml_get_soap_envelope doc = Some env"
    and b: "ws_xml_get_child (Some env) 0 None None = Some b \<or> ws_xml_get_child (Some env) 1 None None = Some b"
    using get_soap_body_Some [OF assms] by blast
  have all: "filter (\<lambda>n. ws_xml_is_node_qname (Some n) None None) xs = xs" for xs
    by (simp add: ws_xml_is_node_qname_eq)
  obtain x xs where x: "elements (kids env) = x # xs"
    using b by (cases "elements (kids env)") (auto simp: ws_xml_get_child_nth all Let_def)
  then have "b = x \<or> xs \<noteq> [] \<and> b = hd xs"
    using b by (auto simp: ws_xml_get_child_nth all Let_def hd_conv_nth split: if_splits)
  then have "b \<in> set (take 2 (x # xs))"
    by (cases xs) (auto simp: numeral_2_eq_2)
  then show ?thesis
    using env x by (simp add: get_soap_header_eq ws_xml_get_child_nth all Let_def)
qed

theorem soap_header_of_bodied_envelope_witness:
  "ws_xml_get_soap_header (Some (Elem (Some XML_NS_SOAP_1_2) SOAP_ENVELOPE [] [Elem (Some XML_NS_SOAP_1_2) SOAP_BODY [] []])) =
     Some (Elem (Some XML_NS_SOAP_1_2) SOAP_BODY [] [])"
proof -
  let ?b = "Elem (Some XML_NS_SOAP_1_2) SOAP_BODY [] []"
  let ?d = "Some (Elem (Some XML_NS_SOAP_1_2) SOAP_ENVELOPE [] [?b])"
  have "ws_xml_get_soap_body ?d = Some ?b"
    by code_simp
  from soap_header_of_bodied_envelope [OF this] show ?thesis
    by (auto simp: ws_xml_get_soap_envelope_def split: if_splits)
qed

section \<open>Numbers\<close>

text \<open>A library whose text content is the concatenation of the character data, for examples.\<close>

fun text_content :: "xnode \<Rightarrow> string" where
  "text_content (Elem ns name as cs) = concat (map text_content cs)"
| "text_content (Text s) = s"

definition plain_xmllib :: xmllib where
  "plain_xmllib = \<lparr>xmlNodeGetContent = (\<lambda>n. Some (text_content n)), xmlNodeSetContent = (\<lambda>s. [Text s])\<rparr>"

lemma atoi_show_nat:
  assumes "n < 2 ^ 31"
  shows "atoi (show_nat n) = int n"
proof -
  have digits: "takeWhile c_isdigit (show_nat n) = show_nat n"
    using show_nat_digits by simp
  obtain c cs where c: "show_nat n = c # cs" "c_isdigit c"
    using show_nat_digits [of n] show_nat_nonempty [of n] by (metis list.exhaust list.set_intros(1))
  have "\<not> c_isspace c" "c \<noteq> CHR ''-''" "c \<noteq> CHR ''+''"
    using c(2) by (auto simp: c_isdigit_def c_isspace_def less_eq_char_def)
  then have "strtol10 (show_nat n) = int n"
    using c digits digits_val_show_nat [of n] assms by (simp add: strtol10_def Let_def takeWhile_eq_all_conv [THEN iffD2])
  moreover have "signed_take_bit 31 (int n) = int n"
    using assms by (intro signed_take_bit_int_eq_self) auto
  ultimately show ?thesis
    by (simp add: atoi_def signed_of_nat)
qed

text \<open>C20: A number written with \<open>ws_xml_set_node_ulong\<close> is read back by \<open>ws_xml_get_node_ulong\<close>
  when it is below 2 to the power 31, and the writer refuses, leaving the node as it was, exactly
  when the number has twelve digits or more.  The hypothesis is that libxml2 answers the digits it
  was given.\<close>

theorem node_ulong_roundtrip:
  assumes content: "\<And>ds. (\<forall>c \<in> set ds. c_isdigit c) \<Longrightarrow>
      xmlNodeGetContent L (Elem ns name as (xmlNodeSetContent L ds)) = Some ds"
  shows "(fst (ws_xml_set_node_ulong L (Elem ns name as cs) v) = - 1 \<longleftrightarrow> 10 ^ 11 \<le> unat v) \<and>
    (10 ^ 11 \<le> unat v \<longrightarrow> snd (ws_xml_set_node_ulong L (Elem ns name as cs) v) = Elem ns name as cs) \<and>
    (unat v < 2 ^ 31 \<longrightarrow>
      ws_xml_get_node_ulong L (Some (snd (ws_xml_set_node_ulong L (Elem ns name as cs) v))) = v)"
proof -
  have len: "12 \<le> length (show_nat n) \<longleftrightarrow> 10 ^ 11 \<le> n" for n
    using length_show_nat [of n 11] length_show_nat_ge [of 11 n] by linarith
  have "ws_xml_get_node_ulong L (Some (snd (ws_xml_set_node_ulong L (Elem ns name as cs) v))) = v"
    if v: "unat v < 2 ^ 31"
  proof -
    have "\<not> 12 \<le> length (show_nat (unat v))"
      using len v by simp
    then show ?thesis
      using content [OF show_nat_digits] v
      by (simp add: ws_xml_set_node_ulong_def ws_xml_get_node_ulong_def ws_xml_get_node_text_def
          ws_xml_set_node_text_def Let_def atoi_show_nat)
  qed
  then show ?thesis
    by (auto simp: ws_xml_set_node_ulong_def Let_def len)
qed

theorem node_ulong_roundtrip_witness:
  "ws_xml_get_node_ulong plain_xmllib
     (Some (snd (ws_xml_set_node_ulong plain_xmllib (Elem None ''MaxElements'' [] []) 2026))) = 2026 \<and>
   fst (ws_xml_set_node_ulong plain_xmllib (Elem None ''MaxElements'' [] []) 100000000000) = - 1"
proof -
  have "xmlNodeGetContent plain_xmllib (Elem None ''MaxElements'' [] (xmlNodeSetContent plain_xmllib ds)) = Some ds" for ds
    by (simp add: plain_xmllib_def)
  note r = node_ulong_roundtrip [of plain_xmllib None "''MaxElements''" "[]", OF this, of "[]"]
  show ?thesis
    using r [of 2026] r [of 100000000000] by simp
qed

section \<open>Sorted insertion\<close>

abbreviation names_sorted :: "xnode list \<Rightarrow> bool" where
  "names_sorted \<equiv> sorted_wrt (\<lambda>a b. strcmp (node_query_name a) (node_query_name b) \<le> 0)"

lemma insert_sorted_kid_Some:
  assumes "insert_sorted_kid n nm cs = Some cs'" "names_sorted (elements cs)"
    and n: "is_element n" "node_query_name n = nm"
  shows "mset cs' = add_mset n (mset cs) \<and> names_sorted (elements cs')"
  using assms(1,2)
proof (induction cs arbitrary: cs')
  case (Cons c cs)
  show ?case
  proof (cases "is_element c \<and> strcmp nm (node_query_name c) < 0")
    case True
    then show ?thesis
      using Cons.prems n strcmp_trans [of nm "node_query_name c"] by auto
  next
    case False
    then obtain ds where ds: "insert_sorted_kid n nm cs = Some ds" "cs' = c # ds"
      using Cons.prems by auto
    have sorted: "names_sorted (elements cs)"
      using Cons.prems(2) by (auto split: if_splits)
    note IH = Cons.IH [OF ds(1) sorted]
    have "set ds = insert n (set cs)"
      using IH by (metis set_mset_add_mset_insert set_mset_mset)
    then show ?thesis
      using IH ds(2) False Cons.prems(2) n strcmp_swap [of nm "node_query_name c"] by auto
  qed
qed simp

lemma insert_sorted_kid_None:
  "insert_sorted_kid n nm cs = None \<Longrightarrow> c \<in> set cs \<Longrightarrow> is_element c \<Longrightarrow>
     strcmp (node_query_name c) nm \<le> 0"
  by (induction n nm cs rule: insert_sorted_kid.induct)
    (use strcmp_swap [of "node_query_name c"] in \<open>auto split: if_splits simp: add_eq_0_iff\<close>)

text \<open>\<open>ws_xml_add_child_sort\<close> keeps the element children in the order of their names: into a
  node whose children are sorted it inserts one new child, loses none, and leaves the children
  sorted.\<close>

theorem ws_xml_add_child_sort_sorted:
  assumes "names_sorted (elements cs)"
    and "run_state (ws_xml_add_child_sort L (Elem ns name as cs) nsUri localName val) nd = (node, nd')"
  shows "\<exists>new cs'. node = Elem ns name as cs' \<and> mset cs' = add_mset new (mset cs) \<and>
    names_sorted (elements cs') \<and> is_element new \<and> ws_xml_is_node_qname (Some new) nsUri (Some localName)"
proof -
  let ?new = "Elem nsUri localName [] (case val of None \<Rightarrow> [] | Some v \<Rightarrow> xmlNodeSetContent L v)"
  have node: "node = (if ws_xml_get_child_count (Some (Elem ns name as cs)) = 0 then Elem ns name as (cs @ [?new])
     else case insert_sorted_kid ?new localName cs of Some cs' \<Rightarrow> Elem ns name as cs' | None \<Rightarrow> Elem ns name as (cs @ [?new]))"
    using assms(2)
    by (auto simp: ws_xml_add_child_sort_def make_new_xml_node_def State_Monad.bind_def
        State_Monad.return_def split: option.splits prod.splits)
  have empty: "ws_xml_get_child_count (Some (Elem ns name as cs)) = 0 \<longleftrightarrow> elements cs = []"
    by (simp add: ws_xml_get_child_count_def get_count_nodes_length)
  have new: "is_element ?new" "ws_xml_is_node_qname (Some ?new) nsUri (Some localName)"
    by (auto simp: ws_xml_is_node_qname_eq)
  show ?thesis
  proof (cases "elements cs \<noteq> [] \<and> insert_sorted_kid ?new localName cs \<noteq> None")
    case True
    then obtain cs' where cs': "insert_sorted_kid ?new localName cs = Some cs'" "node = Elem ns name as cs'"
      using node empty by auto
    then show ?thesis
      using insert_sorted_kid_Some [OF cs'(1) assms(1)] new by auto
  next
    case False
    then have "node = Elem ns name as (cs @ [?new])"
      using node empty by (auto split: option.splits)
    moreover have "names_sorted (elements (cs @ [?new]))"
      using False assms(1) insert_sorted_kid_None [of ?new localName cs]
      by (auto simp: sorted_wrt_append filter_empty_conv)
    ultimately show ?thesis
      using new by (intro exI [of _ ?new] exI [of _ "cs @ [?new]"]) simp
  qed
qed

theorem ws_xml_add_child_sort_sorted_witness:
  "names_sorted (elements [Elem None ''A'' [] [], Text '' '', Elem None ''C'' [] []]) \<and>
   (\<exists>new cs'. fst (run_state (ws_xml_add_child_sort plain_xmllib
       (Elem None ''x'' [] [Elem None ''A'' [] [], Text '' '', Elem None ''C'' [] []]) None ''B'' None) empty_nsdoc) =
     Elem None ''x'' [] cs' \<and> names_sorted (elements cs') \<and> new \<in> set cs' \<and>
     ws_xml_is_node_qname (Some new) None (Some ''B''))"
proof -
  have s: "names_sorted (elements [Elem None ''A'' [] [], Text '' '', Elem None ''C'' [] []])"
    by code_simp
  from ws_xml_add_child_sort_sorted [OF s prod.collapse [symmetric], of plain_xmllib None "''x''" "[]" None "''B''" None empty_nsdoc]
  show ?thesis
    using s by (metis set_mset_mset union_single_eq_member)
qed

end
