(* ===== verification/U_Base64.thy ===== *)
theory U_Base64
  imports Ow_Prelude
begin

text \<open>
  The base64 codec of \<open>src/src/lib/u/base64.c\<close>.  Binary data are lists of 8-bit words, encoded text is a string.  The encoder keeps
  the three input bytes in an array that it does not clear between groups, so the model passes the
  array from group to group.  The decoder indexes its table with a signed \<open>char\<close>: a byte above 127
  is an access outside the table and the result is \<open>None\<close>.

  The lemmas show that decoding inverts encoding, that the output of the decoder fits the buffer
  its caller announced, and which outputs of the encoder differ from canonical base64.
\<close>

unbundle bit_operations_syntax

section \<open>Tables\<close>

definition ETable :: string where
  "ETable = ''ABCDEFGHIJKLMNOPQRSTUVWXYZabcdefghijklmnopqrstuvwxyz0123456789+/''"

abbreviation code :: "char \<Rightarrow> nat" where
  "code c \<equiv> of_char c"

text \<open>\<open>DTable\<close> as \<open>init_DTable\<close> leaves it, for the indices that a \<open>char\<close> below 128 has.\<close>

definition DTable :: "nat \<Rightarrow> byte" where
  "DTable i =
     (if code CHR ''A'' \<le> i \<and> i \<le> code CHR ''I'' then word_of_nat (0 + (i - code CHR ''A''))
      else if code CHR ''J'' \<le> i \<and> i \<le> code CHR ''R'' then word_of_nat (9 + (i - code CHR ''J''))
      else if code CHR ''S'' \<le> i \<and> i \<le> code CHR ''Z'' then word_of_nat (18 + (i - code CHR ''S''))
      else if code CHR ''a'' \<le> i \<and> i \<le> code CHR ''i'' then word_of_nat (26 + (i - code CHR ''a''))
      else if code CHR ''j'' \<le> i \<and> i \<le> code CHR ''r'' then word_of_nat (35 + (i - code CHR ''j''))
      else if code CHR ''s'' \<le> i \<and> i \<le> code CHR ''z'' then word_of_nat (44 + (i - code CHR ''s''))
      else if code CHR ''0'' \<le> i \<and> i \<le> code CHR ''9'' then word_of_nat (52 + (i - code CHR ''0''))
      else if i = code CHR ''+'' then 62
      else if i = code CHR ''/'' then 63
      else if i = code CHR ''='' then 0
      else 0x80)"

section \<open>Encoding\<close>

text \<open>One group: the array after the bytes of the group are stored, and the four characters.\<close>

definition encode_group :: "nat \<Rightarrow> byte \<Rightarrow> byte \<Rightarrow> byte \<Rightarrow> string" where
  "encode_group n in0 in1 in2 =
     (let out0 = ETable ! unat (drop_bit 2 in0 AND 0x3f);
          out1 = ETable ! unat (push_bit 4 (in0 AND 3) OR (drop_bit 4 in1 AND 0x0f));
          out2 = ETable ! unat (push_bit 2 (in1 AND 0xF) OR (drop_bit 6 in2 AND 0x03));
          out3 = ETable ! unat (in2 AND 0x3F);
          out3 = (if n < 3 then CHR ''='' else out3);
          out2 = (if n < 2 then CHR ''='' else out2)
      in [out0, out1, out2, out3])"

fun encode_loop :: "byte \<Rightarrow> byte \<Rightarrow> byte list \<Rightarrow> string" where
  "encode_loop in1 in2 [] = []"
| "encode_loop in1 in2 [a] = encode_group 1 a in1 in2"
| "encode_loop in1 in2 [a, b] = encode_group 2 a b in2"
| "encode_loop in1 in2 (a # b # c # s) = encode_group 3 a b c @ encode_loop b c s"

definition ws_base64_encode :: "byte list \<Rightarrow> string" where
  "ws_base64_encode from = encode_loop 0 0 from"

section \<open>Decoding\<close>

text \<open>The inner loop over the four characters of a group: \<open>None\<close> is an index outside the table,
  \<open>Some None\<close> a character that is not printable base64.\<close>

fun decode_chars :: "string \<Rightarrow> byte list option option" where
  "decode_chars [] = Some (Some [])"
| "decode_chars (c # cs) =
     (if code c \<ge> 128 then None
      else if DTable (code c) AND 0x80 \<noteq> 0 then Some None
      else map_option (map_option (Cons (DTable (code c)))) (decode_chars cs))"

definition decode_group :: "string \<Rightarrow> byte list \<Rightarrow> byte list" where
  "decode_group a b =
     (let o0 = push_bit 2 (b ! 0) OR drop_bit 4 (b ! 1);
          o1 = push_bit 4 (b ! 1) OR drop_bit 2 (b ! 2);
          o2 = push_bit 6 (b ! 2) OR b ! 3;
          i = (if a ! 2 = CHR ''='' then 1 else if a ! 3 = CHR ''='' then 2 else 3)
      in take i [o0, o1, o2])"

text \<open>The loop of \<open>ws_base64_decode\<close> on input of a length divisible by four.\<close>

fun decode_loop :: "string \<Rightarrow> byte list option option" where
  "decode_loop (c0 # c1 # c2 # c3 # s) =
     (case decode_chars [c0, c1, c2, c3] of
        None \<Rightarrow> None
      | Some None \<Rightarrow> Some None
      | Some (Some b) \<Rightarrow>
          map_option (map_option ((@) (decode_group [c0, c1, c2, c3] b))) (decode_loop s))"
| "decode_loop s = Some (Some [])"

text \<open>The result is what the function wrote to \<open>to\<close>; its return value is the length of that, and 0
  on every failure.\<close>

definition ws_base64_decode :: "string \<Rightarrow> nat \<Rightarrow> byte list option" where
  "ws_base64_decode from to_len =
     (if length from mod 4 \<noteq> 0 then Some []
      else if length from div 4 * 3 > to_len then Some []
      else map_option (\<lambda>r. case r of None \<Rightarrow> [] | Some out \<Rightarrow> out) (decode_loop from))"

section \<open>Decoding inverts encoding\<close>

lemma length_ETable [simp]: "length ETable = 64"
  by (simp add: ETable_def)

lemma ETable_ok:
  assumes "k < 64"
  shows "code (ETable ! k) < 128 \<and> DTable (code (ETable ! k)) = word_of_nat k \<and> ETable ! k \<noteq> CHR ''=''"
proof -
  have "list_all2 (\<lambda>c k. code c < 128 \<and> DTable (code c) = word_of_nat k \<and> c \<noteq> CHR ''='') ETable [0..<64]"
    by code_simp
  then show ?thesis
    using assms by (simp add: list_all2_conv_all_nth)
qed

lemma DTable_pad: "DTable 61 = 0" "code CHR ''='' = 61"
  by code_simp+

text \<open>The four six-bit values of a group.\<close>

abbreviation v0 :: "byte \<Rightarrow> byte" where
  "v0 a \<equiv> drop_bit 2 a AND 0x3f"

abbreviation v1 :: "byte \<Rightarrow> byte \<Rightarrow> byte" where
  "v1 a b \<equiv> push_bit 4 (a AND 3) OR (drop_bit 4 b AND 0x0f)"

abbreviation v2 :: "byte \<Rightarrow> byte \<Rightarrow> byte" where
  "v2 b c \<equiv> push_bit 2 (b AND 0xF) OR (drop_bit 6 c AND 0x03)"

abbreviation v3 :: "byte \<Rightarrow> byte" where
  "v3 c \<equiv> c AND 0x3F"

lemma byte_bit_cases: "(n :: nat) < 8 \<Longrightarrow> n \<in> {0, 1, 2, 3, 4, 5, 6, 7}"
  by auto

lemma byte_masks:
  "(0x3f :: byte) = mask 6" "(3 :: byte) = mask 2" "(0x0f :: byte) = mask 4"
  by (simp_all add: mask_eq_exp_minus_1)

lemma byte_eqI:
  assumes "\<And>n. n \<in> {0, 1, 2, 3, 4, 5, 6, 7} \<Longrightarrow> bit x n = bit y n"
  shows "x = (y :: byte)"
  using assms byte_bit_cases by (intro bit_word_eqI) simp

lemmas byte_bits = byte_masks bit_simps

lemmas byte_index = numeral_2_eq_2 numeral_3_eq_3

lemma group_bits0: "push_bit 2 (v0 a) OR drop_bit 4 (v1 a b) = a"
  by (rule byte_eqI, auto simp: byte_bits) (simp_all add: byte_index)

lemma group_bits1: "push_bit 4 (v1 a b) OR drop_bit 2 (v2 b c) = b"
  by (rule byte_eqI) (auto simp: byte_bits)

lemma group_bits2: "push_bit 6 (v2 b c) OR v3 c = c"
  by (rule byte_eqI) (auto simp: byte_bits)

lemma unat_small:
  assumes "x AND mask 6 = (x :: byte)"
  shows "unat x < 64"
proof -
  have "uint x < 2 ^ 6"
    using assms by (rule iffD1 [OF mask_eq_iff])
  then have "int (unat x) < int 64"
    by simp
  then show ?thesis
    by (simp only: of_nat_less_iff)
qed

lemma v0_masked: "v0 a AND mask 6 = v0 a"
  by (rule byte_eqI) (auto simp: byte_bits)

lemma v1_masked: "v1 a b AND mask 6 = v1 a b"
  by (rule byte_eqI) (auto simp: byte_bits)

lemma v2_masked: "v2 b c AND mask 6 = v2 b c"
  by (rule byte_eqI) (auto simp: byte_bits)

lemma v3_masked: "v3 c AND mask 6 = v3 c"
  by (rule byte_eqI) (auto simp: byte_bits)

lemmas v_masked = v0_masked v1_masked v2_masked v3_masked

text \<open>Decoding one character of a group gives the six bits back.\<close>

lemma decode_ETable:
  assumes "v AND mask 6 = (v :: byte)"
  shows "code (ETable ! unat v) < 128" "DTable (code (ETable ! unat v)) = v"
    "ETable ! unat v \<noteq> CHR ''=''" "v AND 0x80 = 0"
proof -
  show "code (ETable ! unat v) < 128" "DTable (code (ETable ! unat v)) = v" "ETable ! unat v \<noteq> CHR ''=''"
    using ETable_ok [OF unat_small [OF assms]] by (simp_all add: word_of_nat_unat)
  have "(v AND mask 6) AND 0x80 = 0"
    by (rule byte_eqI) (auto simp: bit_simps)
  then show "v AND 0x80 = 0"
    by (simp only: assms)
qed

lemma decode_encode_group:
  assumes "n = 1 \<or> n = 2 \<or> n = 3"
  shows "\<exists>b. decode_chars (encode_group n in0 in1 in2) = Some (Some b) \<and>
    decode_group (encode_group n in0 in1 in2) b = take n [in0, in1, in2]"
proof -
  define x0 x1 x2 x3 where x: "x0 = v0 in0" "x1 = v1 in0 in1" "x2 = v2 in1 in2" "x3 = v3 in2"
  have enc: "encode_group n in0 in1 in2 =
      [ETable ! unat x0, ETable ! unat x1,
       if n < 2 then CHR ''='' else ETable ! unat x2, if n < 3 then CHR ''='' else ETable ! unat x3]"
    unfolding x encode_group_def Let_def by (rule refl)
  have masked: "x0 AND mask 6 = x0" "x1 AND mask 6 = x1" "x2 AND mask 6 = x2" "x3 AND mask 6 = x3"
    unfolding x by (rule v_masked)+
  have bits: "push_bit 2 x0 OR drop_bit 4 x1 = in0" "push_bit 4 x1 OR drop_bit 2 x2 = in1"
    "push_bit 6 x2 OR x3 = in2"
    unfolding x by (rule group_bits0 group_bits1 group_bits2)+
  note dec = decode_ETable [OF masked(1)] decode_ETable [OF masked(2)] decode_ETable [OF masked(3)]
    decode_ETable [OF masked(4)]
  consider "n = 1" | "n = 2" | "n = 3"
    using assms by blast
  then show ?thesis
    unfolding enc by cases (simp_all add: dec DTable_pad decode_group_def Let_def bits not_le)
qed

lemma encode_group_Cons:
  "\<exists>c0 c1 c2 c3. encode_group n a b c = [c0, c1, c2, c3]"
  by (simp add: encode_group_def Let_def)

lemma decode_loop_group:
  assumes "n = 1 \<or> n = 2 \<or> n = 3"
  shows "decode_loop (encode_group n a b c @ s) = map_option (map_option ((@) (take n [a, b, c]))) (decode_loop s)"
proof -
  obtain c0 c1 c2 c3 where c: "encode_group n a b c = [c0, c1, c2, c3]"
    using encode_group_Cons by blast
  obtain v where "decode_chars [c0, c1, c2, c3] = Some (Some v)"
    "decode_group [c0, c1, c2, c3] v = take n [a, b, c]"
    using decode_encode_group [OF assms] c by metis
  then show ?thesis
    unfolding c append_Cons append_Nil by (simp only: decode_loop.simps option.case)
qed

lemma decode_encode_loop: "decode_loop (encode_loop in1 in2 s) = Some (Some s)"
proof (induction in1 in2 s rule: encode_loop.induct)
  case (2 in1 in2 a)
  then show ?case using decode_loop_group [of 1 a in1 in2 "[]"] by simp
next
  case (3 in1 in2 a b)
  then show ?case using decode_loop_group [of 2 a b in2 "[]"] by simp
next
  case (4 in1 in2 a b c s)
  then show ?case using decode_loop_group [of 3 a b c] by simp
qed simp

lemma length_encode_loop: "length (encode_loop in1 in2 s) = (length s + 2) div 3 * 4"
proof (induction in1 in2 s rule: encode_loop.induct)
  case (4 in1 in2 a b c s)
  have "(length (a # b # c # s) + 2) div 3 = (length s + 2) div 3 + 1"
    by simp
  then show ?case
    using 4 by (simp only: encode_loop.simps length_append) (simp add: encode_group_def Let_def)
qed (simp_all add: encode_group_def Let_def)

lemma length_decode_loop:
  "decode_loop s = Some (Some out) \<Longrightarrow> length out \<le> length s div 4 * 3"
proof (induction s arbitrary: out rule: decode_loop.induct)
  case (1 c0 c1 c2 c3 s)
  obtain b out' where b: "decode_chars [c0, c1, c2, c3] = Some (Some b)"
    and out: "decode_loop s = Some (Some out')" "out = decode_group [c0, c1, c2, c3] b @ out'"
    using 1(2) by (simp del: decode_chars.simps split: option.splits) blast
  have "length (decode_group [c0, c1, c2, c3] b) \<le> 3"
    by (simp add: decode_group_def Let_def)
  moreover have "length (c0 # c1 # c2 # c3 # s) div 4 = length s div 4 + 1"
    by simp
  ultimately show ?case
    using 1(1) [OF b refl out(1)] out(2) by (simp only: length_append) simp
qed simp_all

text \<open>C21: Whatever bytes are encoded, decoding the text into a buffer for as many bytes as the text
  stands for gives the bytes back, although the encoder carries bytes of the previous group into
  the padding bits of the last one; the text has four characters for every three bytes begun.\<close>

theorem base64_roundtrip:
  assumes "(length data + 2) div 3 * 3 \<le> to_len"
  shows "ws_base64_decode (ws_base64_encode data) to_len = Some data \<and>
    length (ws_base64_encode data) = (length data + 2) div 3 * 4"
  using assms by (simp add: ws_base64_decode_def ws_base64_encode_def length_encode_loop decode_encode_loop)

theorem base64_roundtrip_witness:
  "ws_base64_decode (ws_base64_encode [0x61, 0x62, 0x63, 0x64]) 6 = Some [0x61, 0x62, 0x63, 0x64]"
  using base64_roundtrip [of "[0x61, 0x62, 0x63, 0x64]" 6] by simp

text \<open>The decoder never writes more than \<open>to_len\<close> bytes to its output buffer, for any input and
  any announced buffer size, and it reads outside its table only when the text has a byte above
  127.\<close>

theorem base64_decode_bounded:
  "(\<forall>out. ws_base64_decode text to_len = Some out \<longrightarrow> length out \<le> to_len) \<and>
   (ws_base64_decode text to_len = None \<longrightarrow> (\<exists>c \<in> set text. code c \<ge> 128))"
proof -
  have chars: "decode_chars cs = None \<Longrightarrow> \<exists>c \<in> set cs. code c \<ge> 128" for cs
    by (induction cs) (auto split: if_splits)
  have loop: "decode_loop s = None \<Longrightarrow> \<exists>c \<in> set s. code c \<ge> 128" for s
  proof (induction s rule: decode_loop.induct)
    case (1 c0 c1 c2 c3 s)
    show ?case
    proof (cases "decode_chars [c0, c1, c2, c3]")
      case None
      from chars [OF this] show ?thesis by auto
    next
      case (Some r)
      then show ?thesis using 1 by (cases r) (auto simp del: decode_chars.simps)
    qed
  qed simp_all
  show ?thesis
    using loop length_decode_loop
    by (fastforce simp: ws_base64_decode_def split: option.splits if_splits)
qed

theorem base64_decode_bounded_witness:
  "ws_base64_decode ''YWJj'' 2 = Some [] \<and> ws_base64_decode ''YWJj'' 3 = Some [0x61, 0x62, 0x63]"
proof -
  have "length (the (ws_base64_decode ''YWJj'' 2)) \<le> 2"
    using base64_decode_bounded [of "''YWJj''" 2] by (auto simp: ws_base64_decode_def)
  then show ?thesis by code_simp
qed

section \<open>Canonical base64\<close>

text \<open>The reference: padding bits are zero.\<close>

fun canonical_base64 :: "byte list \<Rightarrow> string" where
  "canonical_base64 [] = []"
| "canonical_base64 [a] = encode_group 1 a 0 0"
| "canonical_base64 [a, b] = encode_group 2 a b 0"
| "canonical_base64 (a # b # c # s) = encode_group 3 a b c @ canonical_base64 s"

lemma encode_loop_full: "length s mod 3 = 0 \<Longrightarrow> encode_loop in1 in2 s = canonical_base64 s"
  by (induction s arbitrary: in1 in2 rule: canonical_base64.induct) auto

text \<open>The encoder produces canonical base64 for data of whole groups and for data of fewer than
  three bytes, but not in general: the array of input bytes is not cleared, so the last group of
  longer data gets padding bits from the group before.\<close>

theorem base64_encode_canonical:
  "(length data mod 3 = 0 \<or> length data < 3 \<longrightarrow> ws_base64_encode data = canonical_base64 data) \<and>
   ws_base64_encode [0x61, 0x62, 0x63, 0x64] = ''YWJjZG=='' \<and>
   canonical_base64 [0x61, 0x62, 0x63, 0x64] = ''YWJjZA==''"
proof -
  have "ws_base64_encode data = canonical_base64 data" if "length data < 3"
    using that by (cases data rule: canonical_base64.cases) (simp_all add: ws_base64_encode_def)
  moreover have "ws_base64_encode [0x61, 0x62, 0x63, 0x64] = ''YWJjZG=='' \<and>
      canonical_base64 [0x61, 0x62, 0x63, 0x64] = ''YWJjZA==''"
    by code_simp
  ultimately show ?thesis
    using encode_loop_full by (simp add: ws_base64_encode_def)
qed

theorem base64_encode_canonical_witness:
  "ws_base64_encode [0x61, 0x62] = canonical_base64 [0x61, 0x62]"
  using base64_encode_canonical [of "[0x61, 0x62]"] by simp

end
