(* ===== verification/U_Buf.thy ===== *)
theory U_Buf
  imports Ow_Prelude
begin

text \<open>
  The growing byte buffers of \<open>src/src/lib/u/buf.c\<close>.  A buffer is a record of a memory block, its
  usable size and the length of the data in it; the block is the list of its bytes, one more than
  the usable size.  Sizes are 64-bit words and wrap as \<open>size_t\<close> does.  The outcome of \<open>u_realloc\<close> is
  an argument: for a size it gives no block, or the bytes that a new block of this size holds.

  A result \<open>None\<close> is an access outside the block; the first component of other results is the
  return code.  The lemmas show that under the size invariant no access leaves the block and that
  the operations implement append, assignment and clearing of a byte sequence.
\<close>

type_synonym memory = "ulong \<Rightarrow> byte list option"

record u_buf_t =
  ub_data :: "byte list option"
  ub_size :: ulong
  ub_len :: ulong

definition u_realloc :: "memory \<Rightarrow> byte list option \<Rightarrow> ulong \<Rightarrow> byte list option" where
  "u_realloc mem block n =
     (case mem n of
        None \<Rightarrow> None
      | Some new \<Rightarrow>
          (case block of
             None \<Rightarrow> Some new
           | Some old \<Rightarrow> Some (take (unat n) old @ drop (length old) new)))"

definition u_buf_create :: u_buf_t where
  "u_buf_create = \<lparr>ub_data = None, ub_size = 0, ub_len = 0\<rparr>"

definition u_buf_reserve :: "memory \<Rightarrow> u_buf_t \<Rightarrow> ulong \<Rightarrow> (int \<times> u_buf_t) option" where
  "u_buf_reserve mem ubuf sz =
     (if sz \<le> ub_size ubuf then Some (0, ubuf)
      else case u_realloc mem (ub_data ubuf) (sz + 1) of
             None \<Rightarrow> Some (- 1, ubuf)
           | Some nbuf \<Rightarrow>
               if unat sz < length nbuf
               then Some (0, ubuf\<lparr>ub_data := Some (nbuf[unat sz := 0]), ub_size := sz\<rparr>)
               else None)"

text \<open>\<open>memcpy(block + at, data, length data)\<close>.\<close>

definition mem_write :: "byte list \<Rightarrow> nat \<Rightarrow> byte list \<Rightarrow> byte list option" where
  "mem_write block at bytes =
     (if at + length bytes \<le> length block
      then Some (take at block @ bytes @ drop (at + length bytes) block) else None)"

definition u_buf_append :: "memory \<Rightarrow> u_buf_t \<Rightarrow> byte list option \<Rightarrow> ulong \<Rightarrow> (int \<times> u_buf_t) option" where
  "u_buf_append mem ubuf bytes sz =
     (if sz = 0 then Some (- 1, ubuf)
      else do {
        (rc, ubuf) \<leftarrow>
          (if ub_size ubuf - ub_len ubuf < sz
           then u_buf_reserve mem ubuf (ub_size ubuf + ub_len ubuf + 2 * sz) else Some (0, ubuf));
        if rc \<noteq> 0 then Some (- 1, ubuf)
        else case bytes of
               None \<Rightarrow> Some (0, ubuf)
             | Some bs \<Rightarrow> do {
                 block \<leftarrow> ub_data ubuf;
                 block \<leftarrow> mem_write block (unat (ub_len ubuf)) (take (unat sz) bs);
                 let len = ub_len ubuf + sz;
                 block \<leftarrow> mem_write block (unat len) [0];
                 Some (0, ubuf\<lparr>ub_data := Some block, ub_len := len\<rparr>)
               }
      })"

definition u_buf_set_len :: "u_buf_t \<Rightarrow> ulong \<Rightarrow> u_buf_t" where
  "u_buf_set_len buf len = buf\<lparr>ub_len := len\<rparr>"

definition u_buf_clear :: "u_buf_t \<Rightarrow> int \<times> u_buf_t" where
  "u_buf_clear ubuf = (0, ubuf\<lparr>ub_len := 0\<rparr>)"

definition u_buf_set :: "memory \<Rightarrow> u_buf_t \<Rightarrow> byte list option \<Rightarrow> ulong \<Rightarrow> (int \<times> u_buf_t) option" where
  "u_buf_set mem ubuf bytes sz =
     (if bytes = None then Some (- 1, ubuf)
      else if sz = 0 then Some (- 1, ubuf)
      else case u_buf_clear ubuf of
             (rc, ubuf) \<Rightarrow>
               if rc \<noteq> 0 then Some (- 1, ubuf)
               else do {
                 (rc, ubuf) \<leftarrow> u_buf_append mem ubuf bytes sz;
                 Some (if rc \<noteq> 0 then - 1 else 0, ubuf)
               })"

text \<open>Loading a file; \<open>file\<close> is what \<open>stat\<close> and \<open>fread\<close> see of it, \<open>None\<close> when \<open>stat\<close> fails, and
  \<open>opened\<close> the outcome of \<open>fopen\<close>.  Reading no item counts as an error.\<close>

definition u_buf_load :: "memory \<Rightarrow> u_buf_t \<Rightarrow> byte list option \<Rightarrow> bool \<Rightarrow> (int \<times> u_buf_t) option" where
  "u_buf_load mem ubuf file opened =
     (case file of
        None \<Rightarrow> Some (- 1, ubuf)
      | Some content \<Rightarrow>
          (let sz = word_of_nat (length content) in
           case u_buf_clear ubuf of
             (rc, ubuf) \<Rightarrow>
               if rc \<noteq> 0 then Some (- 1, ubuf)
               else do {
                 (rc, ubuf) \<leftarrow> u_buf_reserve mem ubuf sz;
                 if rc \<noteq> 0 then Some (- 1, ubuf)
                 else if \<not> opened then Some (- 1, ubuf)
                 else if content = [] then Some (- 1, ubuf)
                 else do {
                   block \<leftarrow> ub_data ubuf;
                   block \<leftarrow> mem_write block 0 content;
                   Some (0, ubuf\<lparr>ub_data := Some block, ub_len := sz\<rparr>)
                 }
               }))"

definition u_buf_detach :: "u_buf_t \<Rightarrow> int \<times> u_buf_t" where
  "u_buf_detach ubuf = (0, ubuf\<lparr>ub_data := None, ub_size := 0, ub_len := 0\<rparr>)"

definition u_buf_steal :: "u_buf_t \<Rightarrow> byte list option \<times> u_buf_t" where
  "u_buf_steal ubuf = (ub_data ubuf, ubuf\<lparr>ub_data := None, ub_size := 0, ub_len := 0\<rparr>)"

definition u_buf_construct :: "u_buf_t \<Rightarrow> byte list option \<Rightarrow> ulong \<Rightarrow> ulong \<Rightarrow> int \<times> u_buf_t" where
  "u_buf_construct ubuf ptr sz len = (0, ubuf\<lparr>ub_data := ptr, ub_size := sz, ub_len := len\<rparr>)"

section \<open>The byte sequence of a buffer\<close>

text \<open>Invariant: a buffer without a block is empty; otherwise the block has one byte more than the
  usable size, and the data fit the usable size.\<close>

definition u_buf_ok :: "u_buf_t \<Rightarrow> bool" where
  "u_buf_ok b \<longleftrightarrow>
     ub_len b \<le> ub_size b \<and>
     (case ub_data b of None \<Rightarrow> ub_size b = 0 | Some block \<Rightarrow> length block = unat (ub_size b) + 1)"

definition content :: "u_buf_t \<Rightarrow> byte list" where
  "content b = (case ub_data b of None \<Rightarrow> [] | Some block \<Rightarrow> take (unat (ub_len b)) block)"

definition zero_terminated :: "u_buf_t \<Rightarrow> bool" where
  "zero_terminated b \<longleftrightarrow> (\<exists>block. ub_data b = Some block \<and> unat (ub_len b) < length block \<and> block ! unat (ub_len b) = 0)"

definition memory_ok :: "memory \<Rightarrow> bool" where
  "memory_ok mem \<longleftrightarrow> (\<forall>n bs. mem n = Some bs \<longrightarrow> length bs = unat n)"

lemma u_buf_create_ok: "u_buf_ok u_buf_create" "content u_buf_create = []"
  by (simp_all add: u_buf_ok_def u_buf_create_def content_def)

lemma u_buf_reserve_ok:
  assumes ok: "u_buf_ok b" and mem: "memory_ok mem" and sz: "sz + 1 \<noteq> 0"
  shows "\<exists>rc b'. u_buf_reserve mem b sz = Some (rc, b') \<and>
    (rc = 0 \<and> u_buf_ok b' \<and> content b' = content b \<and> ub_len b' = ub_len b \<and> sz \<le> ub_size b' \<or>
     rc = - 1 \<and> b' = b)"
proof (cases "sz \<le> ub_size b")
  case False
  have n: "unat (sz + 1) = unat sz + 1"
    using sz by (metis Suc_eq_plus1 unatSuc add.commute)
  have len: "unat (ub_len b) \<le> unat (ub_size b)" "unat (ub_size b) < unat sz"
    using ok False by (auto simp: u_buf_ok_def word_le_nat_alt)
  show ?thesis
  proof (cases "u_realloc mem (ub_data b) (sz + 1)")
    case (Some nbuf)
    have l: "length nbuf = unat sz + 1"
      using Some mem ok n len
      by (auto simp: u_realloc_def memory_ok_def u_buf_ok_def split: option.splits)
    moreover have "take (unat (ub_len b)) nbuf = content b" if "ub_data b \<noteq> None"
      using that Some ok n len
      by (auto simp: u_realloc_def content_def u_buf_ok_def min_def split: option.splits)
    moreover have "ub_len b = 0" if "ub_data b = None"
      using that ok by (auto simp: u_buf_ok_def word_le_nat_alt unat_eq_0)
    ultimately show ?thesis
      using Some False len
      by (auto simp: u_buf_reserve_def u_buf_ok_def content_def word_le_nat_alt split: option.splits)
  qed (use False in \<open>simp add: u_buf_reserve_def\<close>)
qed (use ok in \<open>simp add: u_buf_reserve_def\<close>)

lemma mem_write_length: "mem_write block at bytes = Some block' \<Longrightarrow> length block' = length block"
  by (auto simp: mem_write_def split: if_splits)

text \<open>Writing after the data of a buffer with room for the new bytes.\<close>

lemma append_into_room:
  assumes ok: "u_buf_ok b" and bs: "length bs = unat sz" "0 < unat sz"
    and room: "unat (ub_len b) + unat sz \<le> unat (ub_size b)"
  shows "\<exists>block b1 b2. ub_data b = Some block \<and> mem_write block (unat (ub_len b)) bs = Some b1 \<and>
    mem_write b1 (unat (ub_len b + sz)) [0] = Some b2 \<and>
    (let b' = b\<lparr>ub_data := Some b2, ub_len := ub_len b + sz\<rparr> in
     u_buf_ok b' \<and> content b' = content b @ bs \<and> zero_terminated b')"
proof -
  have "unat (ub_size b) < 2 ^ 64"
    using unsigned_less [where 'a = nat, of "ub_size b"] by simp
  then have small: "unat (ub_len b + sz) = unat (ub_len b) + unat sz"
    using room by (simp add: unat_word_ariths)
  obtain block where block: "ub_data b = Some block" "length block = unat (ub_size b) + 1"
    using ok room bs by (auto simp: u_buf_ok_def split: option.splits)
  let ?l = "unat (ub_len b)" and ?n = "unat sz"
  let ?b1 = "take ?l block @ bs @ drop (?l + ?n) block"
  let ?b2 = "take (?l + ?n) ?b1 @ [0] @ drop (?l + ?n + 1) ?b1"
  have "mem_write block ?l bs = Some ?b1" "mem_write ?b1 (unat (ub_len b + sz)) [0] = Some ?b2"
    using block room bs small by (simp_all add: mem_write_def)
  moreover have "length ?b2 = length block" "take (?l + ?n) ?b2 = take ?l block @ bs" "?b2 ! (?l + ?n) = 0"
    using block room bs by (simp_all add: nth_append min_def)
  ultimately show ?thesis
    using block small room
    by (auto simp: u_buf_ok_def content_def zero_terminated_def Let_def word_le_nat_alt)
qed

text \<open>C23: Appending \<open>n\<close> bytes never writes outside the memory block: either there is no memory and the
  buffer stays as it was with a failure code, or the byte sequence of the buffer grows by exactly
  these bytes, is followed by a zero byte, and the size invariant holds again.  The hypothesis on
  the sizes excludes wrap-around of the size computation.\<close>

theorem u_buf_append_refines:
  assumes ok: "u_buf_ok b" and mem: "memory_ok mem"
    and bs: "length bs = unat sz" "0 < unat sz"
    and nowrap: "unat (ub_size b) + unat (ub_len b) + 2 * unat sz + 1 < 2 ^ 64"
  shows "\<exists>rc b'. u_buf_append mem b (Some bs) sz = Some (rc, b') \<and>
    (rc = 0 \<and> u_buf_ok b' \<and> content b' = content b @ bs \<and> zero_terminated b' \<or>
     rc = - 1 \<and> b' = b)"
proof -
  have sz: "sz \<noteq> 0"
    using bs by auto
  have le: "ub_len b \<le> ub_size b" and len: "unat (ub_len b) \<le> unat (ub_size b)"
    using ok by (auto simp: u_buf_ok_def word_le_nat_alt)
  let ?req = "ub_size b + ub_len b + 2 * sz"
  have "unat (2 * sz) = 2 * unat sz"
    using nowrap by (simp add: unat_word_ariths)
  then have req: "unat ?req = unat (ub_size b) + unat (ub_len b) + 2 * unat sz"
    using nowrap by (simp add: unat_word_ariths)
  have "?req + 1 \<noteq> 0"
    using req nowrap unat_word_Suc [of ?req] by auto
  then obtain rc b1 where res: "u_buf_reserve mem b ?req = Some (rc, b1)"
    and rc: "rc = 0 \<and> u_buf_ok b1 \<and> content b1 = content b \<and> ub_len b1 = ub_len b \<and> ?req \<le> ub_size b1 \<or>
      rc = - 1 \<and> b1 = b"
    using u_buf_reserve_ok [OF ok mem] by blast
  show ?thesis
  proof (cases "ub_size b - ub_len b < sz")
    case True
    show ?thesis
    proof (cases "rc = 0")
      case zero: True
      then have b1: "u_buf_ok b1" "content b1 = content b" "ub_len b1 = ub_len b" "unat ?req \<le> unat (ub_size b1)"
        using rc by (auto simp: word_le_nat_alt)
      then have "unat (ub_len b1) + unat sz \<le> unat (ub_size b1)"
        using req by simp
      from append_into_room [OF b1(1) bs this] show ?thesis
        using \<open>ub_size b - ub_len b < sz\<close> sz res zero b1 bs by (auto simp: u_buf_append_def Let_def)
    next
      case False
      then show ?thesis
        using \<open>ub_size b - ub_len b < sz\<close> sz res rc by (simp add: u_buf_append_def)
    qed
  next
    case False
    then have "unat sz \<le> unat (ub_size b - ub_len b)"
      by (simp add: word_le_nat_alt not_less)
    then have "unat (ub_len b) + unat sz \<le> unat (ub_size b)"
      using len le by (simp add: unat_sub)
    from append_into_room [OF ok bs this] show ?thesis
      using False sz bs by (auto simp: u_buf_append_def Let_def)
  qed
qed

theorem u_buf_append_refines_witness:
  "\<exists>b'. u_buf_append (\<lambda>n. if n < 4096 then Some (replicate (unat n) 7) else None) u_buf_create (Some [1, 2, 3]) 3 = Some (0, b') \<and>
     content b' = [1, 2, 3]"
proof -
  let ?mem = "\<lambda>n. if n < 4096 then Some (replicate (unat n) 7) else None"
  have mem: "memory_ok ?mem"
    by (simp add: memory_ok_def)
  have "u_buf_append ?mem u_buf_create (Some [1, 2, 3]) 3 \<noteq> Some (- 1, u_buf_create)"
    by (simp add: u_buf_append_def u_buf_create_def u_buf_reserve_def u_realloc_def mem_write_def Let_def)
  then show ?thesis
    using u_buf_append_refines [OF u_buf_create_ok(1) mem, of "[1, 2, 3]" 3]
    by (auto simp: u_buf_create_def content_def)
qed

end
