(* ===== verification/U_Misc.thy ===== *)
theory U_Misc
  imports Ow_Prelude
begin

text \<open>
  The string helpers of \<open>src/src/lib/u/misc.c\<close>: trimming, the two tokenizers and the path cleanup
  of \<open>u_path_snprintf\<close>.  A function that writes to an array of its caller gets the size of the array
  and answers \<open>None\<close> when the C code would write or read outside of it.

  The lemmas show what the functions compute and for which array sizes they stay inside.
\<close>

section \<open>Trimming\<close>

definition u_isblank :: "char \<Rightarrow> bool" where
  "u_isblank c \<longleftrightarrow> c = CHR '' '' \<or> c = CHR 0x09"

definition u_isquote :: "char \<Rightarrow> bool" where
  "u_isquote c \<longleftrightarrow> c = CHR 0x22"

text \<open>The walk from the end stops at the first character of the string, whatever it is.\<close>

fun trim_tail :: "(char \<Rightarrow> bool) \<Rightarrow> string \<Rightarrow> string" where
  "trim_tail P [] = []"
| "trim_tail P (c # cs) = c # rev (dropWhile P (rev cs))"

definition u_trim :: "string \<Rightarrow> string" where
  "u_trim s = dropWhile u_isblank (trim_tail u_isblank s)"

definition u_trim_quotes :: "string \<Rightarrow> string" where
  "u_trim_quotes s = dropWhile u_isquote (trim_tail u_isquote s)"

definition u_isblank_str :: "string \<Rightarrow> bool" where
  "u_isblank_str ln = list_all u_isblank ln"

definition u_isnl :: "char \<Rightarrow> bool" where
  "u_isnl c \<longleftrightarrow> c = CHR 0x0A \<or> c = CHR 0x0D"

definition isstrdigit :: "string option \<Rightarrow> bool" where
  "isstrdigit str = (case str of None \<Rightarrow> False | Some s \<Rightarrow> s \<noteq> [] \<and> list_all c_isdigit s)"

definition u_path_is_absolute :: "string \<Rightarrow> bool" where
  "u_path_is_absolute filename = (filename \<noteq> [] \<and> (hd filename = CHR ''.'' \<or> hd filename = CHR ''/''))"

section \<open>Tokenizers\<close>

text \<open>\<open>strsep\<close>: the fields of a string, empty ones included.\<close>

fun strsep_fields :: "string \<Rightarrow> string \<Rightarrow> string \<Rightarrow> string list" where
  "strsep_fields delim acc [] = [acc]"
| "strsep_fields delim acc (c # cs) =
     (if c \<in> set delim then acc # strsep_fields delim [] cs else strsep_fields delim (acc @ [c]) cs)"

text \<open>The array \<open>tokv\<close> holds pointers, \<open>None\<close> for \<open>NULL\<close>.  A write at \<open>ap\<close>.\<close>

definition tokv_put :: "string option list \<Rightarrow> nat \<Rightarrow> string option \<Rightarrow> string option list option" where
  "tokv_put tokv ap v = (if ap < length tokv then Some (tokv[ap := v]) else None)"

fun tokenize_loop :: "string list \<Rightarrow> string option list \<Rightarrow> nat \<Rightarrow> (string option list \<times> nat) option" where
  "tokenize_loop [] tokv ap = do { tokv \<leftarrow> tokv_put tokv ap None; Some (tokv, ap) }"
| "tokenize_loop (f # fs) tokv ap = do {
     tokv \<leftarrow> tokv_put tokv ap (Some f);
     if f = [] then tokenize_loop fs tokv ap
     else if Suc ap \<ge> length tokv - 1 then Some (tokv, Suc ap)
     else tokenize_loop fs tokv (Suc ap)
   }"

definition u_tokenize :: "string option \<Rightarrow> string \<Rightarrow> string option list \<Rightarrow> (int \<times> string option list) option" where
  "u_tokenize wlist delim tokv =
     (case wlist of
        None \<Rightarrow> Some (- 1, tokv)
      | Some w \<Rightarrow>
          if length tokv = 0 then Some (- 1, tokv)
          else do {
            (tokv, ap) \<leftarrow> tokenize_loop (strsep_fields delim [] w) tokv 0;
            tokv \<leftarrow> tokv_put tokv ap None;
            Some (0, tokv)
          })"

text \<open>\<open>u_tokenize1\<close>: \<open>p\<close> is the token collected since the last delimiter, \<open>res\<close> what was stored in the
  result array of \<open>reslen\<close> cells.\<close>

definition result_put :: "nat \<Rightarrow> string list \<Rightarrow> string \<Rightarrow> string list option" where
  "result_put reslen res p =
     (if p = [] then Some res else if length res < reslen then Some (res @ [p]) else None)"

fun tokenize1_loop :: "nat \<Rightarrow> char \<Rightarrow> string \<Rightarrow> string \<Rightarrow> string list \<Rightarrow> string list option" where
  "tokenize1_loop reslen delim p [] res = result_put reslen res p"
| "tokenize1_loop reslen delim p (n # ns) res =
     (if length res = reslen then Some res
      else if n = delim then do {
        res \<leftarrow> result_put reslen res p;
        tokenize1_loop reslen delim [] ns res
      }
      else tokenize1_loop reslen delim (p @ [n]) ns res)"

definition u_tokenize1 :: "nat \<Rightarrow> string option \<Rightarrow> char \<Rightarrow> string list option" where
  "u_tokenize1 reslen str delim =
     (case str of
        None \<Rightarrow> Some []
      | Some s \<Rightarrow> tokenize1_loop reslen delim [] (dropWhile (\<lambda>c. c = CHR '' '') s) [])"

section \<open>Path cleanup\<close>

text \<open>The loop of \<open>u_path_snprintf\<close> that removes repeated separators, on the buffer of its caller:
  \<open>memmove\<close> copies \<open>len\<close> bytes from \<open>i + 1\<close> to \<open>i\<close>.\<close>

definition move_down :: "string \<Rightarrow> nat \<Rightarrow> nat \<Rightarrow> string option" where
  "move_down buf i n =
     (if i + 1 + n \<le> length buf
      then Some (take i buf @ take n (drop (i + 1) buf) @ drop (i + n) buf) else None)"

fun squeeze_loop :: "char \<Rightarrow> nat \<Rightarrow> nat \<Rightarrow> string \<Rightarrow> string option" where
  "squeeze_loop sep len 0 buf = Some buf"
| "squeeze_loop sep len (Suc i) buf =
     (if buf ! Suc i = sep \<and> buf ! i = sep
      then do { buf \<leftarrow> move_down buf (Suc i) len; squeeze_loop sep (len - 1) i buf }
      else squeeze_loop sep len i buf)"

definition cstr :: "string \<Rightarrow> string" where
  "cstr buf = takeWhile (\<lambda>c. c \<noteq> CHR 0x00) buf"

text \<open>\<open>printed\<close> is what \<open>vsnprintf\<close> produced.  The result is the return code and the buffer.\<close>

definition u_path_snprintf :: "string \<Rightarrow> char \<Rightarrow> string \<Rightarrow> (int \<times> string) option" where
  "u_path_snprintf buf sep printed =
     (if length printed \<ge> length buf
      then Some (- 1, (if buf = [] then [] else take (length buf - 1) printed @ [CHR 0x00]))
      else let buf = printed @ CHR 0x00 # drop (length printed + 1) buf in
           do {
             buf \<leftarrow> squeeze_loop sep (length printed) (length printed) buf;
             Some (0, buf)
           })"

section \<open>Trimming, lemmas\<close>

lemma dropWhile_trim_tail:
  "dropWhile P (trim_tail P s) = dropWhile P (rev (dropWhile P (rev s)))"
proof (cases s)
  case (Cons c cs)
  show ?thesis
  proof (cases "\<forall>x \<in> set cs. P x")
    case True
    then show ?thesis
      using Cons by (auto simp: dropWhile_append dropWhile_eq_Nil_conv dest: set_dropWhileD)
  next
    case False
    then have "dropWhile P (rev cs) \<noteq> []"
      by (simp add: dropWhile_eq_Nil_conv)
    then show ?thesis
      using Cons False by (auto simp: dropWhile_append)
  qed
qed simp

lemma u_trim_eq: "u_trim s = dropWhile u_isblank (rev (dropWhile u_isblank (rev s)))"
  by (simp add: u_trim_def dropWhile_trim_tail)

lemma trim_noop:
  assumes "s = [] \<or> \<not> P (hd s) \<and> \<not> P (last s)"
  shows "dropWhile P (trim_tail P s) = s"
proof -
  have self: "dropWhile P (rev s) = rev s"
    using assms by (subst dropWhile_eq_self_iff) (auto simp: hd_rev)
  show ?thesis
    unfolding dropWhile_trim_tail self rev_rev_ident
    using assms by (subst dropWhile_eq_self_iff) auto
qed

lemma u_trim_noop: "s = [] \<or> \<not> u_isblank (hd s) \<and> \<not> u_isblank (last s) \<Longrightarrow> u_trim s = s"
  unfolding u_trim_def by (rule trim_noop)

lemma u_trim_quotes_noop: "s = [] \<or> \<not> u_isquote (hd s) \<and> \<not> u_isquote (last s) \<Longrightarrow> u_trim_quotes s = s"
  unfolding u_trim_quotes_def by (rule trim_noop)

section \<open>Tokenizers, lemmas\<close>

abbreviation nonempty :: "string list \<Rightarrow> string list" where
  "nonempty \<equiv> filter (\<lambda>f. f \<noteq> [])"

lemma tokenize1_loop_ok:
  assumes "length res \<le> reslen" "length res = reslen \<Longrightarrow> p = []"
  shows "tokenize1_loop reslen delim p ns res = Some (take reslen (res @ nonempty (strsep_fields [delim] p ns)))"
  using assms
proof (induction reslen delim p ns res rule: tokenize1_loop.induct)
  case (1 reslen delim p res)
  then show ?case by (cases "reslen - length res") (auto simp: result_put_def le_less)
next
  case (2 reslen delim p n ns res)
  show ?case
  proof (cases "length res = reslen")
    case False
    then have room: "length res < reslen" "reslen - length res = Suc (reslen - Suc (length res))"
      using 2(3) by simp_all
    then show ?thesis
      using 2 False by (auto simp: result_put_def)
  qed simp
qed

text \<open>\<open>u_tokenize1\<close> stores exactly the first \<open>reslen\<close> non-empty fields of the string and never
  writes outside a result array of \<open>reslen\<close> cells, for every string and every array size.\<close>

theorem u_tokenize1_bounded:
  "u_tokenize1 reslen (Some s) delim =
     Some (take reslen (nonempty (strsep_fields [delim] [] (dropWhile (\<lambda>c. c = CHR '' '') s))))"
  by (simp add: u_tokenize1_def tokenize1_loop_ok)

lemma tokenize_loop_ok:
  assumes "Suc ap < length tokv"
  shows "\<exists>tokv'. let ts = take (length tokv - 1 - ap) (nonempty fs) in
    tokenize_loop fs tokv ap = Some (tokv', ap + length ts) \<and> length tokv' = length tokv \<and>
    take (ap + length ts) tokv' = take ap tokv @ map Some ts"
  using assms
proof (induction fs tokv ap rule: tokenize_loop.induct)
  case (1 tokv ap)
  then show ?case by (simp add: tokv_put_def)
next
  case (2 f fs tokv ap)
  let ?t = "tokv[ap := Some f]"
  have put: "tokv_put tokv ap (Some f) = Some ?t"
    using 2(3) by (simp add: tokv_put_def)
  have step: "take (Suc ap) ?t = take ap tokv @ [Some f]"
    using 2(3) by (simp add: take_Suc_conv_app_nth)
  consider "f = []" | "f \<noteq> []" "Suc (Suc ap) < length tokv" | "f \<noteq> []" "Suc (Suc ap) = length tokv"
    using 2(3) by linarith
  then show ?case
  proof cases
    case 1
    then show ?thesis
      using 2(1) [OF put] 2(3) put by simp
  next
    case more: 2
    then have room: "\<not> length tokv - Suc 0 \<le> Suc ap"
      by simp
    with more obtain t' where "tokenize_loop fs ?t (Suc ap) =
        Some (t', Suc ap + length (take (length tokv - 1 - Suc ap) (nonempty fs)))" "length t' = length tokv"
      "take (Suc ap + length (take (length tokv - 1 - Suc ap) (nonempty fs))) t' =
        take (Suc ap) ?t @ map Some (take (length tokv - 1 - Suc ap) (nonempty fs))"
      using 2(2) [OF put] by (auto simp: Let_def)
    moreover have "length tokv - 1 - ap = Suc (length tokv - 1 - Suc ap)"
      using more by simp
    ultimately show ?thesis
      using more room put step by (intro exI [of _ t']) (simp add: Let_def)
  next
    case 3
    moreover from this have "length tokv - 1 - ap = 1" "length tokv - Suc 0 \<le> Suc ap"
      by simp_all
    ultimately show ?thesis
      using put step by (intro exI [of _ ?t]) (simp add: Let_def)
  qed
qed

text \<open>C25: With an array of at least two cells \<open>u_tokenize\<close> stores the first non-empty fields, one cell
  less than the array has, followed by \<open>NULL\<close>, and stays inside the array; with an array of one
  cell it writes behind the array exactly when the string has a non-empty field.\<close>

theorem u_tokenize_bounded:
  assumes "tokv \<noteq> []"
  shows "(length tokv = 1 \<and> nonempty (strsep_fields delim [] w) \<noteq> [] \<longleftrightarrow> u_tokenize (Some w) delim tokv = None) \<and>
    (1 < length tokv \<longrightarrow>
      (\<exists>tokv'. u_tokenize (Some w) delim tokv = Some (0, tokv') \<and> length tokv' = length tokv \<and>
        (let ts = take (length tokv - 1) (nonempty (strsep_fields delim [] w)) in
         take (Suc (length ts)) tokv' = map Some ts @ [None])))"
proof (cases "length tokv = 1")
  case True
  then obtain x where x: "tokv = [x]"
    by (cases tokv) auto
  have "tokenize_loop fs [y] 0 \<bind> (\<lambda>(tokv, ap). tokv_put tokv ap None) = None \<longleftrightarrow> nonempty fs \<noteq> []" for fs y
    by (induction fs arbitrary: y) (auto simp: tokv_put_def)
  from this [of "strsep_fields delim [] w" x] show ?thesis
    using x by (auto simp: u_tokenize_def bind_eq_None_conv split: prod.splits)
next
  case False
  then have len: "Suc 0 < length tokv"
    using assms by (cases tokv) auto
  let ?ts = "take (length tokv - 1) (nonempty (strsep_fields delim [] w))"
  obtain t' where t': "tokenize_loop (strsep_fields delim [] w) tokv 0 = Some (t', length ?ts)"
    "length t' = length tokv" "take (length ?ts) t' = map Some ?ts"
    using tokenize_loop_ok [OF len, of "strsep_fields delim [] w"] by (auto simp: Let_def)
  have "length ?ts < length t'"
    using len t'(2) by simp
  then have "tokv_put t' (length ?ts) None = Some (t'[length ?ts := None])"
    "take (Suc (length ?ts)) (t'[length ?ts := None]) = map Some ?ts @ [None]"
    using t'(3) by (simp add: tokv_put_def, simp only: take_Suc_conv_app_nth length_list_update take_update_cancel nth_list_update_eq)
  then show ?thesis
    using False len t' assms by (auto simp: u_tokenize_def Let_def)
qed

theorem u_tokenize_bounded_witness:
  "u_tokenize (Some ''a,,b'') '','' [None] = None \<and>
   (\<exists>t. u_tokenize (Some ''a,,b'') '','' [None, None, None] = Some (0, t) \<and> t = [Some ''a'', Some ''b'', None])"
proof -
  have "u_tokenize (Some ''a,,b'') '','' [None] = None"
    using u_tokenize_bounded [of "[None]" "'',''" "''a,,b''"] by simp
  moreover from u_tokenize_bounded [of "[None, None, None]" "'',''" "''a,,b''"]
  obtain t where "u_tokenize (Some ''a,,b'') '','' [None, None, None] = Some (0, t)" "length t = 3"
    "take 3 t = [Some ''a'', Some ''b'', None]"
    by (auto simp: Let_def numeral_3_eq_3)
  ultimately show ?thesis
    by simp
qed

section \<open>Path cleanup, lemmas\<close>

text \<open>Reference: one separator for every run of separators.\<close>

fun squeeze :: "char \<Rightarrow> string \<Rightarrow> string" where
  "squeeze sep [] = []"
| "squeeze sep (a # s) =
     (case squeeze sep s of
        [] \<Rightarrow> [a]
      | b # t \<Rightarrow> if a = sep \<and> b = sep then b # t else a # b # t)"

lemma squeeze_Cons: "\<exists>t. squeeze sep (a # s) = a # t"
  by (auto split: list.split)

lemma squeeze_subset: "set (squeeze sep s) \<subseteq> set s"
  by (induction s) (auto split: list.splits if_splits)

text \<open>The buffer when the loop is at index \<open>i\<close>.\<close>

definition squeezed_at :: "char \<Rightarrow> string \<Rightarrow> nat \<Rightarrow> string \<Rightarrow> string \<Rightarrow> bool" where
  "squeezed_at sep pr i junk buf \<longleftrightarrow> buf = take i pr @ squeeze sep (drop i pr) @ CHR 0x00 # junk"

lemma squeeze_step:
  assumes at: "squeezed_at sep pr (Suc i) junk buf" and i: "Suc i \<le> length pr"
    and nul: "CHR 0x00 \<notin> set pr" "sep \<noteq> CHR 0x00"
    and len: "len = Suc i + length (squeeze sep (drop (Suc i) pr))" "len \<le> length pr"
    and room: "2 * length pr \<le> length buf"
  shows "if buf ! Suc i = sep \<and> buf ! i = sep
    then \<exists>junk' buf'. move_down buf (Suc i) len = Some buf' \<and> squeezed_at sep pr i junk' buf' \<and>
      length buf' = length buf \<and> len - 1 = i + length (squeeze sep (drop i pr))
    else squeezed_at sep pr i junk buf \<and> len = i + length (squeeze sep (drop i pr))"
proof -
  let ?S = "squeeze sep (drop (Suc i) pr)"
  have drop: "drop i pr = pr ! i # drop (Suc i) pr" and take: "take (Suc i) pr = take i pr @ [pr ! i]"
    using i by (simp_all add: Cons_nth_drop_Suc take_Suc_conv_app_nth)
  have buf: "buf = take i pr @ pr ! i # ?S @ CHR 0x00 # junk"
    using at take by (simp add: squeezed_at_def)
  have lt: "length (take i pr) = i"
    using i by simp
  have bi: "buf ! i = pr ! i"
    unfolding buf using lt by (simp add: nth_append)
  have bSi: "buf ! Suc i = hd (?S @ [CHR 0x00])"
    unfolding buf using lt by (cases ?S) (simp_all add: nth_append)
  show ?thesis
  proof (cases "buf ! Suc i = sep \<and> buf ! i = sep")
    case True
    then obtain t where S: "?S = sep # t"
      using bSi nul(2) by (cases ?S) auto
    have sq: "squeeze sep (drop i pr) = sep # t"
      using True bi S by (simp add: drop)
    have fit: "Suc i + 1 + len \<le> length buf"
      using S len room i by simp
    let ?j = "drop (len - length t - 1) junk"
    have d: "drop (Suc (Suc i)) buf = t @ CHR 0x00 # junk"
      unfolding buf S using lt by simp
    have t: "take (Suc i) buf = take i pr @ [sep]"
      unfolding buf using lt True bi by simp
    have "take len (drop (Suc i + 1) buf) = t @ CHR 0x00 # take (len - length t - 1) junk"
      unfolding d Suc_eq_plus1 [symmetric] using len S by (simp add: take_Cons')
    then have mv: "move_down buf (Suc i) len = Some (take i pr @ (sep # t) @ CHR 0x00 #
        (take (len - length t - 1) junk @ drop (Suc i + len) buf))"
      using fit t by (simp add: move_down_def)
    moreover have "length (take (Suc i) buf @ take len (drop (Suc i + 1) buf) @ drop (Suc i + len) buf) = length buf"
      using fit by simp
    then have "length (the (move_down buf (Suc i) len)) = length buf"
      using fit by (simp add: move_down_def)
    ultimately show ?thesis
      using True sq len(1) S by (simp add: squeezed_at_def)
  next
    case False
    have "squeeze sep (drop i pr) = pr ! i # ?S"
      using False bi bSi by (cases ?S) (auto simp: drop)
    then show ?thesis
      using False buf len(1) by (auto simp: squeezed_at_def)
  qed
qed

lemma squeeze_loop_ok:
  assumes "squeezed_at sep pr i junk buf" "i \<le> length pr" "CHR 0x00 \<notin> set pr" "sep \<noteq> CHR 0x00"
    and "len = i + length (squeeze sep (drop i pr))" "len \<le> length pr" "2 * length pr \<le> length buf"
  shows "\<exists>junk' buf'. squeeze_loop sep len i buf = Some buf' \<and> squeezed_at sep pr 0 junk' buf'"
  using assms
proof (induction sep len i buf arbitrary: junk rule: squeeze_loop.induct)
  case (1 sep len buf)
  then show ?case by auto
next
  case (2 sep len i buf)
  note step = squeeze_step [OF 2(3) 2(4) 2(5) 2(6) 2(7) 2(8) 2(9)]
  have i: "i \<le> length pr"
    using 2(4) by simp
  show ?case
  proof (cases "buf ! Suc i = sep \<and> buf ! i = sep")
    case True
    then obtain junk' buf' where b': "move_down buf (Suc i) len = Some buf'" "squeezed_at sep pr i junk' buf'"
      "length buf' = length buf" "len - 1 = i + length (squeeze sep (drop i pr))"
      using step by auto
    have "len - 1 \<le> length pr" "2 * length pr \<le> length buf'"
      using 2(8,9) b'(3) by simp_all
    from 2(1) [OF True b'(1) b'(2) i 2(5,6) b'(4) this] show ?thesis
      using True b'(1) by simp
  next
    case False
    then have "squeezed_at sep pr i junk buf" "len = i + length (squeeze sep (drop i pr))"
      using step by (auto split: if_splits)
    from 2(2) [OF False this(1) i 2(5,6) this(2) 2(8,9)] show ?thesis
      using False by auto
  qed
qed

text \<open>In a buffer of twice the length of the printed path \<open>u_path_snprintf\<close> replaces every run of
  separators by one separator.  The number of bytes that \<open>memmove\<close> is told to move is the length of
  the whole path, so in a smaller buffer it reads and writes behind the end although the path fits.\<close>

theorem u_path_snprintf_squeezes:
  assumes "2 * length pr \<le> length buf" "length pr < length buf" "CHR 0x00 \<notin> set pr" "sep \<noteq> CHR 0x00"
  shows "(\<exists>buf'. u_path_snprintf buf sep pr = Some (0, buf') \<and> cstr buf' = squeeze sep pr) \<and>
    u_path_snprintf (replicate 6 CHR 0x00) CHR ''/'' ''a//b'' = None"
proof -
  let ?b = "pr @ CHR 0x00 # drop (length pr + 1) buf"
  have at: "squeezed_at sep pr (length pr) (drop (length pr + 1) buf) ?b"
    by (simp add: squeezed_at_def)
  have "2 * length pr \<le> length ?b"
    using assms by simp
  then obtain junk buf' where b': "squeeze_loop sep (length pr) (length pr) ?b = Some buf'"
    "squeezed_at sep pr 0 junk buf'"
    using squeeze_loop_ok [OF at _ assms(3,4), of "length pr"] by auto
  have "cstr buf' = squeeze sep pr"
    using b'(2) assms(3) squeeze_subset [of sep pr]
    by (auto simp: squeezed_at_def cstr_def takeWhile_append)
  moreover have "u_path_snprintf (replicate 6 CHR 0x00) CHR ''/'' ''a//b'' = None"
    by code_simp
  ultimately show ?thesis
    using b'(1) assms(2) by (auto simp: u_path_snprintf_def Let_def)
qed

theorem u_path_snprintf_squeezes_witness:
  "\<exists>buf'. u_path_snprintf (replicate 16 CHR 0x00) CHR ''/'' ''a//b///c'' = Some (0, buf') \<and> cstr buf' = ''a/b/c''"
  using u_path_snprintf_squeezes [of "''a//b///c''" "replicate 16 CHR 0x00" "CHR ''/''"] by simp

end
