(* ===== verification/U_Table.thy ===== *)
theory U_Table
  imports Kazlib_Hash
begin

text \<open>
  Hash tables that are filled by a parsing loop: query strings, selector sets and method arguments
  all look a key up and insert it when it is new, so that the first occurrence of a key wins.  The
  node addresses and the outcomes of the reallocations are supplied by an allocator that is asked
  with the number of the loop iteration.

  The lemmas of the locale \<open>first_wins\<close> turn the single step into a statement about the whole
  loop; it is interpreted on the hash tables of \<open>Kazlib_Hash\<close>.
\<close>

text \<open>\<open>fst\<close>: the node that \<open>hash_alloc_insert\<close> gets, \<open>None\<close> when there is no memory for it;
  \<open>snd\<close>: whether the reallocation of the table succeeds.\<close>

type_synonym alloc = "nat \<Rightarrow> addr option \<times> bool"

definition HASHCOUNT_T_MAX :: ulong where
  "HASHCOUNT_T_MAX = 0xFFFFFFFFFFFFFFFF"

text \<open>The idiom \<open>if (!hash_lookup(h, key)) hash_alloc_insert(h, key, val)\<close>.\<close>

definition hash_add_if_new :: "alloc \<Rightarrow> nat \<Rightarrow> 'v hash_t \<Rightarrow> string \<Rightarrow> 'v \<Rightarrow> 'v hash_t option" where
  "hash_add_if_new al i hash key v = do {
     r \<leftarrow> hash_lookup hash key;
     if r = None
     then map_option snd (hash_alloc_insert (fst (al i)) (snd (al i)) hash key v)
     else Some hash
   }"

definition alloc_ok :: "alloc \<Rightarrow> bool" where
  "alloc_ok al \<longleftrightarrow> (\<forall>i. fst (al i) \<noteq> None) \<and> inj (\<lambda>i. fst (al i))"

text \<open>A table to which at most \<open>i\<close> iterations have added nodes.\<close>

definition filled :: "alloc \<Rightarrow> nat \<Rightarrow> 'v hash_t \<Rightarrow> bool" where
  "filled al i h \<longleftrightarrow> hash_ok h \<and> h_maxcount h = HASHCOUNT_T_MAX \<and> unat (h_nodecount h) \<le> i \<and>
     (\<forall>n \<in> set (hash_nodes h). \<exists>j < i. fst (al j) = Some (hn_addr n))"

section \<open>Loops in which the first entry wins\<close>

abbreviation somes :: "'a option list \<Rightarrow> 'a list" where
  "somes es \<equiv> map the (filter (\<lambda>e. e \<noteq> None) es)"

locale first_wins =
  fixes step :: "nat \<Rightarrow> 't \<Rightarrow> string \<Rightarrow> 'v \<Rightarrow> 't option"
    and tmap :: "'t \<Rightarrow> string \<Rightarrow> 'v option"
    and inv :: "nat \<Rightarrow> 't \<Rightarrow> bool"
    and bound :: nat
  assumes step_law: "inv i t \<Longrightarrow> i < bound \<Longrightarrow>
      \<exists>t'. step i t k v = Some t' \<and> inv (Suc i) t' \<and>
        tmap t' = (if tmap t k = None then (tmap t)(k \<mapsto> v) else tmap t)"
    and skip_law: "inv i t \<Longrightarrow> inv (Suc i) t"
begin

text \<open>A loop whose iteration either adds an entry or skips.\<close>

fun fill :: "nat \<Rightarrow> (string \<times> 'v) option list \<Rightarrow> 't \<Rightarrow> 't option" where
  "fill i [] t = Some t"
| "fill i (None # es) t = fill (Suc i) es t"
| "fill i (Some (k, v) # es) t = do { t \<leftarrow> step i t k v; fill (Suc i) es t }"

lemma fill_map:
  assumes "inv i t" "i + length es \<le> bound"
  shows "\<exists>t'. fill i es t = Some t' \<and> inv (i + length es) t' \<and>
    tmap t' = map_of (somes es) ++ tmap t"
  using assms
proof (induction i es t rule: fill.induct)
  case (1 i t)
  then show ?case by simp
next
  case (2 i es t)
  then show ?case using skip_law by simp
next
  case (3 i k v es t)
  then obtain t1 where t1: "step i t k v = Some t1" "inv (Suc i) t1"
    "tmap t1 = (if tmap t k = None then (tmap t)(k \<mapsto> v) else tmap t)"
    using step_law [of i t k v] by auto
  then obtain t2 where t2: "fill (Suc i) es t1 = Some t2" "inv (Suc i + length es) t2"
    "tmap t2 = map_of (somes es) ++ tmap t1"
    using 3 by auto
  then show ?case
    using t1 by (auto simp: fun_eq_iff map_add_def split: option.split)
qed

end

section \<open>The hash table\<close>

lemma hash_add_if_new_ok:
  assumes f: "filled al i h" and al: "alloc_ok al" and i: "i < 2 ^ 59"
  shows "\<exists>h'. hash_add_if_new al i h key v = Some h' \<and> filled al (Suc i) h' \<and>
    hash_map h' = (if hash_map h key = None then (hash_map h)(key \<mapsto> v) else hash_map h)"
proof -
  have ok: "hash_ok h" and mx: "h_maxcount h = HASHCOUNT_T_MAX" and cnt: "unat (h_nodecount h) \<le> i"
    and nodes: "\<forall>n \<in> set (hash_nodes h). \<exists>j < i. fst (al j) = Some (hn_addr n)"
    using f by (auto simp: filled_def)
  obtain r where r: "hash_lookup h key = Some r" "map_option hn_data r = hash_map h key"
    using hash_lookup_map [OF ok, of key] by (cases "hash_lookup h key") auto
  show ?thesis
  proof (cases "hash_map h key")
    case (Some d)
    then show ?thesis
      using r f by (auto simp: hash_add_if_new_def filled_def less_Suc_eq)
  next
    case None
    obtain a where a: "fst (al i) = Some a"
      using al by (auto simp: alloc_ok_def)
    have fresh: "a \<notin> hn_addr ` set (hash_nodes h)"
    proof
      assume "a \<in> hn_addr ` set (hash_nodes h)"
      then obtain j where "j < i" "fst (al j) = fst (al i)"
        using nodes a by fastforce
      then show False
        using al by (auto simp: alloc_ok_def inj_def)
    qed
    have c59: "unat (h_nodecount h) < 2 ^ 59"
      using cnt i by simp
    then have few: "h_nodecount h < 2 ^ 59" "h_nodecount h < h_maxcount h"
      by (simp_all add: word_less_nat_alt mx HASHCOUNT_T_MAX_def)
    from hash_insert_ok [OF ok few None, of "hnode_init a v" "snd (al i)"]
    obtain h' where h': "hash_insert (snd (al i)) h (hnode_init a v) key = Some h'" "hash_ok h'"
      "same_keys h h'"
      "mset (hash_nodes h') = add_mset ((hnode_init a v)\<lparr>hn_key := key, hn_hkey := h_function h key\<rparr>) (mset (hash_nodes h))"
      "h_nodecount h' = h_nodecount h + 1" "hash_map h' = (hash_map h)(key \<mapsto> v)"
      using fresh by (auto simp: hnode_init_def)
    have addrs: "hn_addr ` set (hash_nodes h') = insert a (hn_addr ` set (hash_nodes h))"
      using arg_cong [OF h'(4), of set_mset] by (auto simp: hnode_init_def)
    have "\<exists>j < Suc i. fst (al j) = Some (hn_addr n)" if "n \<in> set (hash_nodes h')" for n
    proof (cases "hn_addr n = a")
      case False
      then have "hn_addr n \<in> hn_addr ` set (hash_nodes h)"
        using addrs that by blast
      then show ?thesis
        using nodes less_SucI by fastforce
    qed (use a in blast)
    moreover have "unat (h_nodecount h') \<le> Suc i"
      using h'(5) cnt c59 by (simp add: unat_word_ariths)
    moreover have "h_maxcount h' = HASHCOUNT_T_MAX"
      using h'(3) mx by (simp add: same_keys_def)
    ultimately have "filled al (Suc i) h'"
      using h'(2) by (simp add: filled_def)
    then show ?thesis
      using h' r None a by (auto simp: hash_add_if_new_def hash_alloc_insert_def)
  qed
qed

lemma filled_Suc: "filled al i h \<Longrightarrow> filled al (Suc i) h"
  by (auto simp: filled_def less_Suc_eq)

lemma filled_empty: "hash_ok h \<Longrightarrow> hash_nodes h = [] \<Longrightarrow> h_nodecount h = 0 \<Longrightarrow> h_maxcount h = HASHCOUNT_T_MAX \<Longrightarrow> filled al 0 h"
  by (simp add: filled_def)

interpretation hash_fill: first_wins "hash_add_if_new al" hash_map "\<lambda>i h. alloc_ok al \<and> filled al i h" "2 ^ 59"
  for al
proof
  fix i :: nat and t :: "'a hash_t" and k :: string and v :: 'a
  assume inv: "alloc_ok al \<and> filled al i t" and i: "i < 2 ^ 59"
  obtain t' where "hash_add_if_new al i t k v = Some t'" "filled al (Suc i) t'"
    "hash_map t' = (if hash_map t k = None then (hash_map t)(k \<mapsto> v) else hash_map t)"
    using hash_add_if_new_ok [OF conjunct2 [OF inv] conjunct1 [OF inv] i] by blast
  then show "\<exists>t'. hash_add_if_new al i t k v = Some t' \<and> (alloc_ok al \<and> filled al (Suc i) t') \<and>
      hash_map t' = (if hash_map t k = None then (hash_map t)(k \<mapsto> v) else hash_map t)"
    using inv by (intro exI [of _ t']) simp
next
  fix i :: nat and t :: "'a hash_t"
  assume "alloc_ok al \<and> filled al i t"
  then show "alloc_ok al \<and> filled al (Suc i) t"
    using filled_Suc by blast
qed

lemmas hash_fill_map = hash_fill.fill_map

end
