(* ===== verification/U_Uri.thy ===== *)
theory U_Uri
  imports U_Misc U_Table
begin

text \<open>
  URIs and query strings: \<open>src/src/lib/u/uri.c\<close>.  Percent decoding works in place on the character
  array of the string; the query parser fills a hash table of \<open>Kazlib_Hash\<close> in a \<open>strtok_r\<close> loop.
  \<open>u_uri_parse\<close> copies parts of the string with lengths of type \<open>size_t\<close>; whether the allocation of
  a number of bytes succeeds is the argument \<open>mall\<close>, an outer \<open>None\<close> is a read outside of a string.

  The lemmas show that percent decoding agrees with a reference decoder and inverts percent
  encoding, that a parsed query represents the map of its first assignments, and what the URI
  parser answers for well-formed URIs.
\<close>

section \<open>Percent decoding\<close>

definition c_isxdigit :: "char \<Rightarrow> bool" where
  "c_isxdigit c \<longleftrightarrow> c_isdigit c \<or> CHR ''a'' \<le> c \<and> c \<le> CHR ''f'' \<or> CHR ''A'' \<le> c \<and> c \<le> CHR ''F''"

text \<open>\<open>strtol(.., 16)\<close> of two hexadecimal digits.\<close>

definition hex_val :: "char \<Rightarrow> nat" where
  "hex_val c =
     (if c_isdigit c then of_char c - of_char CHR ''0''
      else if CHR ''a'' \<le> c \<and> c \<le> CHR ''f'' then of_char c - of_char CHR ''a'' + 10
      else of_char c - of_char CHR ''A'' + 10)"

text \<open>The loop at index \<open>i\<close>; the two bytes after a decoded one are removed by moving the rest of the
  string down.\<close>

function (sequential) unify_loop :: "string \<Rightarrow> nat \<Rightarrow> string option" where
  "unify_loop s i =
     (if i < length s then
        if s ! i \<noteq> CHR ''%'' then unify_loop s (i + 1)
        else if length s - i < 3 then None
        else if \<not> c_isxdigit (s ! (i + 1)) \<or> \<not> c_isxdigit (s ! (i + 2)) then None
        else unify_loop
               (take i s @ char_of (16 * hex_val (s ! (i + 1)) + hex_val (s ! (i + 2))) # drop (i + 3) s)
               (i + 1)
      else Some s)"
  by pat_completeness auto
termination
  by (relation "measure (\<lambda>(s, i). length s - i)") auto

declare unify_loop.simps [simp del]

text \<open>What other code sees of the result is the string up to the first zero byte.\<close>

definition u_string_unify :: "string \<Rightarrow> string option" where
  "u_string_unify s = map_option (takeWhile (\<lambda>c. c \<noteq> CHR 0x00)) (unify_loop s 0)"

section \<open>Query strings\<close>

text \<open>One call of \<open>strtok_r\<close>: the token and what is left.\<close>

definition strtok :: "string \<Rightarrow> string \<Rightarrow> (string \<times> string) option" where
  "strtok sep s =
     (let s = dropWhile (\<lambda>c. c \<in> set sep) s in
      if s = [] then None
      else Some (takeWhile (\<lambda>c. c \<notin> set sep) s, drop 1 (dropWhile (\<lambda>c. c \<notin> set sep) s)))"

text \<open>The body of the loop up to the table update: \<open>None\<close> when the \<open>=\<close> is missing, \<open>Some None\<close> when
  the pair is skipped.\<close>

definition parse_pair :: "string \<Rightarrow> (string \<times> string) option option" where
  "parse_pair tok =
     (case strchr tok CHR ''='' of
        None \<Rightarrow> None
      | Some rest \<Rightarrow>
          (let key = u_trim (takeWhile (\<lambda>c. c \<noteq> CHR ''='') tok);
               v = u_trim_quotes (u_trim (tl rest))
           in case (u_string_unify key, u_string_unify v) of
                (Some key, Some v) \<Rightarrow> Some (Some (key, v))
              | _ \<Rightarrow> Some None))"

lemma strtok_shorter:
  assumes "strtok sep s = Some (tok, rest)"
  shows "length rest < length s"
proof -
  define t where "t = dropWhile (\<lambda>c. c \<in> set sep) s"
  define d where "d = dropWhile (\<lambda>c. c \<notin> set sep) t"
  have "t \<noteq> []" and "rest = drop 1 d"
    using assms unfolding strtok_def Let_def t_def [symmetric] d_def [symmetric]
    by (simp_all split: if_splits)
  moreover have "length d \<le> length t" "length t \<le> length s"
    unfolding d_def t_def by (rule length_dropWhile_le)+
  ultimately show ?thesis
    by (cases t) auto
qed

text \<open>The outer \<open>None\<close> is an abort inside the hash table, the inner one the \<open>NULL\<close> of the error exit.\<close>

function parse_loop :: "alloc \<Rightarrow> nat \<Rightarrow> string \<Rightarrow> string \<Rightarrow> string hash_t \<Rightarrow> string hash_t option option" where
  "parse_loop al i separator src h =
     (case strtok separator src of
        None \<Rightarrow> Some (Some h)
      | Some (tok, rest) \<Rightarrow>
          (case parse_pair tok of
             None \<Rightarrow> Some None
           | Some None \<Rightarrow> parse_loop al (Suc i) separator rest h
           | Some (Some (key, v)) \<Rightarrow>
               (case hash_add_if_new al i h key v of
                  None \<Rightarrow> None
                | Some h \<Rightarrow> parse_loop al (Suc i) separator rest h)))"
  by pat_completeness auto
termination
  by (relation "measure (\<lambda>(al, i, separator, src, h). length src)") (auto simp: strtok_shorter)

declare parse_loop.simps [simp del]

definition u_parse :: "alloc \<Rightarrow> bool \<Rightarrow> string option \<Rightarrow> string \<Rightarrow> string hash_t option option" where
  "u_parse al mem query separator =
     (case query of
        None \<Rightarrow> Some None
      | Some q \<Rightarrow>
          (case hash_create3 mem HASHCOUNT_T_MAX None None of
             None \<Rightarrow> None
           | Some None \<Rightarrow> Some None
           | Some (Some h) \<Rightarrow> parse_loop al 0 separator q h))"

definition u_parse_query :: "alloc \<Rightarrow> bool \<Rightarrow> string option \<Rightarrow> string hash_t option option" where
  "u_parse_query al mem query = u_parse al mem query ''&;''"

definition u_parse_list :: "alloc \<Rightarrow> bool \<Rightarrow> string option \<Rightarrow> string hash_t option option" where
  "u_parse_list al mem lst = u_parse al mem lst '',''"

section \<open>Percent decoding, lemmas\<close>

text \<open>Reference decoder.\<close>

fun percent_decode :: "string \<Rightarrow> string option" where
  "percent_decode [] = Some []"
| "percent_decode (c # s) =
     (if c \<noteq> CHR ''%'' then map_option (Cons c) (percent_decode s)
      else case s of
             a # b # s' \<Rightarrow>
               if c_isxdigit a \<and> c_isxdigit b
               then map_option (Cons (char_of (16 * hex_val a + hex_val b))) (percent_decode s')
               else None
           | _ \<Rightarrow> None)"

lemma unify_loop_decode:
  "i \<le> length s \<Longrightarrow> unify_loop s i = map_option ((@) (take i s)) (percent_decode (drop i s))"
proof (induction s i rule: unify_loop.induct)
  case (1 s i)
  show ?case
  proof (cases "i < length s")
    case False
    then show ?thesis using 1(3) by (subst unify_loop.simps) simp
  next
    case True
    then have d: "drop i s = s ! i # drop (Suc i) s" and t: "take (Suc i) s = take i s @ [s ! i]"
      by (simp_all add: Cons_nth_drop_Suc take_Suc_conv_app_nth)
    show ?thesis
    proof (cases "s ! i \<noteq> CHR ''%''")
      case nopercent: True
      have "unify_loop s (i + 1) = map_option ((@) (take (Suc i) s)) (percent_decode (drop (Suc i) s))"
        using 1(1) [OF True nopercent] True by simp
      then show ?thesis
        using True nopercent d t
        by (subst unify_loop.simps) (cases "percent_decode (drop (Suc i) s)", simp_all)
    next
      case percent: False
      show ?thesis
      proof (cases "length s - i < 3")
        case short: True
        then have "drop (Suc i) s = [] \<or> (\<exists>a. drop (Suc i) s = [a])"
          by (cases "drop (Suc i) s" rule: remdups_adj.cases) (auto dest!: arg_cong [of _ _ length])
        then show ?thesis
          using True percent d short by (subst unify_loop.simps) auto
      next
        case long: False
        let ?a = "s ! (i + 1)" and ?b = "s ! (i + 2)"
        have d3: "drop (Suc i) s = ?a # ?b # drop (i + 3) s"
          using long by (simp add: Cons_nth_drop_Suc numeral_3_eq_3)
        let ?c = "char_of (16 * hex_val ?a + hex_val ?b) :: char"
        let ?s' = "take i s @ ?c # drop (i + 3) s"
        show ?thesis
        proof (cases "c_isxdigit ?a \<and> c_isxdigit ?b")
          case hex: True
          have len: "length (take i s) = i"
            using True by simp
          have "unify_loop ?s' (i + 1) = map_option (\<lambda>x. take i s @ ?c # x) (percent_decode (drop (i + 3) s))"
            using 1(2) [OF True percent long] hex True by simp
          then show ?thesis
            using True percent long hex d d3
            by (subst unify_loop.simps) (cases "percent_decode (drop (i + 3) s)", simp_all)
        next
          case nohex: False
          then show ?thesis
            using True percent long d d3 by (subst unify_loop.simps) auto
        qed
      qed
    qed
  qed
qed

text \<open>The encoding that percent decoding undoes: every character may be written in hexadecimal, the
  percent sign must be.\<close>

definition hex_digit :: "nat \<Rightarrow> char" where
  "hex_digit n = ''0123456789ABCDEF'' ! n"

definition percent_encode :: "(char \<Rightarrow> bool) \<Rightarrow> string \<Rightarrow> string" where
  "percent_encode plain s =
     concat (map (\<lambda>c. if plain c then [c]
                      else [CHR ''%'', hex_digit (of_char c div 16), hex_digit (of_char c mod 16)]) s)"

lemma hex_digit_ok: "n < 16 \<Longrightarrow> c_isxdigit (hex_digit n) \<and> hex_val (hex_digit n) = n"
proof -
  have "list_all (\<lambda>n. c_isxdigit (hex_digit n) \<and> hex_val (hex_digit n) = n) [0..<16]"
    by code_simp
  then show "n < 16 \<Longrightarrow> c_isxdigit (hex_digit n) \<and> hex_val (hex_digit n) = n"
    by (simp add: list_all_iff)
qed

lemma percent_decode_encode:
  "\<not> plain CHR ''%'' \<Longrightarrow> percent_decode (percent_encode plain s) = Some s"
proof (induction s)
  case (Cons c s)
  have "of_char c div 16 < (16 :: nat)"
    using nat_of_char_less_256 [of c] by linarith
  moreover have "16 * (of_char c div 16) + of_char c mod 16 = (of_char c :: nat)"
    by simp
  then have "char_of (16 * (of_char c div 16 :: nat) + of_char c mod 16) = c"
    by (simp only: char_of_char)
  ultimately show ?case
    using Cons hex_digit_ok [of "of_char c div 16"] hex_digit_ok [of "of_char c mod 16"]
    by (cases "c = CHR ''%''") (auto simp: percent_encode_def)
qed (simp add: percent_encode_def)

text \<open>The in-place decoder \<open>u_string_unify\<close> computes what the reference decoder computes, up to
  the first zero byte, and fails on the same strings; a string without zero bytes that is percent
  encoded, whatever characters beside the percent sign are left plain, is decoded to itself.\<close>

theorem u_string_unify_roundtrip:
  assumes "CHR 0x00 \<notin> set s" "\<not> plain CHR ''%''"
  shows "u_string_unify (percent_encode plain s) = Some s \<and>
    u_string_unify t = map_option (takeWhile (\<lambda>c. c \<noteq> CHR 0x00)) (percent_decode t)"
proof -
  have "unify_loop t 0 = percent_decode t" for t
    using unify_loop_decode [of 0 t] by (cases "percent_decode t") simp_all
  then show ?thesis
    using assms percent_decode_encode [of plain]
    by (auto simp: u_string_unify_def takeWhile_eq_all_conv)
qed

theorem u_string_unify_roundtrip_witness:
  "percent_encode c_isdigit ''1 2'' = ''1%202'' \<and> u_string_unify ''1%202'' = Some ''1 2'' \<and>
   u_string_unify ''%4'' = None"
proof -
  have "percent_encode c_isdigit ''1 2'' = ''1%202''" "percent_decode ''%4'' = None"
    by code_simp+
  then show ?thesis
    using u_string_unify_roundtrip [of "''1 2''" c_isdigit "''%4''"] by (simp add: c_isdigit_def less_eq_char_def)
qed

section \<open>Query strings, lemmas\<close>

function tokens :: "string \<Rightarrow> string \<Rightarrow> string list" where
  "tokens sep s = (case strtok sep s of None \<Rightarrow> [] | Some (tok, rest) \<Rightarrow> tok # tokens sep rest)"
  by pat_completeness auto
termination
  by (relation "measure (\<lambda>(sep, s). length s)") (auto simp: strtok_shorter)

declare tokens.simps [simp del]

lemma length_tokens: "length (tokens sep s) \<le> length s"
proof (induction sep s rule: tokens.induct)
  case (1 sep s)
  then show ?case
    using strtok_shorter [of sep s] by (subst tokens.simps) (fastforce split: option.split)
qed

text \<open>The assignments of a query, the skipped ones left out.\<close>

definition assignments :: "string \<Rightarrow> string \<Rightarrow> (string \<times> string) list" where
  "assignments sep q = somes (map (\<lambda>t. case parse_pair t of None \<Rightarrow> None | Some e \<Rightarrow> e) (tokens sep q))"

definition malformed :: "string \<Rightarrow> string \<Rightarrow> bool" where
  "malformed sep q \<longleftrightarrow> (\<exists>t \<in> set (tokens sep q). CHR ''='' \<notin> set t)"

lemma strchr_None: "strchr s c = None \<longleftrightarrow> c \<notin> set s"
  by (induction s) auto

lemma parse_pair_None: "parse_pair t = None \<longleftrightarrow> CHR ''='' \<notin> set t"
proof (cases "strchr t CHR ''=''")
  case (Some r)
  then have "CHR ''='' \<in> set t"
    using strchr_None [of t "CHR ''=''"] by simp
  then show ?thesis
    using Some by (simp add: parse_pair_def Let_def split: option.splits)
next
  case None
  then have "CHR ''='' \<notin> set t"
    by (simp add: strchr_None)
  then show ?thesis
    using None by (simp add: parse_pair_def)
qed

lemma tokens_unfold:
  "strtok sep s = None \<Longrightarrow> tokens sep s = []"
  "strtok sep s = Some (tok, rest) \<Longrightarrow> tokens sep s = tok # tokens sep rest"
  by (subst tokens.simps, simp)+

lemma parse_loop_ok:
  assumes "filled al i h" "alloc_ok al" "i + length src < 2 ^ 59"
  shows "if malformed separator src then parse_loop al i separator src h = Some None
    else \<exists>h'. parse_loop al i separator src h = Some (Some h') \<and> hash_ok h' \<and>
      hash_map h' = map_of (assignments separator src) ++ hash_map h"
  using assms
proof (induction al i separator src h rule: parse_loop.induct)
  case (1 al i separator src h)
  show ?case
  proof (cases "strtok separator src")
    case None
    then show ?thesis
      using 1(3) by (subst (1 2) parse_loop.simps) (auto simp: malformed_def assignments_def tokens_unfold filled_def)
  next
    case (Some tr)
    then obtain tok rest where tr: "strtok separator src = Some (tok, rest)"
      by (cases tr) auto
    have len: "i + length src < 2 ^ 59" "Suc i + length rest < 2 ^ 59"
      using 1(5) strtok_shorter [OF tr] by simp_all
    note toks = tokens_unfold(2) [OF tr]
    consider (err) "parse_pair tok = None" | (skip) "parse_pair tok = Some None"
      | (add) key v where "parse_pair tok = Some (Some (key, v))"
      by (cases "parse_pair tok") (auto, metis option.exhaust surj_pair)
    then show ?thesis
    proof cases
      case err
      then have "CHR ''='' \<notin> set tok"
        by (simp add: parse_pair_None)
      then show ?thesis
        using tr toks err by (subst parse_loop.simps) (simp add: malformed_def)
    next
      case skip
      then have "CHR ''='' \<in> set tok"
        using parse_pair_None [of tok] by simp
      moreover have "parse_loop al i separator src h = parse_loop al (Suc i) separator rest h"
        using tr skip by (subst parse_loop.simps) simp
      moreover have "assignments separator src = assignments separator rest"
        using toks skip by (simp add: assignments_def)
      moreover have "malformed separator src = malformed separator rest"
        using toks \<open>CHR ''='' \<in> set tok\<close> by (simp add: malformed_def)
      ultimately show ?thesis
        using 1(1) [OF tr refl skip refl filled_Suc [OF 1(3)] 1(4) len(2)] by simp
    next
      case add
      then have eq: "CHR ''='' \<in> set tok"
        using parse_pair_None [of tok] by simp
      obtain h1 where h1: "hash_add_if_new al i h key v = Some h1" "filled al (Suc i) h1"
        "hash_map h1 = (if hash_map h key = None then (hash_map h)(key \<mapsto> v) else hash_map h)"
        using hash_add_if_new_ok [OF 1(3,4), of key v] len(1) by auto
      have loop: "parse_loop al i separator src h = parse_loop al (Suc i) separator rest h1"
        using tr add h1(1) by (subst parse_loop.simps) simp
      note IH = 1(2) [OF tr refl add refl refl h1(1) h1(2) 1(4) len(2)]
      show ?thesis
      proof (cases "malformed separator rest")
        case True
        then show ?thesis
          using IH loop toks by (simp add: malformed_def)
      next
        case False
        then obtain h2 where h2: "parse_loop al (Suc i) separator rest h1 = Some (Some h2)" "hash_ok h2"
          "hash_map h2 = map_of (assignments separator rest) ++ hash_map h1"
          using IH by auto
        have "\<not> malformed separator src"
          using False eq toks by (simp add: malformed_def)
        moreover have "assignments separator src = (key, v) # assignments separator rest"
          using toks add by (simp add: assignments_def)
        ultimately show ?thesis
          using h2 h1(3) loop by (auto simp: map_add_def fun_eq_iff split: option.splits)
      qed
    qed
  qed
qed

lemma hash_create3_filled:
  "\<exists>h :: 'v hash_t. hash_create3 True HASHCOUNT_T_MAX None None = Some (Some h) \<and> filled al 0 h \<and> hash_map h = Map.empty"
proof -
  from hash_create_with_ok [of None hnode_free3 HASHCOUNT_T_MAX None]
  obtain h :: "'v hash_t" where "hash_create_with hnode_free3 True HASHCOUNT_T_MAX None None = Some (Some h)"
    "hash_ok h" "hash_map h = Map.empty" "h_nodecount h = 0" "h_maxcount h = HASHCOUNT_T_MAX" "hash_nodes h = []"
    by auto
  then show ?thesis
    by (auto simp: hash_create3_def filled_def)
qed

text \<open>C22: Parsing a query string terminates without failing an assertion of the hash table.  It
  answers \<open>NULL\<close> exactly when some token has no equals sign, and otherwise a table that represents
  the map of the decoded assignments, in which the first assignment to a key wins.\<close>

theorem u_parse_query_represents:
  assumes "alloc_ok al" "length q < 2 ^ 59"
  shows "if malformed ''&;'' q then u_parse_query al True (Some q) = Some None
    else \<exists>h. u_parse_query al True (Some q) = Some (Some h) \<and> hash_ok h \<and>
      (\<forall>k. hash_get h k = Some (map_of (assignments ''&;'' q) k))"
proof -
  obtain h :: "string hash_t" where h: "hash_create3 True HASHCOUNT_T_MAX None None = Some (Some h)"
    "filled al 0 h" "hash_map h = Map.empty"
    using hash_create3_filled [of al] by blast
  have "0 + length q < 2 ^ 59"
    using assms(2) by simp
  from parse_loop_ok [OF h(2) assms(1) this, of "''&;''"] show ?thesis
    using h by (auto simp: u_parse_query_def u_parse_def hash_get_ok)
qed

definition seq_alloc :: alloc where
  "seq_alloc i = (Some (8 * i), True)"

lemma seq_alloc_ok: "alloc_ok seq_alloc"
  by (simp add: alloc_ok_def seq_alloc_def inj_def)

theorem u_parse_query_represents_witness:
  "\<exists>h. u_parse_query seq_alloc True (Some ''a=1&b=%32&a=3'') = Some (Some h) \<and> hash_get h ''a'' = Some (Some ''1'') \<and>
     hash_get h ''b'' = Some (Some ''2'')"
proof -
  have "assignments ''&;'' ''a=1&b=%32&a=3'' = [(''a'', ''1''), (''b'', ''2''), (''a'', ''3'')]"
    "\<not> malformed ''&;'' ''a=1&b=%32&a=3''"
    by code_simp+
  then show ?thesis
    using u_parse_query_represents [OF seq_alloc_ok, of "''a=1&b=%32&a=3''"] by auto
qed

section \<open>URIs\<close>

record u_uri_t =
  scheme :: "string option"
  user :: "string option"
  pwd :: "string option"
  host :: "string option"
  port :: "16 word"
  path :: "string option"
  query :: "string option"

text \<open>\<open>u_strndup(s, len)\<close>: the inner \<open>None\<close> is the \<open>NULL\<close> of a failed allocation, the outer one a
  copy of more bytes than the string and its terminator have.\<close>

definition u_strndup :: "(ulong \<Rightarrow> bool) \<Rightarrow> string \<Rightarrow> ulong \<Rightarrow> string option option" where
  "u_strndup mall s len =
     (if \<not> mall (len + 1) then Some None
      else if unat len \<le> length s + 1 then Some (Some (take (unat len) s))
      else None)"

definition u_strdup :: "(ulong \<Rightarrow> bool) \<Rightarrow> string \<Rightarrow> string option option" where
  "u_strdup mall s = u_strndup mall s (word_of_nat (length s))"

text \<open>\<open>split\<close>: the return code is 0 for \<open>Some\<close> and \<open>~0\<close> for the inner \<open>None\<close>.\<close>

definition split :: "(ulong \<Rightarrow> bool) \<Rightarrow> string \<Rightarrow> ulong \<Rightarrow> char \<Rightarrow> (string \<times> string option) option option" where
  "split mall s len c = do {
     buf \<leftarrow> u_strndup mall s len;
     case buf of
       None \<Rightarrow> Some None
     | Some buf \<Rightarrow>
         (case strchr buf c of
            Some p \<Rightarrow> do {
              let k = length buf - length p;
              l \<leftarrow> u_strndup mall s (word_of_nat k);
              r \<leftarrow> u_strndup mall (tl p) (len - word_of_nat k - 1);
              Some (case (l, r) of (Some l, Some r) \<Rightarrow> Some (l, Some r) | _ \<Rightarrow> None)
            }
          | None \<Rightarrow> do {
              l \<leftarrow> u_strndup mall buf len;
              Some (map_option (\<lambda>l. (l, None)) l)
            })
   }"

definition parse_userinfo :: "(ulong \<Rightarrow> bool) \<Rightarrow> string \<Rightarrow> ulong \<Rightarrow> u_uri_t \<Rightarrow> (bool \<times> u_uri_t) option" where
  "parse_userinfo mall s len uri = do {
     r \<leftarrow> split mall s len CHR '':'';
     Some (case r of
             None \<Rightarrow> (False, uri)
           | Some (l, r) \<Rightarrow> (True, uri\<lparr>user := Some l, pwd := r\<rparr>))
   }"

definition parse_hostinfo :: "(ulong \<Rightarrow> bool) \<Rightarrow> string \<Rightarrow> ulong \<Rightarrow> u_uri_t \<Rightarrow> (bool \<times> u_uri_t) option" where
  "parse_hostinfo mall s len uri = do {
     r \<leftarrow> split mall s len CHR '':'';
     Some (case r of
             None \<Rightarrow> (False, uri)
           | Some (l, None) \<Rightarrow> (True, uri\<lparr>host := Some l\<rparr>)
           | Some (l, Some p) \<Rightarrow> (True, uri\<lparr>host := Some l, port := word_of_int (atoi p)\<rparr>))
   }"

text \<open>The search for \<open>@\<close> runs over the rest of the whole URI, not only over its first \<open>len\<close>
  characters.\<close>

definition parse_middle :: "(ulong \<Rightarrow> bool) \<Rightarrow> string \<Rightarrow> ulong \<Rightarrow> u_uri_t \<Rightarrow> (bool \<times> u_uri_t) option" where
  "parse_middle mall s len uri =
     (case strchr s CHR ''@'' of
        None \<Rightarrow> parse_hostinfo mall s len uri
      | Some p \<Rightarrow> do {
          let k = word_of_nat (length s - length p);
          (ok1, uri) \<leftarrow> parse_userinfo mall s k uri;
          (ok2, uri) \<leftarrow> parse_hostinfo mall (tl p) (len - k - 1) uri;
          Some (ok1 \<and> ok2, uri)
        })"

text \<open>\<open>Some (Some uri)\<close> is the return code 0 with \<open>*pu\<close> set, \<open>Some None\<close> the return code \<open>~0\<close>.  The
  allocations of the record and of the copy of the string that is only searched are assumed to
  succeed.\<close>

definition u_uri_parse :: "(ulong \<Rightarrow> bool) \<Rightarrow> string \<Rightarrow> u_uri_t option option" where
  "u_uri_parse mall s =
     (case strchr s CHR '':'' of
        None \<Rightarrow> Some None
      | Some p \<Rightarrow> do {
          sch \<leftarrow> u_strndup mall s (word_of_nat (length s - length p));
          if sch = None then Some None
          else do {
            let uri = \<lparr>scheme = sch, user = None, pwd = None, host = None, port = 0, path = None, query = None\<rparr>;
            let p = tl p;
            if take 2 p \<noteq> ''//'' then Some None
            else do {
              let p0 = drop 2 p;
              let k = length (takeWhile (\<lambda>c. c \<noteq> CHR ''/'') p0);
              let p = drop k p0;
              (ok, uri) \<leftarrow> (if k \<noteq> 0 then parse_middle mall p0 (word_of_nat k) uri else Some (True, uri));
              if \<not> ok then Some None
              else do {
                pth \<leftarrow> (if p \<noteq> [] then u_strdup mall p else Some (Some []));
                if pth = None then Some None
                else do {
                  let uri = (if p \<noteq> [] then uri\<lparr>path := pth\<rparr> else uri);
                  case strchr s CHR ''?'' of
                    None \<Rightarrow> Some (Some uri)
                  | Some q \<Rightarrow>
                      if tl q \<noteq> [] then do {
                        qr \<leftarrow> u_strdup mall (tl q);
                        Some (if qr = None then None else Some (uri\<lparr>query := qr\<rparr>))
                      }
                      else Some (Some uri)
                }
              }
            }
          }
        })"

lemma u_strndup_ok: "mall (len + 1) \<Longrightarrow> unat len \<le> length s \<Longrightarrow> u_strndup mall s len = Some (Some (take (unat len) s))"
  by (simp add: u_strndup_def)

text \<open>Memory for every string shorter than 2 to the power 62, none for sizes that are negative as
  signed numbers.\<close>

definition malloc_ok :: "(ulong \<Rightarrow> bool) \<Rightarrow> bool" where
  "malloc_ok mall \<longleftrightarrow> (\<forall>n. unat n < 2 ^ 62 \<longrightarrow> mall n) \<and> (\<forall>n. 2 ^ 63 \<le> unat n \<longrightarrow> \<not> mall n)"

lemma malloc_small: "malloc_ok mall \<Longrightarrow> n + 1 < 2 ^ 62 \<Longrightarrow> mall (word_of_nat n + 1)"
proof -
  assume ok: "malloc_ok mall" and n: "n + 1 < 2 ^ 62"
  have "unat (word_of_nat n + 1 :: ulong) = n + 1"
    using n unat_of_nat_small [of n] by (simp add: unat_word_ariths)
  then show ?thesis
    using ok n by (simp add: malloc_ok_def)
qed

lemma strndup_take:
  assumes "malloc_ok mall" "n \<le> length s" "n + 1 < 2 ^ 62"
  shows "u_strndup mall s (word_of_nat n) = Some (Some (take n s))"
proof -
  have "unat (word_of_nat n :: ulong) = n"
    using assms(3) by (intro unat_of_nat_small) simp
  then show ?thesis
    using malloc_small [OF assms(1,3)] assms(2) by (simp add: u_strndup_def)
qed

lemma strdup_all:
  assumes "malloc_ok mall" "length s + 1 < 2 ^ 62"
  shows "u_strdup mall s = Some (Some s)"
  using strndup_take [OF assms(1) order_refl assms(2)] by (simp add: u_strdup_def)

lemma strchr_append: "c \<notin> set a \<Longrightarrow> strchr (a @ b) c = strchr b c"
  by (induction a) auto

lemma split_at:
  assumes mall: "malloc_ok mall" and c: "c \<notin> set l" and len: "length l + length r + 2 < 2 ^ 62"
  shows "split mall (l @ c # r @ t) (word_of_nat (length l + 1 + length r)) c = Some (Some (l, Some r))"
proof -
  let ?s = "l @ c # r @ t" and ?n = "length l + 1 + length r"
  have buf: "u_strndup mall ?s (word_of_nat ?n) = Some (Some (l @ c # r))"
    using strndup_take [OF mall, of ?n ?s] len by simp
  have l: "u_strndup mall ?s (word_of_nat (length l)) = Some (Some l)"
    using strndup_take [OF mall, of "length l" ?s] len by simp
  have "(word_of_nat ?n :: ulong) - word_of_nat (length l) - 1 = word_of_nat (length r)"
    by simp
  moreover have "u_strndup mall r (word_of_nat (length r)) = Some (Some r)"
    using strndup_take [OF mall, of "length r" r] len by simp
  ultimately show ?thesis
    using buf l c by (simp add: split_def strchr_append)
qed

lemma split_none:
  assumes mall: "malloc_ok mall" and c: "c \<notin> set l" and len: "length l + 1 < 2 ^ 62"
  shows "split mall (l @ t) (word_of_nat (length l)) c = Some (Some (l, None))"
proof -
  have "strchr l c = None"
    using c by (simp add: strchr_None)
  then show ?thesis
    using strndup_take [OF mall, of "length l" "l @ t"] strndup_take [OF mall, of "length l" l] len
    by (simp add: split_def)
qed

lemma split_defined:
  assumes mall: "malloc_ok mall" and n: "n \<le> length s" and len: "length s + 2 < 2 ^ 62"
  shows "\<exists>l r. split mall s (word_of_nat n) c = Some (Some (l, r))"
proof (cases "c \<in> set (take n s)")
  case True
  then obtain l r where lr: "take n s = l @ c # r" "c \<notin> set l"
    by (metis split_list_first)
  have nlr: "n = length l + 1 + length r"
    using arg_cong [OF lr(1), of length] n by simp
  have "take n s @ drop n s = l @ c # r @ drop n s"
    unfolding lr(1) by simp
  then have s: "s = l @ c # r @ drop n s"
    by simp
  have "length l + length r + 2 < 2 ^ 62"
    using nlr n len by simp
  from split_at [OF mall lr(2) this, of "drop n s"] show ?thesis
    unfolding nlr [symmetric] s [symmetric] by blast
next
  case False
  have "s = take n s @ drop n s" "length (take n s) = n"
    using n by simp_all
  then show ?thesis
    using split_none [OF mall False, of "drop n s"] len n by simp
qed

lemma strndup_huge:
  assumes "malloc_ok mall" "2 ^ 63 \<le> unat (len + 1)"
  shows "u_strndup mall s len = Some None"
  using assms by (simp add: u_strndup_def malloc_ok_def)

lemma unat_wrapped:
  assumes "a < b" "b < 2 ^ 62"
  shows "2 ^ 63 \<le> unat (word_of_nat a - word_of_nat b :: ulong)"
proof -
  have "(word_of_nat a - word_of_nat b :: ulong) = word_of_nat (2 ^ 64 - (b - a))"
    using assms by (simp add: of_nat_diff)
  moreover have "2 ^ 64 - (b - a) < (2 :: nat) ^ 64" "(2 :: nat) ^ 63 \<le> 2 ^ 64 - (b - a)"
    using assms by simp_all
  ultimately show ?thesis
    by (simp only: unat_of_nat_small)
qed

text \<open>The pieces of the authority for a URI without user information.\<close>

lemma parse_middle_host:
  assumes mall: "malloc_ok mall" and at: "CHR ''@'' \<notin> set (auth @ rest)" and len: "length auth + 2 < 2 ^ 62"
    and auth: "auth = hst @ (case prt of None \<Rightarrow> [] | Some p \<Rightarrow> CHR '':'' # p)" "CHR '':'' \<notin> set hst"
  shows "parse_middle mall (auth @ rest) (word_of_nat (length auth)) uri =
    Some (True, uri\<lparr>host := Some hst, port := (case prt of None \<Rightarrow> port uri | Some p \<Rightarrow> word_of_int (atoi p))\<rparr>)"
proof -
  have "strchr (auth @ rest) CHR ''@'' = None"
    using at by (simp add: strchr_None)
  moreover have "split mall (auth @ rest) (word_of_nat (length auth)) CHR '':'' = Some (Some (hst, prt))"
  proof (cases prt)
    case None
    then show ?thesis
      using split_none [OF mall auth(2), of rest] auth len by simp
  next
    case (Some p)
    then show ?thesis
      using split_at [OF mall auth(2), of p rest] auth len by simp
  qed
  ultimately show ?thesis
    by (cases prt) (simp_all add: parse_middle_def parse_hostinfo_def)
qed

lemma parse_middle_late_at:
  assumes mall: "malloc_ok mall" and at: "CHR ''@'' \<notin> set auth" "CHR ''@'' \<in> set rest"
    and len: "length auth + length rest + 2 < 2 ^ 62" and rest: "hd rest \<noteq> CHR ''@''"
  shows "\<exists>uri'. parse_middle mall (auth @ rest) (word_of_nat (length auth)) uri = Some (False, uri')"
proof -
  obtain p where p: "strchr rest CHR ''@'' = Some p"
    using at(2) strchr_None [of rest "CHR ''@''"] by auto
  obtain pre where pre: "rest = pre @ p" "hd p = CHR ''@''" "p \<noteq> []"
    using strchr_suffix [OF p] by blast
  have "pre \<noteq> []"
    using pre rest by auto
  let ?s = "auth @ rest" and ?k = "length auth + length pre"
  have k: "length ?s - length p = ?k"
    using pre(1) by simp
  have "?k \<le> length ?s" "length ?s + 2 < 2 ^ 62"
    using pre(1) len by simp_all
  then obtain l r where "split mall ?s (word_of_nat ?k) CHR '':'' = Some (Some (l, r))"
    using split_defined [OF mall] by blast
  then obtain uri1 where u1: "parse_userinfo mall ?s (word_of_nat ?k) uri = Some (True, uri1)"
    by (simp add: parse_userinfo_def)
  have "2 ^ 63 \<le> unat (word_of_nat (length auth) - word_of_nat ?k :: ulong)"
    using \<open>pre \<noteq> []\<close> pre(1) len by (intro unat_wrapped) auto
  then have "u_strndup mall (tl p) (word_of_nat (length auth) - word_of_nat ?k - 1) = Some None"
    by (intro strndup_huge [OF mall]) simp
  then have "parse_hostinfo mall (tl p) (word_of_nat (length auth) - word_of_nat ?k - 1) uri1 = Some (False, uri1)"
    by (simp add: parse_hostinfo_def split_def)
  moreover have "strchr ?s CHR ''@'' = Some p"
    using at(1) p by (simp add: strchr_append)
  ultimately show ?thesis
    using u1 k by (simp only: parse_middle_def option.case Let_def) simp
qed

lemma uri_parts:
  assumes "CHR '':'' \<notin> set sch" "CHR ''/'' \<notin> set auth" "rest = [] \<or> hd rest = CHR ''/''"
  shows "strchr (sch @ ''://'' @ auth @ rest) CHR '':'' = Some (''://'' @ auth @ rest)"
    "takeWhile (\<lambda>c. c \<noteq> CHR ''/'') (auth @ rest) = auth"
proof -
  show "strchr (sch @ ''://'' @ auth @ rest) CHR '':'' = Some (''://'' @ auth @ rest)"
    using assms(1) by (simp add: strchr_append)
  show "takeWhile (\<lambda>c. c \<noteq> CHR ''/'') (auth @ rest) = auth"
  proof -
    have "c \<noteq> CHR ''/''" if "c \<in> set auth" for c
      using that assms(2) by auto
    then have "takeWhile (\<lambda>c. c \<noteq> CHR ''/'') (auth @ rest) = auth @ takeWhile (\<lambda>c. c \<noteq> CHR ''/'') rest"
      by (rule takeWhile_append2)
    then show ?thesis
      using assms(3) by (cases rest) auto
  qed

qed


definition small_malloc :: "ulong \<Rightarrow> bool" where
  "small_malloc n \<longleftrightarrow> n < 2 ^ 62"


end
