(* ===== verification/Ws_Epr.thy ===== *)
theory Ws_Epr
  imports Ws_Xml U_Uri
begin

text \<open>
  Endpoint references: \<open>src/src/lib/wsman-epr.c\<close> and \<open>src/src/lib/wsman-key-value.c\<close>.  An endpoint
  reference is a nested value: its selectors are key/value pairs whose value is a text or another
  endpoint reference, possibly \<open>NULL\<close>.  A key that is \<open>NULL\<close>, or that the code leaves uninitialised,
  is \<open>None\<close>; using it as a string is undefined and makes the result of an operation \<open>None\<close>.

  The lemmas show that serialising to XML and back is the identity, when the string form stays
  inside the buffer that is allocated for it, how selectors are added and removed, what
  \<open>epr_cmp\<close> really compares, and which endpoint reference a query string denotes.
\<close>

section \<open>Values\<close>

datatype epr_t = Epr string string "key_value_t list"
  and key_value_t = KVText "string option" string | KVEpr "string option" "epr_t option"

fun epr_address :: "epr_t \<Rightarrow> string" where
  "epr_address (Epr addr uri sels) = addr"

fun epr_uri :: "epr_t \<Rightarrow> string" where
  "epr_uri (Epr addr uri sels) = uri"

fun epr_selectors :: "epr_t \<Rightarrow> key_value_t list" where
  "epr_selectors (Epr addr uri sels) = sels"

fun kv_key :: "key_value_t \<Rightarrow> string option" where
  "kv_key (KVText k t) = k"
| "kv_key (KVEpr k e) = k"

text \<open>Deep copies, with all allocations successful.\<close>

fun epr_copy :: "epr_t \<Rightarrow> epr_t" and key_value_copy :: "key_value_t \<Rightarrow> key_value_t" where
  "epr_copy (Epr addr uri sels) = Epr addr uri (map key_value_copy sels)"
| "key_value_copy (KVText k t) = KVText k t"
| "key_value_copy (KVEpr k None) = KVEpr k None"
| "key_value_copy (KVEpr k (Some e)) = KVEpr k (Some (epr_copy e))"

lemma epr_copy_id [simp]: "epr_copy e = e" "key_value_copy kv = kv"
  by (induction e and kv rule: epr_copy_key_value_copy.induct) (simp_all add: map_idI)

fun key_value_create :: "string option \<Rightarrow> string option \<Rightarrow> epr_t option \<Rightarrow> key_value_t" where
  "key_value_create key (Some text) epr = KVText key text"
| "key_value_create key None None = KVEpr key None"
| "key_value_create key None (Some epr) = KVEpr key (Some (epr_copy epr))"

lemma key_value_create_epr [simp]: "key_value_create key None epr = KVEpr key epr"
  by (cases epr) simp_all

text \<open>Comparison of a selector key that may not be a string.\<close>

definition key_is :: "key_value_t \<Rightarrow> string \<Rightarrow> bool option" where
  "key_is s name = map_option (\<lambda>k. strcmp k name = 0) (kv_key s)"

section \<open>Operations\<close>

fun selector_by_name_loop :: "key_value_t list \<Rightarrow> string \<Rightarrow> string option option" where
  "selector_by_name_loop [] name = Some None"
| "selector_by_name_loop (s # ss) name = do {
     eq \<leftarrow> key_is s name;
     case s of
       KVText k t \<Rightarrow> if eq then Some (Some t) else selector_by_name_loop ss name
     | KVEpr k e \<Rightarrow> selector_by_name_loop ss name
   }"

definition wsman_epr_selector_by_name :: "epr_t \<Rightarrow> string \<Rightarrow> string option option" where
  "wsman_epr_selector_by_name epr name = selector_by_name_loop (epr_selectors epr) name"

text \<open>A callback is called on every selector in order; it is a function on the state it is passed.\<close>

definition wsman_selectorset_cb :: "key_value_t list \<Rightarrow> ('s \<Rightarrow> key_value_t \<Rightarrow> 's) \<Rightarrow> 's \<Rightarrow> 's" where
  "wsman_selectorset_cb ss cb d = foldl cb d ss"

definition wsman_epr_selector_cb :: "epr_t \<Rightarrow> ('s \<Rightarrow> key_value_t \<Rightarrow> 's) \<Rightarrow> 's \<Rightarrow> 's" where
  "wsman_epr_selector_cb epr cb d = foldl cb d (epr_selectors epr)"

text \<open>\<open>get_cimnamespace_from_selectorset\<close> reads the text of the selector without asking for its type;
  \<open>None\<close> is the pointer to an endpoint reference taken as text.\<close>

fun get_cimnamespace_from_selectorset :: "key_value_t list \<Rightarrow> string option option" where
  "get_cimnamespace_from_selectorset [] = Some None"
| "get_cimnamespace_from_selectorset (s # ss) = do {
     eq \<leftarrow> key_is s CIM_NAMESPACE_SELECTOR;
     if eq then (case s of KVText k t \<Rightarrow> Some (Some t) | KVEpr k e \<Rightarrow> None)
     else get_cimnamespace_from_selectorset ss
   }"

definition epr_get_resource_uri :: "epr_t option \<Rightarrow> string option" where
  "epr_get_resource_uri epr = map_option epr_uri epr"

text \<open>\<open>epr_add_selector\<close>: a \<open>NULL\<close> key in the array is skipped; \<open>rea\<close> is the outcome of the
  reallocation for a number of entries.\<close>

definition epr_add_selector ::
  "(nat \<Rightarrow> bool) \<Rightarrow> epr_t \<Rightarrow> string \<Rightarrow> string option \<Rightarrow> epr_t option \<Rightarrow> int \<times> epr_t" where
  "epr_add_selector rea epr name text added_epr =
     (if list_ex (\<lambda>p. case kv_key p of None \<Rightarrow> False | Some k \<Rightarrow> strcmp name k = 0) (epr_selectors epr)
      then (- 1, epr)
      else if \<not> rea (length (epr_selectors epr) + 1) then (- 1, epr)
      else (0, Epr (epr_address epr) (epr_uri epr)
                 (epr_selectors epr @ [key_value_create (Some name) text added_epr])))"

definition epr_add_selector_text :: "(nat \<Rightarrow> bool) \<Rightarrow> epr_t \<Rightarrow> string \<Rightarrow> string \<Rightarrow> int \<times> epr_t" where
  "epr_add_selector_text rea epr name text = epr_add_selector rea epr name (Some text) None"

definition epr_add_selector_epr :: "(nat \<Rightarrow> bool) \<Rightarrow> epr_t \<Rightarrow> string \<Rightarrow> epr_t option \<Rightarrow> int \<times> epr_t" where
  "epr_add_selector_epr rea epr name added_epr = epr_add_selector rea epr name None added_epr"

fun find_selector :: "nat \<Rightarrow> key_value_t list \<Rightarrow> string \<Rightarrow> nat option" where
  "find_selector i [] name = Some i"
| "find_selector i (s # ss) name = do {
     eq \<leftarrow> key_is s name;
     if eq then Some i else find_selector (i + 1) ss name
   }"

text \<open>Entries behind the deleted one move down; when the reallocation fails the count stays, and the
  last entry is in the array twice.\<close>

definition epr_delete_selector :: "(nat \<Rightarrow> bool) \<Rightarrow> epr_t \<Rightarrow> string \<Rightarrow> (int \<times> epr_t) option" where
  "epr_delete_selector rea epr name = do {
     let ss = epr_selectors epr;
     i \<leftarrow> find_selector 0 ss name;
     if i = length ss then Some (- 1, epr)
     else do {
       let moved = take i ss @ drop (i + 1) ss;
       if rea (length ss - 1)
       then Some (0, Epr (epr_address epr) (epr_uri epr) moved)
       else Some (- 1, Epr (epr_address epr) (epr_uri epr) (moved @ [last ss]))
     }
   }"

text \<open>A selector that was added is found by its name, cannot be added again, and is what a deletion
  removes.\<close>

lemma find_selector_absent:
  assumes "\<forall>s \<in> set ss. \<exists>k. kv_key s = Some k \<and> k \<noteq> name"
  shows "find_selector i (ss @ [s]) name = map_option (\<lambda>eq. if eq then i + length ss else i + length ss + 1) (key_is s name)"
  using assms
proof (induction ss arbitrary: i)
  case (Cons a ss)
  then show ?case by (cases "kv_key s") (auto simp: key_is_def)
qed (cases "kv_key s", auto simp: key_is_def)

lemma selector_by_name_absent:
  assumes "\<forall>s \<in> set ss. \<exists>k. kv_key s = Some k \<and> k \<noteq> name"
  shows "selector_by_name_loop (ss @ ts) name = selector_by_name_loop ts name"
  using assms by (induction ss) (auto simp: key_is_def split: key_value_t.split)

lemma epr_add_selector_then:
  assumes "epr_add_selector_text rea epr name text = (0, epr')" "\<forall>s \<in> set (epr_selectors epr). kv_key s \<noteq> None"
  shows "wsman_epr_selector_by_name epr' name = Some (Some text)"
    and "epr_add_selector rea epr' name t e = (- 1, epr')"
    and "rea' (length (epr_selectors epr)) \<Longrightarrow> epr_delete_selector rea' epr' name = Some (0, epr)"
proof -
  have new: "\<not> list_ex (\<lambda>p. case kv_key p of None \<Rightarrow> False | Some k \<Rightarrow> strcmp name k = 0) (epr_selectors epr)"
    and epr': "epr' = Epr (epr_address epr) (epr_uri epr) (epr_selectors epr @ [KVText (Some name) text])"
    using assms(1) by (auto simp: epr_add_selector_text_def epr_add_selector_def split: if_splits)
  have absent: "\<forall>s \<in> set (epr_selectors epr). \<exists>k. kv_key s = Some k \<and> k \<noteq> name"
    using new assms(2) by (force simp: list_ex_iff)
  show "wsman_epr_selector_by_name epr' name = Some (Some text)"
    using epr' selector_by_name_absent [OF absent] by (simp add: wsman_epr_selector_by_name_def key_is_def)
  show "epr_add_selector rea epr' name t e = (- 1, epr')"
    using epr' by (simp add: epr_add_selector_def)
  show "epr_delete_selector rea' epr' name = Some (0, epr)" if "rea' (length (epr_selectors epr))"
    using that epr' find_selector_absent [OF absent, of 0 "KVText (Some name) text"]
    by (cases epr) (simp add: epr_delete_selector_def key_is_def)
qed

definition epr_selector_count :: "epr_t option \<Rightarrow> nat" where
  "epr_selector_count epr = (case epr of None \<Rightarrow> 0 | Some e \<Rightarrow> length (epr_selectors e))"

text \<open>\<open>epr_cmp\<close>.  The inner pointer \<open>p2\<close> runs over the selectors of \<open>epr1\<close>, as in the source; the
  number of its steps is the number of selectors of \<open>epr2\<close>, which is the same at that point.
  \<open>None\<close> is a failed assertion or a \<open>NULL\<close> key.\<close>

fun epr_cmp :: "epr_t option \<Rightarrow> epr_t option \<Rightarrow> int option"
  and cmp_outer :: "key_value_t list \<Rightarrow> key_value_t list \<Rightarrow> int option"
  and cmp_inner :: "key_value_t \<Rightarrow> key_value_t list \<Rightarrow> int option" where
  "epr_cmp (Some (Epr a1 u1 ss1)) (Some e2) =
     (if strcmp u1 (epr_uri e2) \<noteq> 0 then Some 1
      else if length ss1 \<noteq> length (epr_selectors e2) then Some 1
      else do {
        matches \<leftarrow> cmp_outer ss1 ss1;
        Some (if matches = int (length ss1) then 0 else 1)
      })"
| "epr_cmp _ _ = None"
| "cmp_outer [] ss = Some 0"
| "cmp_outer (p1 # ps) ss = do {
     m \<leftarrow> cmp_inner p1 ss;
     n \<leftarrow> cmp_outer ps ss;
     Some (m + n)
   }"
| "cmp_inner p1 [] = Some 0"
| "cmp_inner p1 (p2 # ps) = do {
     k1 \<leftarrow> kv_key p1;
     k2 \<leftarrow> kv_key p2;
     m \<leftarrow> (if strcmp k1 k2 \<noteq> 0 then Some 0
          else case (p1, p2) of
                 (KVText _ t1, KVText _ t2) \<Rightarrow> Some (if strcmp t1 t2 \<noteq> 0 then 0 else 1)
               | (KVEpr _ e1, KVEpr _ e2) \<Rightarrow> do {
                   r \<leftarrow> epr_cmp e1 e2;
                   Some (if r = 1 then 0 else 1)
                 }
               | _ \<Rightarrow> Some 0);
     n \<leftarrow> cmp_inner p1 ps;
     Some (m + n)
   }"

text \<open>\<open>epr_to_string\<close>: first the size of the buffer is computed, then it is filled.  \<open>None\<close> is a write
  behind the buffer, or a \<open>NULL\<close> key.  The size is that of the loop over the selectors; a nested
  endpoint reference that is \<open>NULL\<close> counts nothing although its equals sign is written.\<close>

fun epr_to_string :: "epr_t \<Rightarrow> string option"
  and selectors_to_string :: "bool \<Rightarrow> key_value_t list \<Rightarrow> (nat \<times> string) option"
  and value_to_string :: "key_value_t \<Rightarrow> (nat \<times> string) option" where
  "epr_to_string (Epr addr uri sels) =
     (case selectors_to_string True sels of
        None \<Rightarrow> None
      | Some (len, s) \<Rightarrow>
          (let len = length uri + len;
               buf = uri @ s
           in if length buf + 1 \<le> len + 1 then Some buf else None))"
| "selectors_to_string first [] = Some (0, [])"
| "selectors_to_string first (p # ps) =
     (case (kv_key p, value_to_string p, selectors_to_string False ps) of
        (Some k, Some (l, v), Some (len, s)) \<Rightarrow>
          Some (length k + 1 + l + len,
                (if first then CHR ''?'' else CHR ''&'') # k @ CHR ''='' # v @ s)
      | _ \<Rightarrow> None)"
| "value_to_string (KVText k t) = Some (length t + 1, t)"
| "value_to_string (KVEpr k None) = Some (0, [])"
| "value_to_string (KVEpr k (Some e)) = map_option (\<lambda>v. (length v + 1, v)) (epr_to_string e)"

section \<open>XML\<close>

definition name_attr :: "string option \<Rightarrow> xattr" where
  "name_attr k = \<lparr>xa_ns = None, xa_name = WSM_NAME, xa_value = (case k of None \<Rightarrow> [] | Some s \<Rightarrow> s)\<rparr>"

text \<open>\<open>epr_serialize\<close> with \<open>embedded\<close> set: the children that the endpoint reference node gets.  An
  attribute without namespace leaves the declarations as they are.\<close>

fun epr_embedded :: "xmllib \<Rightarrow> epr_t \<Rightarrow> (nsdoc, xnode list) state"
  and selector_nodes :: "xmllib \<Rightarrow> key_value_t list \<Rightarrow> (nsdoc, xnode list) state"
  and selector_node :: "xmllib \<Rightarrow> key_value_t \<Rightarrow> (nsdoc, xnode) state" where
  "epr_embedded L (Epr addr uri sels) = do {
     a \<leftarrow> make_new_xml_node L (Some XML_NS_ADDRESSING) WSA_ADDRESS (Some addr);
     rp \<leftarrow> make_new_xml_node L (Some XML_NS_ADDRESSING) WSA_REFERENCE_PARAMETERS None;
     u \<leftarrow> make_new_xml_node L (Some XML_NS_WS_MAN) WSM_RESOURCE_URI (Some uri);
     st \<leftarrow> make_new_xml_node L (Some XML_NS_WS_MAN) WSM_SELECTOR_SET None;
     ss \<leftarrow> selector_nodes L sels;
     State_Monad.return [a, set_kids rp [u, set_kids st ss]]
   }"
| "selector_nodes L [] = State_Monad.return []"
| "selector_nodes L (p # ps) = do {
     n \<leftarrow> selector_node L p;
     ns \<leftarrow> selector_nodes L ps;
     State_Monad.return (n # ns)
   }"
| "selector_node L (KVText k t) = do {
     n \<leftarrow> make_new_xml_node L (Some XML_NS_WS_MAN) WSM_SELECTOR (Some t);
     State_Monad.return (add_attr n (name_attr k))
   }"
| "selector_node L (KVEpr k None) = do {
     n \<leftarrow> make_new_xml_node L (Some XML_NS_WS_MAN) WSM_SELECTOR None;
     State_Monad.return (add_attr n (name_attr k))
   }"
| "selector_node L (KVEpr k (Some e)) = do {
     n \<leftarrow> make_new_xml_node L (Some XML_NS_WS_MAN) WSM_SELECTOR None;
     en \<leftarrow> make_new_xml_node L (Some XML_NS_ADDRESSING) WSA_EPR None;
     cs \<leftarrow> epr_embedded L e;
     State_Monad.return (add_attr (add_kid n (set_kids en cs)) (name_attr k))
   }"

text \<open>\<open>epr_serialize\<close> returns \<open>node\<close> with what it adds.\<close>

definition epr_serialize ::
  "xmllib \<Rightarrow> xnode \<Rightarrow> string option \<Rightarrow> string option \<Rightarrow> epr_t option \<Rightarrow> bool \<Rightarrow> (nsdoc, xnode) state" where
  "epr_serialize L node ns epr_node_name epr embedded =
     (case epr of
        None \<Rightarrow> State_Monad.return node
      | Some e \<Rightarrow>
          if embedded then
            (case epr_node_name of
               Some nm \<Rightarrow> do {
                 en \<leftarrow> make_new_xml_node L ns nm None;
                 cs \<leftarrow> epr_embedded L e;
                 State_Monad.return (add_kid node (set_kids en cs))
               }
             | None \<Rightarrow> do {
                 cs \<leftarrow> epr_embedded L e;
                 State_Monad.return (set_kids node (kids node @ cs))
               })
          else do {
            node \<leftarrow> (case epr_node_name of
                       Some nm \<Rightarrow> do {
                         en \<leftarrow> make_new_xml_node L ns nm None;
                         en \<leftarrow> ws_xml_add_child L en (Some XML_NS_ADDRESSING) WSA_TO (Some (epr_address e));
                         State_Monad.return (add_kid node en)
                       }
                     | None \<Rightarrow> ws_xml_add_child L node (Some XML_NS_ADDRESSING) WSA_TO (Some (epr_address e)));
            node \<leftarrow> ws_xml_add_child L node (Some XML_NS_WS_MAN) WSM_RESOURCE_URI (Some (epr_uri e));
            st \<leftarrow> make_new_xml_node L (Some XML_NS_WS_MAN) WSM_SELECTOR_SET None;
            ss \<leftarrow> selector_nodes L (epr_selectors e);
            State_Monad.return (add_kid node (set_kids st ss))
          })"

text \<open>\<open>epr_to_txt\<close> up to the dump of the tree, which is libxml2's.\<close>

definition epr_to_txt :: "xmllib \<Rightarrow> epr_t option \<Rightarrow> string option \<Rightarrow> string \<Rightarrow> (nsdoc, xnode) state" where
  "epr_to_txt L epr ns epr_node_name = do {
     root \<leftarrow> ws_xml_create_doc ns epr_node_name;
     epr_serialize L root None None epr True
   }"

definition ws_xml_get_node_text_safe :: "xmllib \<Rightarrow> xnode option \<Rightarrow> string" where
  "ws_xml_get_node_text_safe L node = (case ws_xml_get_node_text L node of None \<Rightarrow> [] | Some t \<Rightarrow> t)"

abbreviation node_size :: "xnode option \<Rightarrow> nat" where
  "node_size n \<equiv> (case n of None \<Rightarrow> 0 | Some x \<Rightarrow> size x)"

lemma size_kid: "c \<in> set (kids p) \<Longrightarrow> size c < size p"
proof (cases p)
  case (Elem ns name as cs)
  moreover assume "c \<in> set (kids p)"
  ultimately show ?thesis
    using size_list_estimation' [of c cs "size c" size] by (simp add: less_Suc_eq_le)
qed simp

lemma get_child_size: "ws_xml_get_child p i u n = Some c \<Longrightarrow> size c < node_size p"
  using ws_xml_get_child_Some [of p i u n c] size_kid by fastforce

lemma get_child_size_le: "node_size (ws_xml_get_child p i u n) \<le> node_size p"
  using get_child_size [of p i u n] by (auto split: option.split intro: less_imp_le)

lemma selector_size:
  assumes "refparam = (if emb then ws_xml_get_child eprnode i1 u1 n1 else node)"
    and "eprnode = (if nm = None then node else ws_xml_get_child node i2 u2 n2)"
    and "st = ws_xml_get_child refparam i3 u3 n3" "temp = ws_xml_get_child st i4 u4 n4"
    and "ws_xml_get_child temp i5 u5 n5 \<noteq> None"
  shows "node_size temp < node_size node"
proof -
  have "node_size eprnode \<le> node_size node"
    using assms(2) get_child_size_le [of node i2 u2 n2] by auto
  then have "node_size refparam \<le> node_size node"
    using assms(1) get_child_size_le [of eprnode i1 u1 n1] by auto
  moreover have "node_size (ws_xml_get_child refparam i3 u3 n3) \<le> node_size refparam"
    by (rule get_child_size_le)
  moreover obtain t where "temp = Some t"
    using assms(5) by (cases temp) auto
  then have "node_size temp < node_size (ws_xml_get_child refparam i3 u3 n3)"
    using assms(3,4) get_child_size [of "ws_xml_get_child refparam i3 u3 n3" i4 u4 n4 t] by simp
  ultimately show ?thesis
    by linarith
qed

text \<open>A selector key is set only when the attribute is there.\<close>

function epr_deserialize :: "xmllib \<Rightarrow> xnode option \<Rightarrow> string option \<Rightarrow> string option \<Rightarrow> bool \<Rightarrow> epr_t option" where
  "epr_deserialize L node ns epr_node_name embedded =
     (let eprnode = (if epr_node_name = None then node else ws_xml_get_child node 0 ns epr_node_name) in
      if epr_node_name \<noteq> None \<and> eprnode = None then None
      else
        let temp = ws_xml_get_child eprnode 0 (Some XML_NS_ADDRESSING) (Some (if embedded then WSA_ADDRESS else WSA_TO)) in
        if temp = None then None
        else
          let address = ws_xml_get_node_text_safe L temp;
              refparamnode =
                (if embedded then ws_xml_get_child eprnode 0 (Some XML_NS_ADDRESSING) (Some WSA_REFERENCE_PARAMETERS)
                 else node) in
          if refparamnode = None then None
          else
            let temp = ws_xml_get_child refparamnode 0 (Some XML_NS_WS_MAN) (Some WSM_RESOURCE_URI) in
            if temp = None then None
            else
              let uri = ws_xml_get_node_text_safe L temp;
                  selectorsetnode = ws_xml_get_child refparamnode 0 (Some XML_NS_WS_MAN) (Some WSM_SELECTOR_SET);
                  cnt = ws_xml_get_child_count selectorsetnode in
              Some (Epr address uri
                (map (\<lambda>i.
                   let temp = ws_xml_get_child selectorsetnode (int i) (Some XML_NS_WS_MAN) (Some WSM_SELECTOR);
                       key = ws_xml_find_attr_value temp None ''Name'' in
                   if ws_xml_get_child temp 0 (Some XML_NS_ADDRESSING) (Some WSA_EPR) \<noteq> None
                   then KVEpr key (epr_deserialize L temp (Some XML_NS_ADDRESSING) (Some WSA_EPR) True)
                   else KVText key (ws_xml_get_node_text_safe L temp))
                 [0..<nat cnt])))"
  by pat_completeness auto
termination
  by (relation "measure (\<lambda>(L, node, ns, nm, emb). node_size node)")
    (simp, unfold in_measure prod.case, rule selector_size,
      assumption, assumption, assumption, assumption, assumption)

declare epr_deserialize.simps [simp del]

section \<open>Serialising and back\<close>

text \<open>Endpoint references whose keys and nested references are set, with texts from \<open>P\<close>.\<close>

fun epr_ok :: "(string \<Rightarrow> bool) \<Rightarrow> epr_t \<Rightarrow> bool" and kv_ok :: "(string \<Rightarrow> bool) \<Rightarrow> key_value_t \<Rightarrow> bool" where
  "epr_ok P (Epr addr uri sels) \<longleftrightarrow> P addr \<and> P uri \<and> (\<forall>s \<in> set sels. kv_ok P s)"
| "kv_ok P (KVText k t) \<longleftrightarrow> k \<noteq> None \<and> P t"
| "kv_ok P (KVEpr k None) \<longleftrightarrow> False"
| "kv_ok P (KVEpr k (Some e)) \<longleftrightarrow> k \<noteq> None \<and> epr_ok P e"

text \<open>What is assumed of libxml2: setting a text of \<open>P\<close> as content of a node makes no child element,
  and the content of the node is that text.\<close>

definition text_lib :: "xmllib \<Rightarrow> (string \<Rightarrow> bool) \<Rightarrow> bool" where
  "text_lib L P \<longleftrightarrow> (\<forall>t. P t \<longrightarrow> (\<forall>n \<in> set (xmlNodeSetContent L t). \<not> is_element n) \<and>
     (\<forall>ns name as. xmlNodeGetContent L (Elem ns name as (xmlNodeSetContent L t)) = Some t))"

text \<open>The trees that are built.\<close>

abbreviation text_elem :: "xmllib \<Rightarrow> string \<Rightarrow> string \<Rightarrow> string \<Rightarrow> xnode" where
  "text_elem L ns name t \<equiv> Elem (Some ns) name [] (xmlNodeSetContent L t)"

fun epr_kids :: "xmllib \<Rightarrow> epr_t \<Rightarrow> xnode list" and sel_tree :: "xmllib \<Rightarrow> key_value_t \<Rightarrow> xnode" where
  "epr_kids L (Epr addr uri sels) =
     [text_elem L XML_NS_ADDRESSING WSA_ADDRESS addr,
      Elem (Some XML_NS_ADDRESSING) WSA_REFERENCE_PARAMETERS []
        [text_elem L XML_NS_WS_MAN WSM_RESOURCE_URI uri,
         Elem (Some XML_NS_WS_MAN) WSM_SELECTOR_SET [] (map (sel_tree L) sels)]]"
| "sel_tree L (KVText k t) = Elem (Some XML_NS_WS_MAN) WSM_SELECTOR [name_attr k] (xmlNodeSetContent L t)"
| "sel_tree L (KVEpr k None) = Elem (Some XML_NS_WS_MAN) WSM_SELECTOR [name_attr k] []"
| "sel_tree L (KVEpr k (Some e)) =
     Elem (Some XML_NS_WS_MAN) WSM_SELECTOR [name_attr k] [Elem (Some XML_NS_ADDRESSING) WSA_EPR [] (epr_kids L e)]"

lemma fst_make_node:
  "fst (run_state (make_new_xml_node L uri name v) nd) =
     Elem uri name [] (case v of None \<Rightarrow> [] | Some t \<Rightarrow> xmlNodeSetContent L t)"
  by (simp add: make_new_xml_node_def State_Monad.bind_def State_Monad.return_def split: option.split prod.split)

lemma fst_bind_state: "fst (run_state (State_Monad.bind m f) nd) = fst (run_state (f (fst (run_state m nd))) (snd (run_state m nd)))"
  by (simp add: State_Monad.bind_def split: prod.split)

lemma fst_return [simp]: "fst (run_state (State_Monad.return x) nd) = x"
  by (simp add: State_Monad.return_def)

lemma fst_epr_embedded:
  "fst (run_state (epr_embedded L e) nd) = epr_kids L e"
  "fst (run_state (selector_nodes L ss) nd) = map (sel_tree L) ss"
  "fst (run_state (selector_node L s) nd) = sel_tree L s"
  by (induction L e and L ss and L s arbitrary: nd and nd and nd
      rule: epr_embedded_selector_nodes_selector_node.induct)
    (simp_all add: split_beta fst_make_node)

lemma wsa_names_distinct:
  "WSA_ADDRESS \<noteq> WSA_REFERENCE_PARAMETERS" "WSM_RESOURCE_URI \<noteq> WSM_SELECTOR_SET" "WSM_NAME = ''Name''"
  "XML_NS_ADDRESSING \<noteq> XML_NS_WS_MAN" "WSM_SELECTOR \<noteq> WSA_EPR"
  by (simp_all add: ws_names)

lemma elements_text: "text_lib L P \<Longrightarrow> P t \<Longrightarrow> elements (xmlNodeSetContent L t) = []"
  by (auto simp: text_lib_def filter_empty_conv)

lemma get_child_text:
  assumes "text_lib L P" "P t"
  shows "ws_xml_get_child (Some (Elem ns name as (xmlNodeSetContent L t))) i u n = None"
  using elements_text [OF assms] by (simp add: ws_xml_get_child_nth Let_def)

lemma node_text_safe:
  assumes "text_lib L P" "P t"
  shows "ws_xml_get_node_text_safe L (Some (Elem ns name as (xmlNodeSetContent L t))) = t"
  using assms by (simp add: ws_xml_get_node_text_safe_def ws_xml_get_node_text_def text_lib_def)

lemma sel_tree_Elem: "\<exists>cs. sel_tree L s = Elem (Some XML_NS_WS_MAN) WSM_SELECTOR [name_attr (kv_key s)] cs"
proof (cases s)
  case (KVEpr k e)
  then show ?thesis by (cases e) auto
qed simp

lemma sel_tree_selector: "is_element (sel_tree L s)" "ws_xml_is_node_qname (Some (sel_tree L s)) (Some XML_NS_WS_MAN) (Some WSM_SELECTOR)"
  using sel_tree_Elem [of L s] by (auto simp: ws_xml_is_node_qname_eq)

lemma selector_set_access:
  assumes "st = Elem (Some XML_NS_WS_MAN) WSM_SELECTOR_SET [] (map (sel_tree L) sels)"
  shows "ws_xml_get_child_count (Some st) = int (length sels)"
    and "i < length sels \<Longrightarrow>
      ws_xml_get_child (Some st) (int i) (Some XML_NS_WS_MAN) (Some WSM_SELECTOR) = Some (sel_tree L (sels ! i))"
proof -
  have f: "filter (\<lambda>n. ws_xml_is_node_qname (Some n) (Some XML_NS_WS_MAN) (Some WSM_SELECTOR))
      (elements (map (sel_tree L) sels)) = map (sel_tree L) sels"
    by (simp add: filter_map o_def sel_tree_selector)
  show "ws_xml_get_child_count (Some st) = int (length sels)"
    using assms by (simp add: ws_xml_get_child_count_def get_count_nodes_length filter_map o_def sel_tree_selector)
  show "ws_xml_get_child (Some st) (int i) (Some XML_NS_WS_MAN) (Some WSM_SELECTOR) = Some (sel_tree L (sels ! i))"
    if "i < length sels"
    using that assms f by (simp add: ws_xml_get_child_nth Let_def)
qed

lemma epr_kids_access:
  assumes "n = Elem ns nm as (epr_kids L (Epr addr uri sels))"
  shows "ws_xml_get_child (Some n) 0 (Some XML_NS_ADDRESSING) (Some WSA_ADDRESS) = Some (text_elem L XML_NS_ADDRESSING WSA_ADDRESS addr)"
    and "\<exists>rp. ws_xml_get_child (Some n) 0 (Some XML_NS_ADDRESSING) (Some WSA_REFERENCE_PARAMETERS) = Some rp \<and>
      ws_xml_get_child (Some rp) 0 (Some XML_NS_WS_MAN) (Some WSM_RESOURCE_URI) = Some (text_elem L XML_NS_WS_MAN WSM_RESOURCE_URI uri) \<and>
      ws_xml_get_child (Some rp) 0 (Some XML_NS_WS_MAN) (Some WSM_SELECTOR_SET) =
        Some (Elem (Some XML_NS_WS_MAN) WSM_SELECTOR_SET [] (map (sel_tree L) sels))"
  using assms wsa_names_distinct
  by (auto simp: ws_xml_get_child_0 ws_xml_is_node_qname_eq)

lemma find_name_attr:
  "ws_xml_find_attr_value (Some (Elem ns nm [name_attr (Some k)] cs)) None ''Name'' = Some k"
  by (simp add: ws_xml_find_attr_value_def ws_xml_find_node_attr_def name_attr_def wsa_names_distinct)

lemma epr_deserialize_kids:
  assumes "text_lib L P" "epr_ok P e"
    and "(if nm = None then node else ws_xml_get_child node 0 ns nm) = Some (Elem ns' nm' as' (epr_kids L e))"
  shows "epr_deserialize L node ns nm True = Some e"
  using assms(2,3)
proof (induction "size e" arbitrary: e node ns nm ns' nm' as' rule: less_induct)
  case less
  obtain addr uri sels where e: "e = Epr addr uri sels"
    by (cases e)
  have P: "P addr" "P uri" "\<forall>s \<in> set sels. kv_ok P s"
    using less.prems(1) e by simp_all
  let ?en = "Elem ns' nm' as' (epr_kids L (Epr addr uri sels))"
  note acc = epr_kids_access [of ?en ns' nm' as' L addr uri sels, OF refl]
  from acc(2) obtain rp where rp: "ws_xml_get_child (Some ?en) 0 (Some XML_NS_ADDRESSING) (Some WSA_REFERENCE_PARAMETERS) = Some rp"
    "ws_xml_get_child (Some rp) 0 (Some XML_NS_WS_MAN) (Some WSM_RESOURCE_URI) = Some (text_elem L XML_NS_WS_MAN WSM_RESOURCE_URI uri)"
    "ws_xml_get_child (Some rp) 0 (Some XML_NS_WS_MAN) (Some WSM_SELECTOR_SET) =
        Some (Elem (Some XML_NS_WS_MAN) WSM_SELECTOR_SET [] (map (sel_tree L) sels))"
    by blast
  let ?sel = "\<lambda>i. let temp = ws_xml_get_child (Some (Elem (Some XML_NS_WS_MAN) WSM_SELECTOR_SET [] (map (sel_tree L) sels))) (int i) (Some XML_NS_WS_MAN) (Some WSM_SELECTOR);
                       key = ws_xml_find_attr_value temp None ''Name'' in
                   if ws_xml_get_child temp 0 (Some XML_NS_ADDRESSING) (Some WSA_EPR) \<noteq> None
                   then KVEpr key (epr_deserialize L temp (Some XML_NS_ADDRESSING) (Some WSA_EPR) True)
                   else KVText key (ws_xml_get_node_text_safe L temp)"
  have sel: "?sel i = sels ! i" if i: "i < length sels" for i
  proof -
    have kv: "kv_ok P (sels ! i)"
      using P(3) i by simp
    show ?thesis
    proof (cases "sels ! i")
      case (KVText k t)
      then show ?thesis
        using kv i selector_set_access(2) [OF refl i, of L] assms(1)
        by (auto simp: Let_def get_child_text node_text_safe find_name_attr)
    next
      case (KVEpr k eo)
      then obtain e' where e': "eo = Some e'" "k \<noteq> None" "epr_ok P e'"
        using kv by (cases eo) auto
      have "size e' < size e"
        using e KVEpr e'(1) nth_mem [OF i] size_list_estimation' [of "sels ! i" sels "size (sels ! i)" size] by simp
      let ?t = "Elem (Some XML_NS_WS_MAN) WSM_SELECTOR [name_attr k] [Elem (Some XML_NS_ADDRESSING) WSA_EPR [] (epr_kids L e')]"
      have c: "ws_xml_get_child (Some ?t) 0 (Some XML_NS_ADDRESSING) (Some WSA_EPR) =
          Some (Elem (Some XML_NS_ADDRESSING) WSA_EPR [] (epr_kids L e'))"
        by (simp add: ws_xml_get_child_0 ws_xml_is_node_qname_eq)
      then have "epr_deserialize L (Some ?t) (Some XML_NS_ADDRESSING) (Some WSA_EPR) True = Some e'"
        by (intro less.hyps [OF \<open>size e' < size e\<close> e'(3)]) simp
      then show ?thesis
        using c KVEpr e' i selector_set_access(2) [OF refl i, of L] by (auto simp: Let_def find_name_attr)
    qed
  qed
  have "map ?sel [0..<length sels] = sels"
    using sel by (intro nth_equalityI) simp_all
  then show ?case
    using less.prems(2) e acc(1) rp selector_set_access(1) [OF refl, of L sels] assms(1) P
    by (subst epr_deserialize.simps) (simp add: Let_def node_text_safe)
qed

text \<open>C26: An endpoint reference that is serialised into a node, under a child element or directly, and
  read back is the same endpoint reference, with all selectors in order and with nested
  references of any depth.  The hypothesis on libxml2 is that it gives back the texts it was given;
  keys and nested references must be set.\<close>

theorem epr_xml_roundtrip:
  assumes "text_lib L P" "epr_ok P e"
  shows "epr_deserialize L (Some (fst (run_state (epr_serialize L (Elem ns nm as []) None None (Some e) True) nd))) None None True = Some e \<and>
    epr_deserialize L (Some (fst (run_state (epr_serialize L (Elem ns nm as []) ns' (Some nm') (Some e) True) nd))) ns' (Some nm') True = Some e"
proof -
  have a: "fst (run_state (epr_serialize L (Elem ns nm as []) None None (Some e) True) nd) = Elem ns nm as (epr_kids L e)"
    by (simp add: epr_serialize_def split_beta fst_epr_embedded)
  have b: "fst (run_state (epr_serialize L (Elem ns nm as []) ns' (Some nm') (Some e) True) nd) =
      Elem ns nm as [Elem ns' nm' [] (epr_kids L e)]"
    by (simp add: epr_serialize_def split_beta fst_epr_embedded fst_make_node)
  have "ws_xml_get_child (Some (Elem ns nm as [Elem ns' nm' [] (epr_kids L e)])) 0 ns' (Some nm') = Some (Elem ns' nm' [] (epr_kids L e))"
    by (simp add: ws_xml_get_child_0 ws_xml_is_node_qname_eq)
  then show ?thesis
    unfolding a b using epr_deserialize_kids [OF assms, of None] epr_deserialize_kids [OF assms, of "Some nm'"] by simp
qed

lemma plain_text_lib: "text_lib plain_xmllib P"
  by (simp add: text_lib_def plain_xmllib_def)

theorem epr_xml_roundtrip_witness:
  "epr_deserialize plain_xmllib
     (Some (fst (run_state (epr_serialize plain_xmllib (Elem None ''x'' [] []) None None
        (Some (Epr ''a'' ''u'' [KVText (Some ''k'') ''v'', KVEpr (Some ''n'') (Some (Epr ''b'' ''w'' []))])) True) empty_nsdoc)))
     None None True = Some (Epr ''a'' ''u'' [KVText (Some ''k'') ''v'', KVEpr (Some ''n'') (Some (Epr ''b'' ''w'' []))])"
  using epr_xml_roundtrip [OF plain_text_lib [of "\<lambda>_. True"],
      of "Epr ''a'' ''u'' [KVText (Some ''k'') ''v'', KVEpr (Some ''n'') (Some (Epr ''b'' ''w'' []))]" None "''x''" "[]" empty_nsdoc]
  by simp

section \<open>Text form\<close>

fun print_epr :: "epr_t \<Rightarrow> string" and print_selectors :: "bool \<Rightarrow> key_value_t list \<Rightarrow> string"
  and print_value :: "key_value_t \<Rightarrow> string" where
  "print_epr (Epr addr uri sels) = uri @ print_selectors True sels"
| "print_selectors first [] = []"
| "print_selectors first (p # ps) =
     (if first then CHR ''?'' else CHR ''&'') # the (kv_key p) @ CHR ''='' # print_value p @ print_selectors False ps"
| "print_value (KVText k t) = t"
| "print_value (KVEpr k None) = []"
| "print_value (KVEpr k (Some e)) = print_epr e"

lemma kv_ok_key:
  assumes "kv_ok P s"
  shows "\<exists>k. kv_key s = Some k"
proof (cases s)
  case (KVEpr k e)
  then show ?thesis using assms by (cases e) auto
qed (use assms in auto)

lemma epr_to_string_ok:
  "epr_to_string e = (if epr_ok (\<lambda>_. True) e then Some (print_epr e) else None)"
  "if \<forall>s \<in> set ss. kv_ok (\<lambda>_. True) s
   then selectors_to_string first ss = Some (length (print_selectors first ss), print_selectors first ss)
   else case selectors_to_string first ss of None \<Rightarrow> True | Some (len, s) \<Rightarrow> len < length s"
  "if kv_ok (\<lambda>_. True) p
   then value_to_string p = Some (length (print_value p) + 1, print_value p)
   else kv_key p = None \<or> (case value_to_string p of None \<Rightarrow> True | Some (l, v) \<Rightarrow> l \<le> length v)"
proof (induction e and first ss and p rule: epr_to_string_selectors_to_string_value_to_string.induct)
  case (1 addr uri sels)
  then show ?case by (auto simp: Let_def split: option.splits if_splits)
next
  case (3 first p ps)
  then show ?case using kv_ok_key [of "\<lambda>_. True" p] by (auto split: option.splits if_splits prod.splits)
qed (auto split: option.splits if_splits)

text \<open>\<open>epr_to_string\<close> prints the resource URI followed by the selectors in query syntax.  It stays
  inside the buffer it has computed the size of exactly when all keys and all nested endpoint
  references are set: a selector whose nested reference is \<open>NULL\<close> is written one byte longer than
  it was counted.\<close>

theorem epr_to_string_bounds:
  "epr_to_string e = (if epr_ok (\<lambda>_. True) e then Some (print_epr e) else None)"
  by (rule epr_to_string_ok(1))

section \<open>Comparison\<close>

text \<open>Endpoint references whose selector keys are set and distinct, at every depth.\<close>

fun keys_distinct :: "epr_t \<Rightarrow> bool" and kv_distinct :: "key_value_t \<Rightarrow> bool" where
  "keys_distinct (Epr addr uri sels) \<longleftrightarrow> distinct (map kv_key sels) \<and> (\<forall>s \<in> set sels. kv_distinct s)"
| "kv_distinct (KVText k t) \<longleftrightarrow> k \<noteq> None"
| "kv_distinct (KVEpr k None) \<longleftrightarrow> False"
| "kv_distinct (KVEpr k (Some e)) \<longleftrightarrow> k \<noteq> None \<and> keys_distinct e"

lemma kv_distinct_key: "kv_distinct s \<Longrightarrow> \<exists>k. kv_key s = Some k"
proof (cases s)
  case (KVEpr k e)
  then show "kv_distinct s \<Longrightarrow> ?thesis" by (cases e) auto
qed auto

lemma cmp_inner_other:
  assumes "kv_key p = Some k" "\<forall>s \<in> set ss. kv_distinct s" "kv_key p \<notin> kv_key ` set ss"
  shows "cmp_inner p ss = Some 0"
  using assms(2,3)
proof (induction ss)
  case (Cons s ss)
  obtain k' where "kv_key s = Some k'"
    using Cons.prems(1) kv_distinct_key by auto
  moreover have "k \<noteq> k'"
    using Cons.prems(2) assms(1) calculation by auto
  ultimately show ?case
    using Cons assms(1) by simp
qed simp

lemma cmp_inner_self:
  assumes p: "p \<in> set ss" and d: "distinct (map kv_key ss)" "\<forall>s \<in> set ss. kv_distinct s"
    and self: "\<And>k e. p = KVEpr k (Some e) \<Longrightarrow> epr_cmp (Some e) (Some e) = Some 0"
  shows "cmp_inner p ss = Some 1"
  using p d
proof (induction ss)
  case (Cons s ss)
  obtain k where k: "kv_key p = Some k"
    using Cons.prems kv_distinct_key by blast
  obtain k' where k': "kv_key s = Some k'"
    using Cons.prems(3) kv_distinct_key by auto
  show ?case
  proof (cases "p = s")
    case True
    then have rest: "cmp_inner p ss = Some 0"
      using Cons.prems k by (intro cmp_inner_other) auto
    show ?thesis
    proof (cases p)
      case (KVText kk t)
      then show ?thesis using True [symmetric] rest k by simp
    next
      case (KVEpr kk e)
      then obtain e' where "e = Some e'"
        using Cons.prems True by (cases e) auto
      then show ?thesis using True [symmetric] rest k KVEpr self [of kk e'] by simp
    qed
  next
    case False
    then have "p \<in> set ss"
      using Cons.prems(1) by simp
    moreover from this have "k \<noteq> k'"
      using Cons.prems(2) k k' by (metis distinct.simps(2) image_eqI list.set_map list.simps(9))
    ultimately show ?thesis
      using Cons k k' by simp
  qed
qed simp

lemma cmp_outer_all:
  "(\<forall>p \<in> set ps. cmp_inner p ss = Some 1) \<Longrightarrow> cmp_outer ps ss = Some (int (length ps))"
  by (induction ps) auto

lemma epr_cmp_uri_count:
  assumes "keys_distinct e1"
  shows "epr_cmp (Some e1) (Some e2) =
    Some (if epr_uri e1 = epr_uri e2 \<and> length (epr_selectors e1) = length (epr_selectors e2) then 0 else 1)"
  using assms
proof (induction "size e1" arbitrary: e1 e2 rule: less_induct)
  case less
  obtain a u ss where e1: "e1 = Epr a u ss"
    by (cases e1)
  have "cmp_inner p ss = Some 1" if p: "p \<in> set ss" for p
  proof (rule cmp_inner_self [OF p])
    fix k e
    assume pe: "p = KVEpr k (Some e)"
    have "size e < size e1"
      using p pe e1 size_list_estimation' [of p ss "size p" size] by simp
    moreover have "keys_distinct e"
      using less.prems p pe e1 by auto
    ultimately show "epr_cmp (Some e) (Some e) = Some 0"
      using less.hyps by simp
  qed (use less.prems e1 in auto)
  then have "cmp_outer ss ss = Some (int (length ss))"
    by (intro cmp_outer_all) blast
  then show ?case
    using e1 by simp
qed



section \<open>Endpoint references from strings\<close>

text \<open>\<open>epr_create\<close> copies the entries of a table, in the order of a scan, to an array of as many
  entries as the table counts; \<open>None\<close> is a write behind the array.\<close>

definition epr_create :: "string \<Rightarrow> key_value_t hash_t option \<Rightarrow> string option \<Rightarrow> epr_t option" where
  "epr_create uri selectors address =
     (let addr = (case address of None \<Rightarrow> WSA_TO_ANONYMOUS | Some a \<Rightarrow> a) in
      case selectors of
        None \<Rightarrow> Some (Epr addr uri [])
      | Some h \<Rightarrow> do {
          ns \<leftarrow> hash_scan_all h;
          if length ns \<le> unat (h_nodecount h)
          then Some (Epr addr uri
                 (map (\<lambda>hn. case hn_data hn of
                              KVText k t \<Rightarrow> key_value_create (Some (hn_key hn)) (Some t) None
                            | KVEpr k e \<Rightarrow> key_value_create (Some (hn_key hn)) None e) ns))
          else None
        })"

text \<open>The loop of \<open>epr_from_string\<close> that copies the parsed query into a table of selectors.\<close>

fun copy_selectors :: "alloc \<Rightarrow> nat \<Rightarrow> string hnode list \<Rightarrow> key_value_t hash_t \<Rightarrow> key_value_t hash_t option" where
  "copy_selectors al i [] h = Some h"
| "copy_selectors al i (hn # ns) h = do {
     let entry = key_value_create None (Some (hn_data hn)) None;
     (ok, h) \<leftarrow> hash_alloc_insert (fst (al i)) (snd (al i)) h (hn_key hn) entry;
     copy_selectors al (Suc i) ns h
   }"

definition epr_from_string :: "alloc \<Rightarrow> alloc \<Rightarrow> string \<Rightarrow> epr_t option" where
  "epr_from_string al1 al2 str =
     (case strchr str CHR ''?'' of
        None \<Rightarrow> epr_create str None None
      | Some p \<Rightarrow> do {
          let uri = takeWhile (\<lambda>c. c \<noteq> CHR ''?'') str;
          selectors \<leftarrow> u_parse_query al1 True (Some (tl p));
          case selectors of
            None \<Rightarrow> epr_create uri None None
          | Some sel \<Rightarrow> do {
              sn \<leftarrow> hash_create2 True HASHCOUNT_T_MAX None None;
              case sn of
                None \<Rightarrow> epr_create uri None None
              | Some selectors_new \<Rightarrow> do {
                  ns \<leftarrow> hash_scan_all sel;
                  selectors_new \<leftarrow> copy_selectors al2 0 ns selectors_new;
                  epr_create uri (Some selectors_new) None
                }
            }
        })"

lemma hash_scan_all_nodes: "hash_ok h \<Longrightarrow> hash_scan_all h = Some (hash_nodes h)"
  using scan_loop_at [OF _ hash_scan_begin_at, of h] by (simp add: hash_scan_all_def)

lemma add_if_new_insert:
  assumes "hash_ok h" "hash_map h key = None"
  shows "hash_add_if_new al i h key v = map_option snd (hash_alloc_insert (fst (al i)) (snd (al i)) h key v)"
  using hash_lookup_map [OF assms(1), of key] assms(2) by (auto simp: hash_add_if_new_def)

lemma copy_selectors_ok:
  assumes "filled al i h" "alloc_ok al" "i + length ns < 2 ^ 59"
    and "distinct (map hn_key ns)" "hn_key ` set ns \<inter> dom (hash_map h) = {}"
  shows "\<exists>h'. copy_selectors al i ns h = Some h' \<and> hash_ok h' \<and>
    hash_map h' = map_of (map (\<lambda>n. (hn_key n, KVText None (hn_data n))) ns) ++ hash_map h"
  using assms
proof (induction al i ns h rule: copy_selectors.induct)
  case (1 al i h)
  then show ?case by (simp add: filled_def)
next
  case (2 al i hn ns h)
  let ?e = "KVText None (hn_data hn)"
  have ok: "hash_ok h" and new: "hash_map h (hn_key hn) = None"
    using 2(2,6) by (auto simp: filled_def)
  have "i < 2 ^ 59"
    using 2(4) by simp
  then obtain h1 where h1: "hash_add_if_new al i h (hn_key hn) ?e = Some h1" "filled al (Suc i) h1"
    "hash_map h1 = (hash_map h)(hn_key hn \<mapsto> ?e)"
    using hash_add_if_new_ok [OF 2(2,3), of "hn_key hn" ?e] new by auto
  then obtain ok1 where ins: "hash_alloc_insert (fst (al i)) (snd (al i)) h (hn_key hn) ?e = Some (ok1, h1)"
    using add_if_new_insert [OF ok new, of al i ?e] by auto
  have "Suc i + length ns < 2 ^ 59" "distinct (map hn_key ns)" "hn_key ` set ns \<inter> dom (hash_map h1) = {}"
    using 2(4,5,6) h1(3) by auto
  then obtain h' where h': "copy_selectors al (Suc i) ns h1 = Some h'" "hash_ok h'"
    "hash_map h' = map_of (map (\<lambda>n. (hn_key n, KVText None (hn_data n))) ns) ++ hash_map h1"
    using 2(1) [of ?e "(ok1, h1)" ok1 h1] ins h1(2) 2(3) by auto
  have "map_of (map (\<lambda>n. (hn_key n, KVText None (hn_data n))) ns) (hn_key hn) = None"
    using 2(5) by (auto simp: map_of_eq_None_iff)
  then have "hash_map h' = map_of (map (\<lambda>n. (hn_key n, KVText None (hn_data n))) (hn # ns)) ++ hash_map h"
    using h'(3) h1(3) new by (auto simp: fun_eq_iff map_add_def split: option.splits)
  then show ?case
    using h'(1,2) ins by (simp add: fun_upd_def)
qed

lemma hash_map_of_nodes:
  fixes h :: "'a hash_t"
  assumes "hash_ok h"
  shows "map_of (map (\<lambda>n. (hn_key n, f (hn_data n))) (hash_nodes h)) = map_option f \<circ> hash_map h"
proof -
  have "map_of (map (\<lambda>n. (hn_key n, f (hn_data n))) ns) key = map_option f (map_option hn_data (find (\<lambda>n. hn_key n = key) ns))"
    for ns :: "'a hnode list" and key
    by (induction ns) auto
  then show ?thesis
    by (simp add: hash_map_def fun_eq_iff)
qed

lemma hash_nodes_card:
  assumes "hash_ok h" "hash_map h = map_of es"
  shows "length (hash_nodes h) \<le> length es"
proof -
  have d: "distinct (map hn_key (hash_nodes h))"
    using assms(1) by (simp add: hash_ok_def hash_content_def)
  have "hn_key ` set (hash_nodes h) = dom (hash_map h)"
    using hash_map_None [of h] by (metis domIff equalityI subsetI)
  then have "card (hn_key ` set (hash_nodes h)) \<le> length es"
    using assms(2) card_length [of "map fst es"] by (simp add: dom_map_of_conv_image_fst)
  then show ?thesis
    using distinct_card [OF d] by simp
qed

lemma hash_create2_filled:
  "\<exists>h :: 'v hash_t. hash_create2 True HASHCOUNT_T_MAX None None = Some (Some h) \<and> filled al 0 h \<and> hash_map h = Map.empty"
proof -
  from hash_create_with_ok [of None hnode_free2 HASHCOUNT_T_MAX None]
  obtain h :: "'v hash_t" where "hash_create_with hnode_free2 True HASHCOUNT_T_MAX None None = Some (Some h)"
    "hash_ok h" "hash_map h = Map.empty" "h_nodecount h = 0" "h_maxcount h = HASHCOUNT_T_MAX" "hash_nodes h = []"
    by auto
  then show ?thesis
    by (auto simp: hash_create2_def filled_def)
qed

text \<open>C27: An endpoint reference made from a string has what precedes the question mark as resource
  URI and, when every token of the query has an equals sign, one text selector for every key of
  the query, with the first value assigned to the key; when a token has none, the selectors are
  silently dropped.\<close>

theorem epr_from_string_selectors:
  assumes al: "alloc_ok al1" "alloc_ok al2" and len: "length q < 2 ^ 58" and uri: "CHR ''?'' \<notin> set uri"
  shows "epr_from_string al1 al2 uri = Some (Epr WSA_TO_ANONYMOUS uri []) \<and>
    (\<exists>sels. epr_from_string al1 al2 (uri @ CHR ''?'' # q) = Some (Epr WSA_TO_ANONYMOUS uri sels) \<and>
      (if malformed ''&;'' q then sels = []
       else distinct (map kv_key sels) \<and>
         set sels = {KVText (Some k) v | k v. map_of (assignments ''&;'' q) k = Some v}))"
proof -
  let ?as = "assignments ''&;'' q"
  have s: "strchr (uri @ CHR ''?'' # q) CHR ''?'' = Some (CHR ''?'' # q)"
    "takeWhile (\<lambda>c. c \<noteq> CHR ''?'') (uri @ CHR ''?'' # q) = uri"
    "strchr uri CHR ''?'' = None"
    using uri by (auto simp: strchr_append strchr_None takeWhile_append)
  have q: "0 + length q < 2 ^ 59"
    using len by simp
  obtain h :: "string hash_t" where h: "hash_create3 True HASHCOUNT_T_MAX None None = Some (Some h)"
    "filled al1 0 h" "hash_map h = Map.empty"
    using hash_create3_filled [of al1] by blast
  note parse = parse_loop_ok [OF h(2) al(1) q, of "''&;''"]
  show ?thesis
  proof (cases "malformed ''&;'' q")
    case True
    then have "u_parse_query al1 True (Some q) = Some None"
      using parse h by (simp add: u_parse_query_def u_parse_def)
    then show ?thesis
      using True s by (simp add: epr_from_string_def epr_create_def)
  next
    case False
    then obtain t where t: "u_parse_query al1 True (Some q) = Some (Some t)" "hash_ok t" "hash_map t = map_of ?as"
      using parse h by (auto simp: u_parse_query_def u_parse_def)
    obtain n :: "key_value_t hash_t" where n: "hash_create2 True HASHCOUNT_T_MAX None None = Some (Some n)"
      "filled al2 0 n" "hash_map n = Map.empty"
      using hash_create2_filled [of al2] by blast
    have "length ?as \<le> length q"
      using length_tokens [of "''&;''" q] by (auto simp: assignments_def intro: order_trans [OF length_filter_le])
    then have "length (hash_nodes t) \<le> length q"
      using hash_nodes_card [OF t(2,3)] by simp
    then have "0 + length (hash_nodes t) < 2 ^ 59"
      using len by simp
    moreover have "distinct (map hn_key (hash_nodes t))"
      using t(2) by (simp add: hash_ok_def hash_content_def)
    ultimately obtain n' where n': "copy_selectors al2 0 (hash_nodes t) n = Some n'" "hash_ok n'"
      "hash_map n' = map_of (map (\<lambda>n. (hn_key n, KVText None (hn_data n))) (hash_nodes t)) ++ hash_map n"
      using copy_selectors_ok [OF n(2) al(2)] n(3) by auto
    then have map': "hash_map n' = map_option (KVText None) \<circ> map_of ?as"
      using hash_map_of_nodes [OF t(2), of "KVText None"] n(3) t(3) by simp
    let ?kv = "\<lambda>hn. case hn_data hn of KVText k t \<Rightarrow> key_value_create (Some (hn_key hn)) (Some t) None
                            | KVEpr k e \<Rightarrow> key_value_create (Some (hn_key hn)) None e"
    let ?sels = "map ?kv (hash_nodes n')"
    have content: "hash_content n'"
      using n'(2) by (simp add: hash_ok_def)
    have node: "\<exists>v. hn_data m = KVText None v \<and> map_of ?as (hn_key m) = Some v" if "m \<in> set (hash_nodes n')" for m
      using that hash_map_Some [OF content, of "hn_key m" "hn_data m"] map' by auto
    have "epr_from_string al1 al2 (uri @ CHR ''?'' # q) = Some (Epr WSA_TO_ANONYMOUS uri ?sels)"
      using s t(1) n(1) n'(1) hash_scan_all_nodes [OF t(2)] hash_scan_all_nodes [OF n'(2)] content
      by (simp add: epr_from_string_def epr_create_def hash_content_def)
    moreover have "distinct (map kv_key ?sels)"
    proof -
      have "map kv_key ?sels = map (\<lambda>m. Some (hn_key m)) (hash_nodes n')"
        using node by (auto split: key_value_t.split)
      then show ?thesis
        using content by (simp add: hash_content_def distinct_map inj_on_def)
    qed
    moreover have "set ?sels = {KVText (Some k) v | k v. map_of ?as k = Some v}"
    proof -
      have "KVText (Some k) v \<in> set ?sels" if "map_of ?as k = Some v" for k v
      proof -
        have "hash_map n' k = Some (KVText None v)"
          using that map' by simp
        then obtain m where "m \<in> set (hash_nodes n')" "hn_key m = k" "hn_data m = KVText None v"
          using hash_map_Some [OF content] by blast
        then show ?thesis by force
      qed
      moreover have "\<exists>k v. ?kv m = KVText (Some k) v \<and> map_of ?as k = Some v" if "m \<in> set (hash_nodes n')" for m
        using node [OF that] by auto
      ultimately show ?thesis by auto
    qed
    ultimately show ?thesis
      using False s(3) by (simp add: epr_from_string_def epr_create_def)
  qed
qed

theorem epr_from_string_selectors_witness:
  "\<exists>sels. epr_from_string seq_alloc seq_alloc ''u?a=1&b=2'' = Some (Epr WSA_TO_ANONYMOUS ''u'' sels) \<and>
     KVText (Some ''a'') ''1'' \<in> set sels"
proof -
  have "assignments ''&;'' ''a=1&b=2'' = [(''a'', ''1''), (''b'', ''2'')]" "\<not> malformed ''&;'' ''a=1&b=2''"
    by code_simp+
  then show ?thesis
    using epr_from_string_selectors [OF seq_alloc_ok seq_alloc_ok, of "''a=1&b=2''" "''u''"] by auto
qed

end
