(* ===== verification/Ws_Filter.thy ===== *)
theory Ws_Filter
  imports Ws_Epr
begin

text \<open>
  Filters of enumerations and subscriptions: \<open>src/src/lib/wsman-filter.c\<close>.  A filter is a query, an
  association query that starts at an endpoint reference, or a set of selectors.  The outcomes of
  the allocator are an argument \<open>mal\<close>, by size in bytes.

  The lemmas show what survives when a filter is written to XML and read again, which depends on
  how many of the optional parts of an association query are there, and what \<open>filter_copy\<close> keeps.
\<close>

section \<open>State and construction\<close>

record filter_t =
  f_dialect :: "string option"
  f_query :: "string option"
  f_epr :: "epr_t option"
  f_selectors :: "key_value_t list"
  f_assocType :: int
  f_assocClass :: "string option"
  f_resultClass :: "string option"
  f_role :: "string option"
  f_resultRole :: "string option"
  f_resultProp :: "string list option"

definition filter_initialize :: filter_t where
  "filter_initialize = \<lparr>f_dialect = None, f_query = None, f_epr = None, f_selectors = [], f_assocType = 0,
     f_assocClass = None, f_resultClass = None, f_role = None, f_resultRole = None, f_resultProp = None\<rparr>"

definition or_else :: "'a option \<Rightarrow> 'a option \<Rightarrow> 'a option" where
  "or_else a b = (case a of None \<Rightarrow> b | Some x \<Rightarrow> Some x)"

text \<open>\<open>PropNum\<close> is the length of the array of result properties.  The outer \<open>None\<close> is a read behind the
  array that is passed in, or a write behind the selectors.\<close>

definition set_result_prop :: "(ulong \<Rightarrow> bool) \<Rightarrow> string list option \<Rightarrow> int \<Rightarrow> filter_t \<Rightarrow> filter_t option" where
  "set_result_prop mal resultProp propNum f =
     (case resultProp of
        Some ps \<Rightarrow>
          if propNum = 0 then Some f
          else if \<not> mal (of_int propNum * 8) then Some (f\<lparr>f_resultProp := None\<rparr>)
          else if nat propNum \<le> length ps then Some (f\<lparr>f_resultProp := Some (take (nat propNum) ps)\<rparr>)
          else None
      | None \<Rightarrow> Some f)"

definition filter_set ::
  "(ulong \<Rightarrow> bool) \<Rightarrow> filter_t \<Rightarrow> string option \<Rightarrow> string option \<Rightarrow> epr_t option \<Rightarrow> key_value_t hash_t option \<Rightarrow>
   int \<Rightarrow> string option \<Rightarrow> string option \<Rightarrow> string option \<Rightarrow> string option \<Rightarrow> string list option \<Rightarrow> int \<Rightarrow>
   (int \<times> filter_t) option" where
  "filter_set mal f dialect qry epr selectors assocType assocClass resultClass role resultRole resultProp propNum =
     (let f = f\<lparr>f_dialect := Some (case dialect of None \<Rightarrow> WSM_XPATH_FILTER_DIALECT | Some d \<Rightarrow> d)\<rparr> in
      case qry of
        Some q \<Rightarrow> Some (0, f\<lparr>f_query := Some q\<rparr>)
      | None \<Rightarrow>
          (case epr of
             Some e \<Rightarrow>
               map_option (Pair 0)
                 (set_result_prop mal resultProp propNum
                    (f\<lparr>f_epr := Some e, f_assocType := assocType,
                       f_assocClass := or_else assocClass (f_assocClass f),
                       f_resultClass := or_else resultClass (f_resultClass f),
                       f_role := or_else role (f_role f),
                       f_resultRole := or_else resultRole (f_resultRole f)\<rparr>))
           | None \<Rightarrow>
               (case selectors of
                  Some h \<Rightarrow> do {
                    ns \<leftarrow> hash_scan_all h;
                    if length ns = 0 then Some (0, f\<lparr>f_selectors := []\<rparr>)
                    else if \<not> mal (24 * h_nodecount h) \<or> unat (h_nodecount h) < length ns then None
                    else Some (0, f\<lparr>f_selectors :=
                           map (\<lambda>hn. case hn_data hn of
                                        KVText k t \<Rightarrow> key_value_create (Some (hn_key hn)) (Some t) None
                                      | KVEpr k e \<Rightarrow> key_value_create (Some (hn_key hn)) None e) ns\<rparr>)
                  }
                | None \<Rightarrow> Some (1, f))))"

text \<open>The inner \<open>None\<close> is \<open>NULL\<close>.\<close>

definition filter_create ::
  "(ulong \<Rightarrow> bool) \<Rightarrow> string option \<Rightarrow> string option \<Rightarrow> epr_t option \<Rightarrow> key_value_t hash_t option \<Rightarrow>
   int \<Rightarrow> string option \<Rightarrow> string option \<Rightarrow> string option \<Rightarrow> string option \<Rightarrow> string list option \<Rightarrow> int \<Rightarrow>
   filter_t option option" where
  "filter_create mal dialect qry epr selectors assocType assocClass resultClass role resultRole resultProp propNum = do {
     (ret, f) \<leftarrow> filter_set mal filter_initialize dialect qry epr selectors assocType assocClass resultClass role
                   resultRole resultProp propNum;
     Some (if ret = 1 then None else Some f)
   }"

definition filter_set_simple :: "(ulong \<Rightarrow> bool) \<Rightarrow> filter_t \<Rightarrow> string option \<Rightarrow> string option \<Rightarrow> (int \<times> filter_t) option" where
  "filter_set_simple mal f dialect qry = filter_set mal f dialect qry None None 0 None None None None None 0"

definition filter_create_simple :: "(ulong \<Rightarrow> bool) \<Rightarrow> string option \<Rightarrow> string option \<Rightarrow> filter_t option option" where
  "filter_create_simple mal dialect qry = filter_create mal dialect qry None None 0 None None None None None 0"

definition filter_set_assoc ::
  "(ulong \<Rightarrow> bool) \<Rightarrow> filter_t \<Rightarrow> epr_t option \<Rightarrow> int \<Rightarrow> string option \<Rightarrow> string option \<Rightarrow> string option \<Rightarrow>
   string option \<Rightarrow> string list option \<Rightarrow> int \<Rightarrow> (int \<times> filter_t) option" where
  "filter_set_assoc mal f epr assocType assocClass resultClass role resultRole resultProp propNum =
     filter_set mal f (Some WSM_ASSOCIATION_FILTER_DIALECT) None epr None assocType assocClass resultClass role
       resultRole resultProp propNum"

definition filter_create_assoc ::
  "(ulong \<Rightarrow> bool) \<Rightarrow> epr_t option \<Rightarrow> int \<Rightarrow> string option \<Rightarrow> string option \<Rightarrow> string option \<Rightarrow>
   string option \<Rightarrow> string list option \<Rightarrow> int \<Rightarrow> filter_t option option" where
  "filter_create_assoc mal epr assocType assocClass resultClass role resultRole resultProp propNum =
     filter_create mal (Some WSM_ASSOCIATION_FILTER_DIALECT) None epr None assocType assocClass resultClass role
       resultRole resultProp propNum"

definition filter_create_selector :: "(ulong \<Rightarrow> bool) \<Rightarrow> key_value_t hash_t option \<Rightarrow> filter_t option option" where
  "filter_create_selector mal selectors =
     filter_create mal (Some WSM_SELECTOR_FILTER_DIALECT) None None selectors 0 None None None None None 0"

text \<open>Unlike in \<open>epr_add_selector\<close>, a \<open>NULL\<close> key in the array is compared.\<close>

definition filter_add_selector_kv ::
  "(ulong \<Rightarrow> bool) \<Rightarrow> filter_t \<Rightarrow> string option \<Rightarrow> string option \<Rightarrow> epr_t option \<Rightarrow> (int \<times> filter_t) option" where
  "filter_add_selector_kv mal f key val epr =
     (case key of
        None \<Rightarrow> Some (0, f)
      | Some k \<Rightarrow>
          if val = None \<and> epr = None then Some (0, f)
          else do {
            i \<leftarrow> find_selector 0 (f_selectors f) k;
            if i < length (f_selectors f) then Some (- 1, f)
            else if \<not> mal (24 * of_nat (length (f_selectors f) + 1)) then Some (- 1, f)
            else Some (0, f\<lparr>f_selectors := f_selectors f @ [key_value_create (Some k) val epr]\<rparr>)
          })"

definition filter_add_selector :: "(ulong \<Rightarrow> bool) \<Rightarrow> filter_t \<Rightarrow> string option \<Rightarrow> string option \<Rightarrow> (int \<times> filter_t) option" where
  "filter_add_selector mal f key val = filter_add_selector_kv mal f key val None"

definition filter_add_selector_epr :: "(ulong \<Rightarrow> bool) \<Rightarrow> filter_t \<Rightarrow> string option \<Rightarrow> epr_t option \<Rightarrow> (int \<times> filter_t) option" where
  "filter_add_selector_epr mal f key val = filter_add_selector_kv mal f key None val"

text \<open>\<open>filter_copy\<close>; the outer \<open>None\<close> is a copy that counts selectors it has no array for.\<close>

definition filter_copy :: "(ulong \<Rightarrow> bool) \<Rightarrow> filter_t \<Rightarrow> filter_t option" where
  "filter_copy mal f =
     (if f_selectors f \<noteq> [] \<and> \<not> mal (24 * of_nat (length (f_selectors f))) then None
      else Some (filter_initialize\<lparr>
        f_dialect := f_dialect f,
        f_assocType := f_assocType f,
        f_epr := f_epr f,
        f_query := f_query f,
        f_selectors := f_selectors f,
        f_assocClass := f_assocClass f,
        f_resultClass := f_resultClass f,
        f_resultRole := f_resultRole f,
        f_resultProp :=
          (case f_resultProp f of
             None \<Rightarrow> None
           | Some ps \<Rightarrow> if mal (8 * of_nat (length ps)) then Some ps else None)\<rparr>))"

section \<open>XML\<close>

text \<open>Adding a child for a field that is set.\<close>

definition add_if_set :: "xmllib \<Rightarrow> xnode \<Rightarrow> string \<Rightarrow> string option \<Rightarrow> (nsdoc, xnode) state" where
  "add_if_set L node name v =
     (case v of None \<Rightarrow> State_Monad.return node | Some t \<Rightarrow> ws_xml_add_child L node (Some XML_NS_CIM_BINDING) name (Some t))"

fun add_result_props :: "xmllib \<Rightarrow> xnode \<Rightarrow> string list \<Rightarrow> (nsdoc, xnode) state" where
  "add_result_props L node [] = State_Monad.return node"
| "add_result_props L node (p # ps) = do {
     node \<leftarrow> ws_xml_add_child L node (Some XML_NS_CIM_BINDING) WSMB_INCLUDE_RESULT_PROPERTY (Some p);
     add_result_props L node ps
   }"

fun add_filter_selectors :: "xmllib \<Rightarrow> xnode \<Rightarrow> key_value_t list \<Rightarrow> (nsdoc, xnode) state" where
  "add_filter_selectors L node [] = State_Monad.return node"
| "add_filter_selectors L node (KVText k t # ss) = do {
     n \<leftarrow> make_new_xml_node L (Some XML_NS_WS_MAN) WSM_SELECTOR (Some t);
     add_filter_selectors L (add_kid node (add_attr n (name_attr k))) ss
   }"
| "add_filter_selectors L node (KVEpr k e # ss) = do {
     node \<leftarrow> epr_serialize L node None None e True;
     add_filter_selectors L node ss
   }"

definition dialect_attr :: "xnode \<Rightarrow> string option \<Rightarrow> xnode" where
  "dialect_attr n d =
     (case d of None \<Rightarrow> n | Some v \<Rightarrow> add_attr n \<lparr>xa_ns = None, xa_name = WSM_DIALECT, xa_value = v\<rparr>)"

definition filter_serialize :: "xmllib \<Rightarrow> xnode \<Rightarrow> filter_t \<Rightarrow> string option \<Rightarrow> (nsdoc, int \<times> xnode) state" where
  "filter_serialize L node f ns =
     (case f_query f of
        Some q \<Rightarrow> do {
          fn \<leftarrow> make_new_xml_node L ns WSM_FILTER (Some q);
          State_Monad.return (0, add_kid node (dialect_attr fn (f_dialect f)))
        }
      | None \<Rightarrow>
          (case f_epr f of
             Some e \<Rightarrow> do {
               fn \<leftarrow> make_new_xml_node L ns WSM_FILTER None;
               inst \<leftarrow> make_new_xml_node L (Some XML_NS_CIM_BINDING)
                         (if f_assocType f = 0 then WSMB_ASSOCIATED_INSTANCES else WSMB_ASSOCIATION_INSTANCES) None;
               inst \<leftarrow> epr_serialize L inst (Some XML_NS_CIM_BINDING) (Some WSMB_OBJECT) (Some e) True;
               inst \<leftarrow> add_if_set L inst WSMB_ASSOCIATION_CLASS_NAME (f_assocClass f);
               inst \<leftarrow> add_if_set L inst WSMB_ROLE (f_role f);
               inst \<leftarrow> add_if_set L inst WSMB_RESULT_CLASS_NAME (f_resultClass f);
               inst \<leftarrow> add_if_set L inst WSMB_RESULT_ROLE (f_resultRole f);
               inst \<leftarrow> (case f_resultProp f of
                           None \<Rightarrow> State_Monad.return inst
                         | Some ps \<Rightarrow> add_result_props L inst ps);
               State_Monad.return (0, add_kid node (dialect_attr (add_kid fn inst) (f_dialect f)))
             }
           | None \<Rightarrow>
               if f_selectors f \<noteq> [] then do {
                 fn \<leftarrow> make_new_xml_node L ns WSM_FILTER None;
                 st \<leftarrow> make_new_xml_node L (Some XML_NS_WS_MAN) WSM_SELECTOR_SET None;
                 st \<leftarrow> add_filter_selectors L st (f_selectors f);
                 State_Monad.return (0, add_kid node (dialect_attr (add_kid fn st) (f_dialect f)))
               }
               else State_Monad.return (- 1, node)))"

text \<open>The loops of \<open>filter_deserialize\<close>.  \<open>k\<close> is the number of iterations left.\<close>

fun read_result_props :: "xmllib \<Rightarrow> xnode option \<Rightarrow> nat \<Rightarrow> int \<Rightarrow> string list" where
  "read_result_props L inst 0 i = []"
| "read_result_props L inst (Suc k) i =
     (case ws_xml_get_child inst i (Some XML_NS_CIM_BINDING) (Some WSMB_INCLUDE_RESULT_PROPERTY) of
        None \<Rightarrow> []
      | Some n \<Rightarrow> ws_xml_get_node_text_safe L (Some n) # read_result_props L inst k (i + 1))"

fun read_filter_selectors :: "xmllib \<Rightarrow> xnode option \<Rightarrow> nat \<Rightarrow> int \<Rightarrow> key_value_t list" where
  "read_filter_selectors L st 0 i = []"
| "read_filter_selectors L st (Suc k) i =
     (case ws_xml_get_child st i (Some XML_NS_WS_MAN) (Some WSM_SELECTOR) of
        None \<Rightarrow> []
      | Some n \<Rightarrow>
          (let key = map_option xa_value (ws_xml_find_node_attr (Some n) None WSM_NAME);
               inst = ws_xml_get_child (Some n) 0 (Some XML_NS_ADDRESSING) (Some WSA_EPR)
           in if inst \<noteq> None
              then key_value_create key None (epr_deserialize L inst None None True)
              else key_value_create key (Some (ws_xml_get_node_text_safe L (Some n))) None)
          # read_filter_selectors L st k (i + 1))"

definition filter_dialect :: "xnode \<Rightarrow> string" where
  "filter_dialect fn =
     (case ws_xml_find_attr_value (Some fn) None WSM_DIALECT of
        Some d \<Rightarrow> d
      | None \<Rightarrow> (case attrs fn of a # as \<Rightarrow> xa_value a | [] \<Rightarrow> WSM_XPATH_FILTER_DIALECT))"

definition child_text :: "xmllib \<Rightarrow> xnode option \<Rightarrow> string \<Rightarrow> string option" where
  "child_text L inst name =
     map_option (\<lambda>n. ws_xml_get_node_text_safe L (Some n)) (ws_xml_get_child inst 0 (Some XML_NS_CIM_BINDING) (Some name))"

definition deserialize_assoc :: "(ulong \<Rightarrow> bool) \<Rightarrow> xmllib \<Rightarrow> xnode \<Rightarrow> filter_t \<Rightarrow> filter_t option" where
  "deserialize_assoc mal L fn f = do {
     let i0 = ws_xml_get_child (Some fn) 0 (Some XML_NS_CIM_BINDING) (Some WSMB_ASSOCIATED_INSTANCES);
     let i1 = ws_xml_get_child (Some fn) 0 (Some XML_NS_CIM_BINDING) (Some WSMB_ASSOCIATION_INSTANCES);
     (ty, inst) \<leftarrow> (case (i0, i1) of (Some n, _) \<Rightarrow> Some (0, n) | (None, Some n) \<Rightarrow> Some (1, n) | (None, None) \<Rightarrow> None);
     let f = f\<lparr>f_assocType := ty,
               f_epr := epr_deserialize L (Some inst) (Some XML_NS_CIM_BINDING) (Some WSMB_OBJECT) True,
               f_assocClass := child_text L (Some inst) WSMB_ASSOCIATION_CLASS_NAME,
               f_role := child_text L (Some inst) WSMB_ROLE,
               f_resultClass := child_text L (Some inst) WSMB_RESULT_CLASS_NAME,
               f_resultRole := child_text L (Some inst) WSMB_RESULT_ROLE\<rparr>;
     let properNum = ws_xml_get_child_count (Some inst) - 4;
     if \<not> mal (of_int properNum * 8) then None
     else Some (f\<lparr>f_resultProp := Some (read_result_props L (Some inst) (nat properNum) 0)\<rparr>)
   }"

text \<open>\<open>filter_deserialize\<close>; the inner \<open>None\<close> is \<open>NULL\<close>, the outer \<open>None\<close> a filter with selectors that were
  counted and not read.\<close>

definition filter_deserialize :: "(ulong \<Rightarrow> bool) \<Rightarrow> xmllib \<Rightarrow> xnode option \<Rightarrow> string option \<Rightarrow> filter_t option option" where
  "filter_deserialize mal L node ns =
     (case ws_xml_get_child node 0 ns (Some WSM_FILTER) of
        None \<Rightarrow> Some None
      | Some fn \<Rightarrow>
          (let d = filter_dialect fn;
               f = filter_initialize\<lparr>f_dialect := Some d\<rparr>
           in if strcmp d WSM_ASSOCIATION_FILTER_DIALECT = 0 then Some (deserialize_assoc mal L fn f)
              else if strcmp d WSM_SELECTOR_FILTER_DIALECT = 0 then
                (case ws_xml_get_child (Some fn) 0 (Some XML_NS_WS_MAN) (Some WSM_SELECTOR_SET) of
                   None \<Rightarrow> Some None
                 | Some st \<Rightarrow>
                     (let cnt = nat (ws_xml_get_child_count (Some st));
                          sels = read_filter_selectors L (Some st) cnt 0
                      in if length sels < cnt \<or> (0 < cnt \<and> \<not> mal (24 * of_nat cnt)) then None
                         else Some (Some (f\<lparr>f_selectors := sels\<rparr>))))
              else Some (Some (f\<lparr>f_query := Some (ws_xml_get_node_text_safe L (Some fn))\<rparr>))))"

section \<open>What a copy keeps\<close>

lemma filter_copy_drops_role: "filter_copy (\<lambda>_. True) f = Some (f\<lparr>f_role := None\<rparr>)"
  by (cases "f_resultProp f") (simp_all add: filter_copy_def filter_initialize_def)

section \<open>Round trips\<close>

definition prop_elem :: "xmllib \<Rightarrow> string \<Rightarrow> xnode" where
  "prop_elem L p = text_elem L XML_NS_CIM_BINDING WSMB_INCLUDE_RESULT_PROPERTY p"

definition opt_elem :: "xmllib \<Rightarrow> string \<Rightarrow> string option \<Rightarrow> xnode list" where
  "opt_elem L name v = (case v of None \<Rightarrow> [] | Some t \<Rightarrow> [text_elem L XML_NS_CIM_BINDING name t])"

lemma fst_add_if_set:
  "fst (run_state (add_if_set L (Elem ns nm as cs) name v) nd) = Elem ns nm as (cs @ opt_elem L name v)"
  by (cases v) (simp_all add: add_if_set_def ws_xml_add_child_def split_beta fst_make_node opt_elem_def)

lemma fst_add_result_props:
  "fst (run_state (add_result_props L (Elem ns nm as cs) ps) nd) = Elem ns nm as (cs @ map (prop_elem L) ps)"
  by (induction ps arbitrary: cs nd) (simp_all add: ws_xml_add_child_def split_beta fst_make_node prop_elem_def)

text \<open>The optional parts of an association filter, and the instance element it is written as.\<close>

definition assoc_kids :: "xmllib \<Rightarrow> epr_t \<Rightarrow> filter_t \<Rightarrow> xnode list" where
  "assoc_kids L e f =
     Elem (Some XML_NS_CIM_BINDING) WSMB_OBJECT [] (epr_kids L e) #
     opt_elem L WSMB_ASSOCIATION_CLASS_NAME (f_assocClass f) @ opt_elem L WSMB_ROLE (f_role f) @
     opt_elem L WSMB_RESULT_CLASS_NAME (f_resultClass f) @ opt_elem L WSMB_RESULT_ROLE (f_resultRole f) @
     (case f_resultProp f of None \<Rightarrow> [] | Some ps \<Rightarrow> map (prop_elem L) ps)"

definition optional_parts :: "filter_t \<Rightarrow> string list" where
  "optional_parts f = somes [f_assocClass f, f_role f, f_resultClass f, f_resultRole f]"

definition result_props :: "filter_t \<Rightarrow> string list" where
  "result_props f = (case f_resultProp f of None \<Rightarrow> [] | Some ps \<Rightarrow> ps)"

lemma binding_names_distinct [simp]:
  "distinct [WSMB_OBJECT, WSMB_ASSOCIATION_CLASS_NAME, WSMB_ROLE, WSMB_RESULT_CLASS_NAME, WSMB_RESULT_ROLE,
     WSMB_INCLUDE_RESULT_PROPERTY]"
  "WSMB_ASSOCIATED_INSTANCES \<noteq> WSMB_ASSOCIATION_INSTANCES" "WSMB_ASSOCIATION_INSTANCES \<noteq> WSMB_ASSOCIATED_INSTANCES"
  "WSM_ASSOCIATION_FILTER_DIALECT \<noteq> WSM_SELECTOR_FILTER_DIALECT" "WSM_SELECTOR_FILTER_DIALECT \<noteq> WSM_ASSOCIATION_FILTER_DIALECT"
  by (simp_all add: ws_names)

lemma binding_qname_simps:
  "ws_xml_is_node_qname (Some (Elem (Some ns) nm as cs)) (Some ns) (Some nm') \<longleftrightarrow> nm' = nm"
  by (simp add: ws_xml_is_node_qname_eq)

lemma elements_opt_elem: "elements (opt_elem L name v) = opt_elem L name v"
  by (cases v) (simp_all add: opt_elem_def)

lemma elements_props: "elements (map (prop_elem L) ps) = map (prop_elem L) ps"
  by (simp add: prop_elem_def filter_map o_def)

lemma qname_opt_elem:
  "filter (\<lambda>n. ws_xml_is_node_qname (Some n) (Some XML_NS_CIM_BINDING) (Some nm)) (opt_elem L name v) =
     (if nm = name then opt_elem L name v else [])"
  by (cases v) (simp_all add: opt_elem_def binding_qname_simps)

lemma qname_props:
  "filter (\<lambda>n. ws_xml_is_node_qname (Some n) (Some XML_NS_CIM_BINDING) (Some nm)) (map (prop_elem L) ps) =
     (if nm = WSMB_INCLUDE_RESULT_PROPERTY then map (prop_elem L) ps else [])"
  by (simp add: prop_elem_def filter_map o_def binding_qname_simps)

lemma assoc_kids_count:
  "length (elements (assoc_kids L e f)) = 1 + length (optional_parts f) + length (result_props f)"
  by (cases "f_assocClass f"; cases "f_role f"; cases "f_resultClass f"; cases "f_resultRole f"; cases "f_resultProp f")
    (simp_all add: assoc_kids_def optional_parts_def opt_elem_def result_props_def elements_props)

lemma assoc_kids_named:
  "filter (\<lambda>n. ws_xml_is_node_qname (Some n) (Some XML_NS_CIM_BINDING) (Some nm)) (elements (assoc_kids L e f)) =
     (if nm = WSMB_OBJECT then [Elem (Some XML_NS_CIM_BINDING) WSMB_OBJECT [] (epr_kids L e)]
      else if nm = WSMB_ASSOCIATION_CLASS_NAME then opt_elem L nm (f_assocClass f)
      else if nm = WSMB_ROLE then opt_elem L nm (f_role f)
      else if nm = WSMB_RESULT_CLASS_NAME then opt_elem L nm (f_resultClass f)
      else if nm = WSMB_RESULT_ROLE then opt_elem L nm (f_resultRole f)
      else if nm = WSMB_INCLUDE_RESULT_PROPERTY then map (prop_elem L) (result_props f)
      else [])"
proof -
  have "elements (assoc_kids L e f) = assoc_kids L e f"
    by (auto simp: filter_id_conv assoc_kids_def opt_elem_def prop_elem_def split: option.splits)
  then show ?thesis
    using binding_names_distinct(1)
    by (cases "f_resultProp f")
      (auto simp del: filter_filter simp: assoc_kids_def qname_opt_elem qname_props binding_qname_simps result_props_def)
qed

lemma child_text_opt:
  assumes "text_lib L P" "\<And>t. v = Some t \<Longrightarrow> P t"
    and "filter (\<lambda>n. ws_xml_is_node_qname (Some n) (Some XML_NS_CIM_BINDING) (Some nm)) (elements (kids inst)) = opt_elem L nm v"
  shows "child_text L (Some inst) nm = v"
  using assms by (cases v) (simp_all add: child_text_def ws_xml_get_child_nth Let_def opt_elem_def node_text_safe)

lemma read_result_props_eq:
  assumes "text_lib L P" "\<forall>p \<in> set ps. P p"
    and "filter (\<lambda>n. ws_xml_is_node_qname (Some n) (Some XML_NS_CIM_BINDING) (Some WSMB_INCLUDE_RESULT_PROPERTY))
      (elements (kids inst)) = map (prop_elem L) ps"
  shows "i \<le> length ps \<Longrightarrow> read_result_props L (Some inst) k (int i) = take k (drop i ps)"
proof (induction k arbitrary: i)
  case (Suc k)
  have child: "ws_xml_get_child (Some inst) (int i) (Some XML_NS_CIM_BINDING) (Some WSMB_INCLUDE_RESULT_PROPERTY) =
      (if i < length ps then Some (prop_elem L (ps ! i)) else None)"
    using assms(3) by (simp add: ws_xml_get_child_nth Let_def)
  show ?case
  proof (cases "i < length ps")
    case True
    then have "ws_xml_get_node_text_safe L (Some (prop_elem L (ps ! i))) = ps ! i"
      using assms(1,2) by (simp add: prop_elem_def node_text_safe)
    moreover have "drop i ps = ps ! i # drop (Suc i) ps"
      using True by (simp add: Cons_nth_drop_Suc)
    ultimately show ?thesis
      using Suc.IH [of "Suc i"] child True by (simp add: algebra_simps)
  qed (use child Suc.prems in simp)
qed simp

text \<open>An allocator that refuses sizes of half the address space and more.\<close>

definition real_malloc :: "(ulong \<Rightarrow> bool) \<Rightarrow> bool" where
  "real_malloc mal \<longleftrightarrow> (\<forall>n. mal n \<longleftrightarrow> unat n < 2 ^ 63)"

lemma real_malloc_props:
  assumes "real_malloc mal" "- 4 \<le> k" "k < 2 ^ 60"
  shows "mal (of_int k * 8) \<longleftrightarrow> 0 \<le> k"
proof -
  have "uint (of_int n :: ulong) = n mod 2 ^ 64" for n
    by (simp add: uint_word_of_int)
  from this [of "k * 8"] have "uint (of_int k * 8 :: ulong) = (k * 8) mod 2 ^ 64"
    by (simp only: of_int_mult of_int_numeral)
  moreover have "(k * 8) mod 2 ^ 64 = (if 0 \<le> k then k * 8 else k * 8 + 2 ^ 64)"
  proof (cases "0 \<le> k")
    case False
    then have "(k * 8 + 2 ^ 64) mod 2 ^ 64 = k * 8 + 2 ^ 64"
      using assms(2) by (intro mod_pos_pos_trivial) auto
    then show ?thesis using False by simp
  qed (use assms(3) in simp)
  moreover have "unat (of_int k * 8 :: ulong) < 2 ^ 63 \<longleftrightarrow> uint (of_int k * 8 :: ulong) < 2 ^ 63"
    using nat_less_iff [of "uint (of_int k * 8 :: ulong)" "2 ^ 63"] uint_ge_0 [of "of_int k * 8 :: ulong"]
    by (simp only: unat_eq_nat_uint) simp
  ultimately show ?thesis
    using assms by (auto simp: real_malloc_def)
qed

lemma dialect_attr_Elem:
  "dialect_attr (Elem ns nm [] cs) (Some d) = Elem ns nm [\<lparr>xa_ns = None, xa_name = WSM_DIALECT, xa_value = d\<rparr>] cs"
  by (simp add: dialect_attr_def)

lemma filter_dialect_attr:
  "filter_dialect (Elem ns nm [\<lparr>xa_ns = None, xa_name = WSM_DIALECT, xa_value = d\<rparr>] cs) = d"
  by (simp add: filter_dialect_def ws_xml_find_attr_value_def ws_xml_find_node_attr_def)

lemma only_child:
  "ws_xml_get_child (Some (Elem ns nm as [Elem ns' nm' as' cs])) 0 ns' (Some nm'') =
     (if nm'' = nm' then Some (Elem ns' nm' as' cs) else None)"
  by (simp add: ws_xml_get_child_0 ws_xml_is_node_qname_eq)

text \<open>The filter element of an association filter.\<close>

definition assoc_elem :: "xmllib \<Rightarrow> string option \<Rightarrow> epr_t \<Rightarrow> filter_t \<Rightarrow> xnode" where
  "assoc_elem L fns e f =
     Elem fns WSM_FILTER [\<lparr>xa_ns = None, xa_name = WSM_DIALECT, xa_value = WSM_ASSOCIATION_FILTER_DIALECT\<rparr>]
       [Elem (Some XML_NS_CIM_BINDING) (if f_assocType f = 0 then WSMB_ASSOCIATED_INSTANCES else WSMB_ASSOCIATION_INSTANCES) []
          (assoc_kids L e f)]"

lemma serialize_assoc:
  assumes "f_query f = None" "f_epr f = Some e" "f_dialect f = Some WSM_ASSOCIATION_FILTER_DIALECT"
  shows "fst (run_state (filter_serialize L (Elem ns nm as []) f fns) nd) = (0, Elem ns nm as [assoc_elem L fns e f])"
  using assms
  by (cases "f_resultProp f")
    (simp_all add: filter_serialize_def split_beta fst_make_node epr_serialize_def fst_epr_embedded fst_add_if_set
      fst_add_result_props dialect_attr_Elem assoc_elem_def assoc_kids_def)

lemma deserialize_assoc_eq:
  assumes L: "text_lib L P" and mal: "real_malloc mal" and e: "epr_ok P e"
    and ty: "f_assocType f \<in> {0, 1}" and len: "length (result_props f) < 2 ^ 59"
    and P: "\<forall>t \<in> set (optional_parts f @ result_props f). P t"
  shows "deserialize_assoc mal L (assoc_elem L fns e f) g =
    (let k = length (optional_parts f) + length (result_props f) in
     if k < 3 then None
     else Some (g\<lparr>f_assocType := f_assocType f, f_epr := Some e, f_assocClass := f_assocClass f, f_role := f_role f,
                  f_resultClass := f_resultClass f, f_resultRole := f_resultRole f,
                  f_resultProp := Some (take (k - 3) (result_props f))\<rparr>))"
proof -
  define inst where "inst = Elem (Some XML_NS_CIM_BINDING)
    (if f_assocType f = 0 then WSMB_ASSOCIATED_INSTANCES else WSMB_ASSOCIATION_INSTANCES) [] (assoc_kids L e f)"
  let ?k = "length (optional_parts f) + length (result_props f)"
  have kids: "kids inst = assoc_kids L e f"
    by (simp add: inst_def)
  have names: "child_text L (Some inst) WSMB_ASSOCIATION_CLASS_NAME = f_assocClass f"
      "child_text L (Some inst) WSMB_ROLE = f_role f"
      "child_text L (Some inst) WSMB_RESULT_CLASS_NAME = f_resultClass f"
      "child_text L (Some inst) WSMB_RESULT_ROLE = f_resultRole f"
    using binding_names_distinct(1) P kids
    by (auto intro!: child_text_opt [OF L] simp: assoc_kids_named optional_parts_def simp del: filter_filter)
  have "ws_xml_get_child (Some inst) 0 (Some XML_NS_CIM_BINDING) (Some WSMB_OBJECT) =
      Some (Elem (Some XML_NS_CIM_BINDING) WSMB_OBJECT [] (epr_kids L e))"
    using kids by (simp add: ws_xml_get_child_nth Let_def assoc_kids_named del: filter_filter)
  then have epr: "epr_deserialize L (Some inst) (Some XML_NS_CIM_BINDING) (Some WSMB_OBJECT) True = Some e"
    using epr_deserialize_kids [OF L e, of "Some WSMB_OBJECT"] by simp
  have count: "ws_xml_get_child_count (Some inst) - 4 = int ?k - 3"
    using assoc_kids_count [of L e f] kids by (simp add: ws_xml_get_child_count_def get_count_nodes_length)
  have "length (optional_parts f) \<le> 4"
    by (simp add: optional_parts_def)
  then have m: "mal (of_int (int ?k - 3) * 8) \<longleftrightarrow> 3 \<le> ?k"
    using len real_malloc_props [OF mal, of "int ?k - 3"] by auto
  have "filter (\<lambda>n. ws_xml_is_node_qname (Some n) (Some XML_NS_CIM_BINDING) (Some WSMB_INCLUDE_RESULT_PROPERTY))
      (elements (kids inst)) = map (prop_elem L) (result_props f)"
    using binding_names_distinct(1) kids by (auto simp: assoc_kids_named simp del: filter_filter)
  from read_result_props_eq [OF L _ this, of 0 "nat (int ?k - 3)"]
  have props: "read_result_props L (Some inst) (nat (int ?k - 3)) 0 = take (?k - 3) (result_props f)"
    using P by (simp add: nat_diff_distrib' nat_int_add)
  have "deserialize_assoc mal L (assoc_elem L fns e f) g =
    (if \<not> mal (of_int (ws_xml_get_child_count (Some inst) - 4) * 8) then None
     else Some (g\<lparr>f_assocType := f_assocType f,
       f_epr := epr_deserialize L (Some inst) (Some XML_NS_CIM_BINDING) (Some WSMB_OBJECT) True,
       f_assocClass := child_text L (Some inst) WSMB_ASSOCIATION_CLASS_NAME,
       f_role := child_text L (Some inst) WSMB_ROLE,
       f_resultClass := child_text L (Some inst) WSMB_RESULT_CLASS_NAME,
       f_resultRole := child_text L (Some inst) WSMB_RESULT_ROLE,
       f_resultProp := Some (read_result_props L (Some inst) (nat (ws_xml_get_child_count (Some inst) - 4)) 0)\<rparr>))"
    using ty unfolding inst_def deserialize_assoc_def assoc_elem_def Let_def by (auto simp: only_child)
  then show ?thesis
    unfolding names epr count m props by (simp add: Let_def not_less)
qed

text \<open>C29: Writing an association filter and reading it back.  The reader takes the number of children of
  the instance element minus four as the number of result properties, as if all four optional
  parts were always there and the object element did not count.  So a filter comes back unchanged
  only when at least three of the optional parts are set; otherwise result properties at the end are
  lost, and a filter with fewer than three optional parts and properties in total is rejected,
  because the size that is asked of the allocator is negative.\<close>

theorem filter_assoc_roundtrip:
  assumes "text_lib L P" "real_malloc mal" "epr_ok P e"
    and "f_query f = None" "f_epr f = Some e" "f_dialect f = Some WSM_ASSOCIATION_FILTER_DIALECT" "f_selectors f = []"
    and "f_assocType f \<in> {0, 1}" "length (result_props f) < 2 ^ 59"
    and "\<forall>t \<in> set (optional_parts f @ result_props f). P t"
  shows "filter_deserialize mal L (Some (snd (fst (run_state (filter_serialize L (Elem ns nm as []) f fns) nd)))) fns =
    (let k = length (optional_parts f) + length (result_props f) in
     Some (if k < 3 then None else Some (f\<lparr>f_resultProp := Some (take (k - 3) (result_props f))\<rparr>)))"
proof -
  have "ws_xml_get_child (Some (Elem ns nm as [assoc_elem L fns e f])) 0 fns (Some WSM_FILTER) = Some (assoc_elem L fns e f)"
    by (simp add: assoc_elem_def only_child)
  moreover have "filter_dialect (assoc_elem L fns e f) = WSM_ASSOCIATION_FILTER_DIALECT"
    by (simp add: assoc_elem_def filter_dialect_attr)
  ultimately show ?thesis
    using assms(4-7) deserialize_assoc_eq [OF assms(1-3,8-10), of fns] serialize_assoc [OF assms(4-6), of L ns nm as fns nd]
    by (cases f) (simp add: filter_deserialize_def filter_initialize_def Let_def)
qed

definition half_malloc :: "ulong \<Rightarrow> bool" where
  "half_malloc n \<longleftrightarrow> unat n < 2 ^ 63"

theorem filter_assoc_roundtrip_witness:
  "filter_deserialize half_malloc plain_xmllib (Some (snd (fst (run_state (filter_serialize plain_xmllib (Elem None ''x'' [] [])
     (filter_initialize\<lparr>f_dialect := Some WSM_ASSOCIATION_FILTER_DIALECT, f_epr := Some (Epr ''a'' ''u'' [])\<rparr>) None) empty_nsdoc)))) None
   = Some None"
  using filter_assoc_roundtrip [OF plain_text_lib [of "\<lambda>_. True"], of half_malloc "Epr ''a'' ''u'' []"
      "filter_initialize\<lparr>f_dialect := Some WSM_ASSOCIATION_FILTER_DIALECT, f_epr := Some (Epr ''a'' ''u'' [])\<rparr>" None "''x''" "[]" None empty_nsdoc]
  by (simp add: real_malloc_def half_malloc_def filter_initialize_def optional_parts_def result_props_def)

text \<open>The children a selector set of a filter gets.\<close>

fun filter_sel_kids :: "xmllib \<Rightarrow> key_value_t \<Rightarrow> xnode list" where
  "filter_sel_kids L (KVText k t) = [sel_tree L (KVText k t)]"
| "filter_sel_kids L (KVEpr k None) = []"
| "filter_sel_kids L (KVEpr k (Some e)) = epr_kids L e"

fun is_text :: "key_value_t \<Rightarrow> bool" where
  "is_text (KVText k t) = True"
| "is_text (KVEpr k e) = False"

lemma fst_add_filter_selectors:
  "fst (run_state (add_filter_selectors L (Elem ns nm as cs) ss) nd) = Elem ns nm as (cs @ concat (map (filter_sel_kids L) ss))"
proof (induction ss arbitrary: cs nd)
  case (Cons s ss)
  show ?case
    by (cases "(L, s)" rule: filter_sel_kids.cases)
      (simp_all add: split_beta fst_make_node epr_serialize_def fst_epr_embedded Cons.IH)
qed simp

lemma elements_filter_sel: "elements (concat (map (filter_sel_kids L) ss)) = concat (map (filter_sel_kids L) ss)"
proof (induction ss)
  case (Cons s ss)
  have "elements (epr_kids L e) = epr_kids L e" for e
    by (cases e) simp
  then show ?case using Cons by (cases "(L, s)" rule: filter_sel_kids.cases) auto
qed simp

lemma count_filter_sel:
  assumes "\<forall>s \<in> set ss. kv_ok P s"
  shows "length (concat (map (filter_sel_kids L) ss)) = length ss + length (filter (\<lambda>s. \<not> is_text s) ss)"
  using assms
proof (induction ss)
  case (Cons s ss)
  have "length (epr_kids L e) = 2" for e
    by (cases e) simp
  then show ?case using Cons by (cases "(L, s)" rule: filter_sel_kids.cases) auto
qed simp

lemma named_filter_sel:
  "filter (\<lambda>n. ws_xml_is_node_qname (Some n) (Some XML_NS_WS_MAN) (Some WSM_SELECTOR)) (concat (map (filter_sel_kids L) ss)) =
     map (sel_tree L) (filter is_text ss)"
proof (induction ss)
  case (Cons s ss)
  have "XML_NS_WS_MAN \<noteq> XML_NS_ADDRESSING"
    using wsa_names_distinct by simp
  then have "filter (\<lambda>n. ws_xml_is_node_qname (Some n) (Some XML_NS_WS_MAN) (Some WSM_SELECTOR)) (epr_kids L e) = []" for e
    by (cases e) (simp add: ws_xml_is_node_qname_eq)
  then show ?case using Cons by (cases "(L, s)" rule: filter_sel_kids.cases) (auto simp: ws_xml_is_node_qname_eq)
qed simp

lemma read_filter_selectors_text:
  assumes "text_lib L P" "\<forall>s \<in> set ts. kv_ok P s \<and> is_text s"
    and "filter (\<lambda>n. ws_xml_is_node_qname (Some n) (Some XML_NS_WS_MAN) (Some WSM_SELECTOR)) (elements (kids st)) = map (sel_tree L) ts"
  shows "i \<le> length ts \<Longrightarrow> read_filter_selectors L (Some st) k (int i) = take k (drop i ts)"
proof (induction k arbitrary: i)
  case (Suc k)
  have child: "ws_xml_get_child (Some st) (int i) (Some XML_NS_WS_MAN) (Some WSM_SELECTOR) =
      (if i < length ts then Some (sel_tree L (ts ! i)) else None)"
    using assms(3) by (simp add: ws_xml_get_child_nth Let_def)
  show ?case
  proof (cases "i < length ts")
    case True
    then have "kv_ok P (ts ! i)" "is_text (ts ! i)"
      using assms(2) by auto
    then obtain key t where t: "ts ! i = KVText (Some key) t" "P t"
      by (cases "ts ! i") auto
    have "drop i ts = ts ! i # drop (Suc i) ts"
      using True by (simp add: Cons_nth_drop_Suc)
    then show ?thesis
      using Suc.IH [of "Suc i"] child True t assms(1) find_name_attr [of "Some XML_NS_WS_MAN" WSM_SELECTOR key]
      by (simp add: algebra_simps Let_def get_child_text node_text_safe wsa_names_distinct(3) ws_xml_find_attr_value_def)
  qed (use child Suc.prems in simp)
qed simp

text \<open>Writing a selector filter and reading it back.  It comes back unchanged when all selectors are
  texts.  Selectors that are endpoint references are written without a selector element around
  them, so the reader counts children it never reads, and the filter has uninitialised selectors.\<close>

theorem filter_selector_roundtrip:
  assumes L: "text_lib L P" and mal: "real_malloc mal" and len: "length sels < 2 ^ 50"
    and sels: "sels \<noteq> []" "\<forall>s \<in> set sels. kv_ok P s"
    and f: "f = filter_initialize\<lparr>f_dialect := Some WSM_SELECTOR_FILTER_DIALECT, f_selectors := sels\<rparr>"
  shows "filter_deserialize mal L (Some (snd (fst (run_state (filter_serialize L (Elem ns nm as []) f fns) nd)))) fns =
    (if \<forall>s \<in> set sels. is_text s then Some (Some f) else None)"
proof -
  define st where "st = Elem (Some XML_NS_WS_MAN) WSM_SELECTOR_SET [] (concat (map (filter_sel_kids L) sels))"
  define fn where "fn = Elem fns WSM_FILTER [\<lparr>xa_ns = None, xa_name = WSM_DIALECT, xa_value = WSM_SELECTOR_FILTER_DIALECT\<rparr>] [st]"
  have ser: "fst (run_state (filter_serialize L (Elem ns nm as []) f fns) nd) = (0, Elem ns nm as [fn])"
    using sels(1) f
    by (simp add: filter_serialize_def filter_initialize_def split_beta fst_make_node fst_add_filter_selectors dialect_attr_Elem st_def fn_def)
  have fn: "ws_xml_get_child (Some (Elem ns nm as [fn])) 0 fns (Some WSM_FILTER) = Some fn"
    "filter_dialect fn = WSM_SELECTOR_FILTER_DIALECT"
    "ws_xml_get_child (Some fn) 0 (Some XML_NS_WS_MAN) (Some WSM_SELECTOR_SET) = Some st"
    by (simp_all add: fn_def st_def only_child filter_dialect_attr)
  define c where "c = length sels + length (filter (\<lambda>s. \<not> is_text s) sels)"
  have cnt: "nat (ws_xml_get_child_count (Some st)) = c"
    using count_filter_sel [OF sels(2), of L] elements_filter_sel [of L sels]
    by (simp add: c_def st_def ws_xml_get_child_count_def get_count_nodes_length)
  have "filter (\<lambda>n. ws_xml_is_node_qname (Some n) (Some XML_NS_WS_MAN) (Some WSM_SELECTOR)) (elements (kids st)) =
      map (sel_tree L) (filter is_text sels)"
    using named_filter_sel [of L sels] elements_filter_sel [of L sels] by (simp add: st_def del: filter_filter)
  from read_filter_selectors_text [OF L _ this, of 0 c]
  have read: "read_filter_selectors L (Some st) c 0 = take c (filter is_text sels)"
    using sels(2) by simp
  have "c \<le> 2 * length sels"
    by (simp add: c_def mult_2)
  then have "24 * c < 2 ^ 63"
    using len by simp
  moreover have "unat (of_nat (24 * c) :: ulong) \<le> 24 * c"
    by (simp only: unat_of_nat) (rule mod_less_eq_dividend)
  ultimately have "mal (of_nat (24 * c))"
    using mal unfolding real_malloc_def by (meson le_less_trans)
  then have m: "mal (24 * of_nat c)"
    by (simp only: of_nat_mult of_nat_numeral)
  have result: "filter_deserialize mal L (Some (snd (fst (run_state (filter_serialize L (Elem ns nm as []) f fns) nd)))) fns =
      (if length (take c (filter is_text sels)) < c then None else Some (Some (f\<lparr>f_selectors := take c (filter is_text sels)\<rparr>)))"
    unfolding filter_deserialize_def ser using m by (simp add: fn cnt read Let_def) (simp add: f)
  show ?thesis
  proof (cases "\<forall>s \<in> set sels. is_text s")
    case True
    then have "filter is_text sels = sels" "c = length sels"
      by (simp_all add: c_def)
    then show ?thesis
      unfolding result using True f by simp
  next
    case False
    then have "0 < length (filter (\<lambda>s. \<not> is_text s) sels)"
      by (auto simp: filter_empty_conv)
    moreover have "length (take c (filter is_text sels)) \<le> length sels"
      by (metis length_filter_le length_take min.coboundedI1 min.commute)
    ultimately have "length (take c (filter is_text sels)) < c"
      unfolding c_def by linarith
    then show ?thesis
      unfolding result by (simp only: if_True if_not_P [OF False])
  qed
qed

theorem filter_selector_roundtrip_witness:
  "filter_deserialize half_malloc plain_xmllib (Some (snd (fst (run_state (filter_serialize plain_xmllib (Elem None ''x'' [] [])
     (filter_initialize\<lparr>f_dialect := Some WSM_SELECTOR_FILTER_DIALECT, f_selectors := [KVText (Some ''k'') ''v'']\<rparr>) None) empty_nsdoc)))) None
   = Some (Some (filter_initialize\<lparr>f_dialect := Some WSM_SELECTOR_FILTER_DIALECT, f_selectors := [KVText (Some ''k'') ''v'']\<rparr>))"
  using filter_selector_roundtrip [OF plain_text_lib [of "\<lambda>_. True"], of half_malloc "[KVText (Some ''k'') ''v'']" _ None "''x''" "[]" None empty_nsdoc,
      OF _ _ _ _ refl]
  by (simp add: real_malloc_def half_malloc_def)

end
