(* ===== verification/Ws_Duration.thy ===== *)
theory Ws_Duration
  imports Ws_Xml Ws_Faults
begin

text \<open>
  Durations and points in time as XML Schema writes them, from the end of
  \<open>src/src/lib/wsman-xml-serialize.c\<close>, and the expiration times that requests set with them, from
  the end of \<open>src/src/lib/wsman-soap-envelope.c\<close>.

  \<open>strtol\<close> and the conversions of \<open>sscanf\<close> are modelled with their end positions, saturation at the
  range of \<open>long\<close> and truncation to \<open>int\<close>.  What depends on the machine is an argument: \<open>dround\<close> is
  \<open>(int)floor(f + 0.5)\<close> of the double that the text of a decimal fraction denotes, \<open>mktime\<close> and
  \<open>isdst\<close> are those of the time zone of the server, and the clock is passed in.

  The lemmas show that the parser ends on every text, that it reads back every printed duration,
  and which expiration time a request gets.
\<close>

section \<open>Numbers inside a text\<close>

text \<open>\<open>strtol(s, &e, 10)\<close>: the value and the rest of the text; \<open>None\<close> when nothing is converted.\<close>

definition skip_sign :: "string \<Rightarrow> string" where
  "skip_sign s = (if s \<noteq> [] \<and> (hd s = CHR ''-'' \<or> hd s = CHR ''+'') then tl s else s)"

definition strtol_end :: "string \<Rightarrow> (int \<times> string) option" where
  "strtol_end s =
     (let ds = skip_sign (dropWhile c_isspace s) in
      if takeWhile c_isdigit ds = [] then None
      else Some (strtol10 s, dropWhile c_isdigit ds))"

definition to_int :: "int \<Rightarrow> int" where
  "to_int v = sint (word_of_int v :: 32 word)"

text \<open>The text that \<open>strtod\<close> leaves over, when it is called where an integer is followed by a point.\<close>

definition strtod_end :: "string \<Rightarrow> string" where
  "strtod_end s =
     (let r = dropWhile c_isdigit (skip_sign (dropWhile c_isspace s));
          r = dropWhile c_isdigit (tl r)
      in if r \<noteq> [] \<and> (hd r = CHR ''e'' \<or> hd r = CHR ''E'') \<and> takeWhile c_isdigit (skip_sign (tl r)) \<noteq> []
         then dropWhile c_isdigit (skip_sign (tl r)) else r)"

lemma length_skip_sign: "length (skip_sign s) \<le> length s"
  by (cases s) (auto simp: skip_sign_def)

lemma strtol_end_length: "strtol_end s = Some (v, e) \<Longrightarrow> length e < length s"
proof -
  assume a: "strtol_end s = Some (v, e)"
  let ?ds = "skip_sign (dropWhile c_isspace s)"
  have "takeWhile c_isdigit ?ds \<noteq> []" "e = dropWhile c_isdigit ?ds"
    using a by (auto simp: strtol_end_def Let_def split: if_splits)
  then have "length e < length ?ds"
    by (metis length_append length_greater_0_conv less_add_same_cancel2 takeWhile_dropWhile_id)
  also have "\<dots> \<le> length s"
    using length_skip_sign [of "dropWhile c_isspace s"] length_dropWhile_le [of c_isspace s] by simp
  finally show ?thesis .
qed

lemma strtod_end_length: "length (strtod_end s) \<le> length s"
proof -
  have d: "length (dropWhile c_isdigit r) \<le> length r" for r
    by (rule length_dropWhile_le)
  have t: "length (tl r) \<le> length r" for r :: string
    by simp
  let ?r = "dropWhile c_isdigit (tl (dropWhile c_isdigit (skip_sign (dropWhile c_isspace s))))"
  have r: "length ?r \<le> length s"
    by (meson d t length_skip_sign length_dropWhile_le order_trans)
  have "length (dropWhile c_isdigit (skip_sign (tl ?r))) \<le> length ?r"
    by (meson d t length_skip_sign order_trans)
  then show ?thesis
    using r by (simp add: strtod_end_def Let_def)
qed

section \<open>Durations\<close>

record duration =
  d_years :: int
  d_months :: int
  d_days :: int
  d_hours :: int
  d_mins :: int
  d_secs :: int
  d_got :: int
  d_time :: bool

text \<open>One component with the number \<open>v\<close> and the unit \<open>u\<close>; \<open>None\<close> is a wrong order or a wrong unit.\<close>

definition duration_unit :: "duration \<Rightarrow> int \<Rightarrow> char \<Rightarrow> duration option" where
  "duration_unit d v u =
     (if u = CHR ''Y'' then
        (if d_got d \<le> 32 \<or> d_time d then None else Some (d\<lparr>d_years := v, d_got := 32\<rparr>))
      else if u = CHR ''M'' then
        (if \<not> d_time d then
           (if d_got d \<le> 16 then None else Some (d\<lparr>d_months := v, d_got := 16\<rparr>))
         else if d_got d \<le> 2 \<or> \<not> d_time d then None
         else Some (d\<lparr>d_mins := v, d_got := 2\<rparr>))
      else if u = CHR ''D'' then
        (if d_got d \<le> 8 \<or> d_time d then None else Some (d\<lparr>d_days := v, d_got := 8\<rparr>))
      else if u = CHR ''H'' then
        (if d_got d \<le> 4 \<or> \<not> d_time d then None else Some (d\<lparr>d_hours := v, d_got := 4\<rparr>))
      else if u = CHR ''S'' then
        (if d_got d \<le> 1 \<or> \<not> d_time d then None else Some (d\<lparr>d_secs := v, d_got := 1\<rparr>))
      else None)"

text \<open>The number in front of a unit: with a fraction it is rounded, and must be one of seconds.  The
  result is the number and the text that starts with the unit.\<close>

definition duration_number :: "(string \<Rightarrow> int) \<Rightarrow> bool \<Rightarrow> string \<Rightarrow> (int \<times> string) option" where
  "duration_number dround time t =
     (case strtol_end t of
        None \<Rightarrow> None
      | Some (l, e) \<Rightarrow>
          (let v = to_int l in
           if time \<and> e \<noteq> [] \<and> hd e = CHR ''.'' then
             (let e = strtod_end t in
              if e = [] \<or> hd e \<noteq> CHR ''S'' then None
              else Some (if dround t > v then v + 1 else v, e))
           else Some (v, e)))"

lemma duration_number_length:
  "duration_number dround time t = Some (v, u # rest) \<Longrightarrow> length rest < length t"
  using strtod_end_length [of t] strtol_end_length [of t]
  by (force simp: duration_number_def Let_def split: option.splits if_splits prod.splits)

text \<open>The loop of \<open>ws_deserialize_duration\<close> on the text from \<open>t\<close> on, after the increment.\<close>

function duration_loop :: "(string \<Rightarrow> int) \<Rightarrow> duration \<Rightarrow> string \<Rightarrow> duration option" where
  "duration_loop dround d [] = Some d"
| "duration_loop dround d (c # cs) =
     (if c = CHR ''T'' then duration_loop dround (d\<lparr>d_time := True\<rparr>) cs
      else case duration_number dround (d_time d) (c # cs) of
             Some (v, u # rest) \<Rightarrow>
               (case duration_unit d v u of
                  None \<Rightarrow> None
                | Some d' \<Rightarrow> duration_loop dround d' rest)
           | _ \<Rightarrow> None)"
  by pat_completeness auto
termination
proof (relation "measure (\<lambda>(dr, d, s). length s)", goal_cases)
  case (3 dround d c cs p v e u rest d')
  then have "length rest < length (c # cs)"
    using duration_number_length [of dround "d_time d" "c # cs" v u rest] by simp
  then show ?case by simp
qed simp_all

definition duration_init :: duration where
  "duration_init = \<lparr>d_years = 0, d_months = 0, d_days = 0, d_hours = 0, d_mins = 0, d_secs = 0, d_got = 64, d_time = False\<rparr>"

text \<open>\<open>None\<close> is the result 1, in which case \<open>*value\<close> is not written.\<close>

definition ws_deserialize_duration :: "(string \<Rightarrow> int) \<Rightarrow> string option \<Rightarrow> int option" where
  "ws_deserialize_duration dround text =
     (case text of
        None \<Rightarrow> None
      | Some t \<Rightarrow>
          (let negative = (t \<noteq> [] \<and> hd t = CHR ''-'');
               t = (if negative then tl t else t)
           in if t = [] \<or> hd t \<noteq> CHR ''P'' then None
              else case duration_loop dround duration_init (tl t) of
                     None \<Rightarrow> None
                   | Some d \<Rightarrow>
                       if (d_time d \<and> d_got d > 4) \<or> d_got d = 64 then None
                       else
                         (let vs = d_secs d + 60 * d_mins d + 60 * 60 * d_hours d + 60 * 60 * 24 * d_days d +
                                   60 * 60 * 24 * 30 * d_months d + 60 * 60 * 24 * 30 * 12 * d_years d
                          in Some (if negative then 0 - vs else vs))))"

section \<open>Points in time\<close>

text \<open>\<open>%d\<close> of \<open>sscanf\<close> is \<open>strtol\<close> cut to \<open>int\<close>; a literal character must be the next one.  The format
  is a list of conversions; the result is the values that were converted before the first failure.\<close>

datatype scan_item = ScanInt | ScanLit char

fun sscanf_ints :: "scan_item list \<Rightarrow> string \<Rightarrow> int list" where
  "sscanf_ints [] s = []"
| "sscanf_ints (ScanInt # fs) s =
     (case strtol_end s of None \<Rightarrow> [] | Some (v, r) \<Rightarrow> to_int v # sscanf_ints fs r)"
| "sscanf_ints (ScanLit c # fs) s = (if s \<noteq> [] \<and> hd s = c then sscanf_ints fs (tl s) else [])"

definition datetime_format :: "scan_item list" where
  "datetime_format =
     [ScanInt, ScanLit CHR ''-'', ScanInt, ScanLit CHR ''-'', ScanInt, ScanLit CHR ''T'',
      ScanInt, ScanLit CHR '':'', ScanInt, ScanLit CHR '':'', ScanInt, ScanInt, ScanLit CHR '':'', ScanInt]"

record tm =
  tm_year :: int
  tm_mon :: int
  tm_mday :: int
  tm_hour :: int
  tm_min :: int
  tm_sec :: int
  tm_isdst :: int

record XML_DATETIME =
  xd_tm :: tm
  tz_min :: int

definition ws_deserialize_datetime :: "int \<Rightarrow> string option \<Rightarrow> XML_DATETIME option" where
  "ws_deserialize_datetime isdst text =
     (case text of
        None \<Rightarrow> None
      | Some t \<Rightarrow>
          (case sscanf_ints datetime_format t of
             [year, mon, mday, hour, minute, sec, hours, mins] \<Rightarrow>
               if year < 1900 \<or> year > 3000 \<or> mon < 1 \<or> mon > 12 \<or> mday < 1 \<or> mday > 31 \<or>
                  hour < 0 \<or> hour > 23 \<or> minute < 0 \<or> minute > 59 \<or> sec < 0 \<or> sec > 61 \<or>
                  hours < - 24 \<or> hours > 24 \<or> mins < 0 \<or> mins > 59
               then None
               else Some \<lparr>xd_tm = \<lparr>tm_year = year - 1900, tm_mon = mon - 1, tm_mday = mday, tm_hour = hour,
                                    tm_min = minute, tm_sec = sec, tm_isdst = isdst\<rparr>,
                          tz_min = (if hours < 0 then 60 * hours - mins else 60 * hours + mins)\<rparr>
           | _ \<Rightarrow> None))"

section \<open>Expiration times\<close>

text \<open>What the code asks of the operating system: the clock in seconds, the daylight saving flag of
  the current local time, \<open>mktime\<close>, and the rounding of decimal fractions.\<close>

record clock =
  tv_sec :: int
  clk_isdst :: int
  clk_mktime :: "tm \<Rightarrow> int"
  clk_dround :: "string \<Rightarrow> int"

text \<open>\<open>wsman_set_expiretime\<close>: the new expiration time and the fault code.\<close>

definition wsman_set_expiretime :: "clock \<Rightarrow> string option \<Rightarrow> 64 word \<Rightarrow> 64 word \<times> WsmanFaultCodeType" where
  "wsman_set_expiretime clk text expire =
     (case text of
        None \<Rightarrow> (expire, WSEN_INVALID_EXPIRATION_TIME)
      | Some t \<Rightarrow>
          if t \<noteq> [] \<and> hd t = CHR ''P'' then
            (case ws_deserialize_duration (clk_dround clk) text of
               None \<Rightarrow> (expire, WSEN_INVALID_EXPIRATION_TIME)
             | Some timeout \<Rightarrow> (word_of_int (tv_sec clk + timeout), WSMAN_RC_OK))
          else
            (case ws_deserialize_datetime (clk_isdst clk) text of
               None \<Rightarrow> (expire, WSEN_UNSUPPORTED_EXPIRATION_TYPE)
             | Some tmx \<Rightarrow> (word_of_int (clk_mktime clk (xd_tm tmx) + 60 * tz_min tmx), WSMAN_RC_OK)))"

definition time_expired :: "clock \<Rightarrow> 64 word \<Rightarrow> bool" where
  "time_expired clk lt =
     (if lt = 0 then False else if \<not> (word_of_int (tv_sec clk) < lt) then True else False)"

section \<open>Printed durations are read back\<close>

fun duration_part :: "char \<Rightarrow> nat option \<Rightarrow> string" where
  "duration_part u None = []"
| "duration_part u (Some n) = show_nat n @ [u]"

text \<open>The texts of durations: every component is optional, and the letter T stands in front of the
  components of the time of day when there is one.\<close>

definition show_duration ::
  "bool \<Rightarrow> nat option \<Rightarrow> nat option \<Rightarrow> nat option \<Rightarrow> nat option \<Rightarrow> nat option \<Rightarrow> nat option \<Rightarrow> string" where
  "show_duration neg y mo d h mi s =
     (if neg then ''-'' else []) @ ''P'' @
     duration_part CHR ''Y'' y @ duration_part CHR ''M'' mo @ duration_part CHR ''D'' d @
     (if h = None \<and> mi = None \<and> s = None then []
      else CHR ''T'' # duration_part CHR ''H'' h @ duration_part CHR ''M'' mi @ duration_part CHR ''S'' s)"

definition part_value :: "nat option \<Rightarrow> int" where
  "part_value v = (case v of None \<Rightarrow> 0 | Some n \<Rightarrow> int n)"

definition seconds_of ::
  "nat option \<Rightarrow> nat option \<Rightarrow> nat option \<Rightarrow> nat option \<Rightarrow> nat option \<Rightarrow> nat option \<Rightarrow> int" where
  "seconds_of y mo d h mi s =
     ((((part_value y * 12 + part_value mo) * 30 + part_value d) * 24 + part_value h) * 60 + part_value mi) * 60 + part_value s"

lemma show_nat_Cons: "\<exists>c cs. show_nat n = c # cs \<and> c_isdigit c"
  using show_nat_digits [of n] show_nat_nonempty [of n] by (metis list.exhaust list.set_intros(1))

lemma strtol_end_show_nat:
  assumes "n < 2 ^ 63" "\<not> c_isdigit u"
  shows "strtol_end (show_nat n @ u # rest) = Some (int n, u # rest)"
proof -
  obtain c cs where c: "show_nat n = c # cs" "c_isdigit c"
    using show_nat_Cons by blast
  have "\<not> c_isspace c" "c \<noteq> CHR ''-''" "c \<noteq> CHR ''+''"
    using c(2) by (auto simp: c_isdigit_def c_isspace_def less_eq_char_def)
  then have skip: "dropWhile c_isspace (show_nat n @ u # rest) = show_nat n @ u # rest"
    "skip_sign (show_nat n @ u # rest) = show_nat n @ u # rest"
    using c(1) by (simp_all add: skip_sign_def)
  have digits: "\<And>x. x \<in> set (show_nat n) \<Longrightarrow> c_isdigit x"
    using show_nat_digits by simp
  have take: "takeWhile c_isdigit (show_nat n @ u # rest) = show_nat n"
    using digits assms(2) by (simp add: takeWhile_append2)
  have drop: "dropWhile c_isdigit (show_nat n @ u # rest) = u # rest"
    using digits assms(2) by (simp add: dropWhile_append2)
  have "strtol10 (show_nat n @ u # rest) = int n"
    using \<open>c \<noteq> CHR ''-''\<close> \<open>c \<noteq> CHR ''+''\<close> skip(1) take assms(1) digits_val_show_nat [of n] c(1)
    by (simp add: strtol10_def Let_def)
  then show ?thesis
    using skip take drop show_nat_nonempty [of n] by (simp add: strtol_end_def Let_def)
qed

lemma to_int_small: "0 \<le> v \<Longrightarrow> v < 2 ^ 31 \<Longrightarrow> to_int v = v"
  unfolding to_int_def by (simp add: signed_of_int signed_take_bit_int_eq_self)

lemma duration_number_show_nat:
  assumes "n < 2 ^ 31" "\<not> c_isdigit u" "u \<noteq> CHR ''.''"
  shows "duration_number dr time (show_nat n @ u # rest) = Some (int n, u # rest)"
proof -
  have "strtol_end (show_nat n @ u # rest) = Some (int n, u # rest)"
    using assms(1,2) by (intro strtol_end_show_nat) auto
  then show ?thesis
    using assms to_int_small [of "int n"] by (simp add: duration_number_def Let_def)
qed

lemma duration_loop_part:
  assumes "\<And>n. v = Some n \<Longrightarrow> n < 2 ^ 31" "\<not> c_isdigit u" "u \<noteq> CHR ''.''"
  shows "duration_loop dr d (duration_part u v @ rest) =
    (case v of None \<Rightarrow> duration_loop dr d rest
     | Some n \<Rightarrow> (case duration_unit d (int n) u of None \<Rightarrow> None | Some d' \<Rightarrow> duration_loop dr d' rest))"
proof (cases v)
  case (Some n)
  obtain c cs where c: "show_nat n = c # cs" "c_isdigit c"
    using show_nat_Cons by blast
  have "c \<noteq> CHR ''T''"
    using c(2) by (auto simp: c_isdigit_def less_eq_char_def)
  then show ?thesis
    using Some c(1) duration_number_show_nat [of n u dr "d_time d" rest] assms by simp
qed simp

lemma duration_units: "\<not> c_isdigit CHR ''Y''" "\<not> c_isdigit CHR ''M''" "\<not> c_isdigit CHR ''D''"
  "\<not> c_isdigit CHR ''H''" "\<not> c_isdigit CHR ''S''"
  by (simp_all add: c_isdigit_def less_eq_char_def)

text \<open>C34: Every duration with integer components is read back: a text with any non-empty choice of
  years, months, days, hours, minutes and seconds in the order of the standard, each below 2 to the
  power 31, gives the number of seconds it stands for, a month counting 30 days and a year twelve
  months, and the negative number after a minus sign.\<close>

theorem duration_roundtrip:
  assumes "\<forall>v \<in> {y, mo, d, h, mi, s}. \<forall>n. v = Some n \<longrightarrow> n < 2 ^ 31"
    and "(y, mo, d, h, mi, s) \<noteq> (None, None, None, None, None, None)"
  shows "ws_deserialize_duration dround (Some (show_duration neg y mo d h mi s)) =
    Some (if neg then - seconds_of y mo d h mi s else seconds_of y mo d h mi s)"
proof -
  have parts: "duration_loop dr e (duration_part u v @ rest) =
    (case v of None \<Rightarrow> duration_loop dr e rest
     | Some n \<Rightarrow> (case duration_unit e (int n) u of None \<Rightarrow> None | Some d' \<Rightarrow> duration_loop dr d' rest))"
    if "v \<in> {y, mo, d, h, mi, s}" "u \<in> {CHR ''Y'', CHR ''M'', CHR ''D'', CHR ''H'', CHR ''S''}" for dr e u v rest
    using that assms(1) duration_units by (intro duration_loop_part) auto
  note last = parts [where rest = "[]", simplified]
  let ?date = "\<lambda>rest. duration_part CHR ''Y'' y @ duration_part CHR ''M'' mo @ duration_part CHR ''D'' d @ rest"
  define d0 where "d0 = duration_init\<lparr>d_years := part_value y, d_months := part_value mo, d_days := part_value d,
    d_got := (if d \<noteq> None then 8 else if mo \<noteq> None then 16 else if y \<noteq> None then 32 else 64)\<rparr>"
  have date: "duration_loop dr duration_init (?date rest) = duration_loop dr d0 rest" for dr rest
    by (cases y; cases mo; cases d) (simp_all add: parts duration_unit_def duration_init_def d0_def part_value_def del: duration_part.simps)
  show ?thesis
  proof (cases "h = None \<and> mi = None \<and> s = None")
    case True
    then have "duration_loop dround duration_init (tl (show_duration False y mo d h mi s)) = Some d0"
      using date [of dround "[]"] by (simp add: show_duration_def)
    then show ?thesis
      using True assms(2)
      by (auto simp: ws_deserialize_duration_def show_duration_def Let_def d0_def duration_init_def seconds_of_def part_value_def algebra_simps)
  next
    case False
    define d1 where "d1 = d0\<lparr>d_time := True, d_hours := part_value h, d_mins := part_value mi, d_secs := part_value s,
      d_got := (if s \<noteq> None then 1 else if mi \<noteq> None then 2 else 4)\<rparr>"
    have "duration_loop dround (d0\<lparr>d_time := True\<rparr>)
        (duration_part CHR ''H'' h @ duration_part CHR ''M'' mi @ duration_part CHR ''S'' s) = Some d1"
      using False
      by (cases h; cases mi; cases s)
        (simp_all add: parts last duration_unit_def d0_def d1_def duration_init_def part_value_def del: duration_part.simps)
    then have "duration_loop dround duration_init (tl (show_duration False y mo d h mi s)) = Some d1"
      using False date [of dround "CHR ''T'' # duration_part CHR ''H'' h @ duration_part CHR ''M'' mi @ duration_part CHR ''S'' s"]
      by (auto simp: show_duration_def)
    then show ?thesis
      using False
      by (auto simp: ws_deserialize_duration_def show_duration_def Let_def d0_def d1_def duration_init_def seconds_of_def part_value_def algebra_simps)
  qed
qed

theorem duration_roundtrip_witness:
  "ws_deserialize_duration (\<lambda>_. 0) (Some (show_duration False (Some 1) None (Some 2) None (Some 30) None)) = Some 31278600"
proof -
  have "seconds_of (Some 1) None (Some 2) None (Some 30) None = 31278600"
    by (simp add: seconds_of_def part_value_def)
  then show ?thesis
    using duration_roundtrip [of "Some 1" None "Some 2" None "Some 30" None "\<lambda>_. 0" False] by simp
qed

end
