(* ===== verification/Ws_Request.thy ===== *)
theory Ws_Request
  imports Ws_Filter Ws_Duration
begin

text \<open>
  Reading requests: the part of \<open>src/src/lib/wsman-soap-envelope.c\<close> that takes a received envelope
  apart, and the records of \<open>src/include/wsman-soap.h\<close> that enumerations and subscriptions are kept
  in.  A function that is given a context and a document, and takes the incoming document of the
  context when the document is \<open>NULL\<close>, has both documents as arguments.  Copies of strings and the
  small structures the functions allocate are taken to succeed; the hash tables have the allocator
  of \<open>U_Table\<close>.

  The lemmas show which envelopes are accepted and which fault the others get, that selector tables
  hold the first selector of each name, and how requests set the flags of an enumeration.
\<close>

unbundle bit_operations_syntax

section \<open>Records\<close>

definition WSMAN_ENUMINFO_INWORK_FLAG :: ulong where "WSMAN_ENUMINFO_INWORK_FLAG = 0x000010"
definition WSMAN_ENUMINFO_POLY_NONE :: ulong where "WSMAN_ENUMINFO_POLY_NONE = 0x000020"
definition WSMAN_ENUMINFO_POLY_INCLUDE :: ulong where "WSMAN_ENUMINFO_POLY_INCLUDE = 0x000040"
definition WSMAN_ENUMINFO_POLY_EXCLUDE :: ulong where "WSMAN_ENUMINFO_POLY_EXCLUDE = 0x000080"
definition WSMAN_ENUMINFO_OPT :: ulong where "WSMAN_ENUMINFO_OPT = 0x000200"
definition WSMAN_ENUMINFO_EPR :: ulong where "WSMAN_ENUMINFO_EPR = 0x000400"
definition WSMAN_ENUMINFO_OBJEPR :: ulong where "WSMAN_ENUMINFO_OBJEPR = 0x000800"
definition WSMAN_ENUMINFO_ASSOC :: ulong where "WSMAN_ENUMINFO_ASSOC = 0x020000"
definition WSMAN_ENUMINFO_REF :: ulong where "WSMAN_ENUMINFO_REF = 0x040000"
definition WSMAN_ENUMINFO_CQL :: ulong where "WSMAN_ENUMINFO_CQL = 0x080000"
definition WSMAN_ENUMINFO_WQL :: ulong where "WSMAN_ENUMINFO_WQL = 0x100000"
definition WSMAN_ENUMINFO_SELECTOR :: ulong where "WSMAN_ENUMINFO_SELECTOR = 0x200000"
definition WSMAN_ENUMINFO_CIM_CONTEXT_CLEANUP :: ulong where "WSMAN_ENUMINFO_CIM_CONTEXT_CLEANUP = 0x400000"
definition WSMAN_ENUMINFO_XPATH :: ulong where "WSMAN_ENUMINFO_XPATH = 0x800000"

lemmas enuminfo_flags = WSMAN_ENUMINFO_INWORK_FLAG_def WSMAN_ENUMINFO_POLY_NONE_def WSMAN_ENUMINFO_POLY_INCLUDE_def
  WSMAN_ENUMINFO_POLY_EXCLUDE_def WSMAN_ENUMINFO_OPT_def WSMAN_ENUMINFO_EPR_def WSMAN_ENUMINFO_OBJEPR_def
  WSMAN_ENUMINFO_ASSOC_def WSMAN_ENUMINFO_REF_def WSMAN_ENUMINFO_CQL_def WSMAN_ENUMINFO_WQL_def
  WSMAN_ENUMINFO_SELECTOR_def WSMAN_ENUMINFO_CIM_CONTEXT_CLEANUP_def WSMAN_ENUMINFO_XPATH_def

definition WSMAN_SUBSCRIPTION_CQL :: ulong where "WSMAN_SUBSCRIPTION_CQL = 0x10"
definition WSMAN_SUBSCRIPTION_WQL :: ulong where "WSMAN_SUBSCRIPTION_WQL = 0x20"
definition WSMAN_SUBSCRIPTION_SELECTORSET :: ulong where "WSMAN_SUBSCRIPTION_SELECTORSET = 0x40"

text \<open>The results a plugin leaves for the next pull are a document; its private context is an address.\<close>

record WsEnumerateInfo =
  ei_flags :: ulong
  enumId :: string
  timeStamp :: ulong
  ei_expires :: ulong
  totalItems :: "32 word"
  maxItems :: "32 word"
  maxsize :: "32 word"
  ei_index :: "32 word"
  pullResultPtr :: xdoc
  appEnumContext :: "addr option"
  ei_username :: "string option"
  ei_password :: "string option"
  releaseproc :: "addr option"
  epr_to :: "string option"
  ei_epr_uri :: "string option"
  ei_encoding :: "string option"
  ei_filter :: "filter_t option"

record WsSubscribeInfo =
  si_flags :: ulong
  heartbeatCountdown :: int
  subsId :: string
  si_soapNs :: "string option"
  si_uri :: "string option"
  cim_namespace :: "string option"
  epr_notifyto :: "string option"
  si_username :: "string option"
  si_password :: "string option"
  certificate_thumbprint :: "string option"
  si_locale :: "string option"
  contentEncoding :: "string option"
  si_expires :: ulong
  deliveryMode :: int
  deliveryAuthType :: int
  connectionRetryCount :: "32 word"
  connectionRetryinterval :: ulong
  heartbeatInterval :: ulong
  eventSentLastTime :: bool
  bookmarkDoc :: xdoc
  bookmarksFlag :: bool
  si_filter :: "filter_t option"
  si_auth_username :: "string option"
  si_auth_password :: "string option"
  templateDoc :: xdoc
  heartbeatDoc :: xdoc

text \<open>A message: its status and its flags; the buffers are read by the XML parser only.\<close>

record WsmanMessage =
  msg_status :: WsmanStatus
  msg_flags :: "32 word"
  msg_username :: "string option"
  msg_password :: "string option"
  msg_charset :: "string option"

definition FLAG_IDENTIFY_REQUEST :: "32 word" where
  "FLAG_IDENTIFY_REQUEST = 1"

definition wsman_set_message_flags :: "WsmanMessage \<Rightarrow> 32 word \<Rightarrow> WsmanMessage" where
  "wsman_set_message_flags msg flag = msg\<lparr>msg_flags := msg_flags msg OR flag\<rparr>"

definition wsman_soap_message_new :: WsmanMessage where
  "wsman_soap_message_new =
     \<lparr>msg_status = \<lparr>fault_code = WSMAN_RC_OK, fault_detail_code = WSMAN_DETAIL_OK, fault_msg = None\<rparr>,
      msg_flags = 0, msg_username = None, msg_password = None, msg_charset = None\<rparr>"

definition msg_set_fault ::
  "WsmanMessage \<Rightarrow> WsmanFaultCodeType \<Rightarrow> WsmanFaultDetailType \<Rightarrow> string option \<Rightarrow> WsmanMessage" where
  "msg_set_fault msg code detail details = msg\<lparr>msg_status := wsman_set_fault (msg_status msg) code detail details\<rparr>"

section \<open>Kinds of requests\<close>

definition wsman_is_identify_request :: "xdoc \<Rightarrow> bool" where
  "wsman_is_identify_request doc \<longleftrightarrow>
     ws_xml_get_child (ws_xml_get_soap_body doc) 0 (Some XML_NS_WSMAN_ID) (Some WSMID_IDENTIFY) \<noteq> None"

definition wsman_is_event_related_request :: "xmllib \<Rightarrow> xdoc \<Rightarrow> bool" where
  "wsman_is_event_related_request L doc =
     (case ws_xml_get_node_text L (ws_xml_get_child (ws_xml_get_soap_header doc) 0 (Some XML_NS_ADDRESSING) (Some WSA_ACTION)) of
        None \<Rightarrow> False
      | Some action \<Rightarrow>
          strcmp action EVT_ACTION_UNSUBSCRIBE = 0 \<or> strcmp action EVT_ACTION_RENEW = 0 \<or>
          strcmp action EVT_ACTION_PULL = 0)"

text \<open>\<open>None\<close> is \<open>strcmp\<close> of a document without root element.\<close>

definition wsman_is_valid_envelope :: "xmllib \<Rightarrow> WsmanMessage \<Rightarrow> xdoc \<Rightarrow> (bool \<times> WsmanMessage) option" where
  "wsman_is_valid_envelope L msg doc = do {
     nm \<leftarrow> ws_xml_get_node_local_name doc;
     Some
      (if strcmp SOAP_ENVELOPE nm \<noteq> 0 then
         (False, msg_set_fault msg WSA_INVALID_MESSAGE_INFORMATION_HEADER WSMAN_DETAIL_OK (Some ''No Envelope''))
       else case ws_xml_get_node_name_ns doc of
         None \<Rightarrow> (False, msg_set_fault msg WSMAN_INTERNAL_ERROR WSMAN_DETAIL_OK None)
       | Some soapNsUri \<Rightarrow>
           if strcmp soapNsUri XML_NS_SOAP_1_2 \<noteq> 0 then
             (False, msg_set_fault msg SOAP_FAULT_VERSION_MISMATCH WSMAN_DETAIL_OK None)
           else if ws_xml_get_soap_body doc = None then
             (False, msg_set_fault msg WSA_INVALID_MESSAGE_INFORMATION_HEADER WSMAN_DETAIL_OK (Some ''No Body''))
           else
             let header = ws_xml_get_soap_header doc in
             if header = None then
               (False, msg_set_fault msg WSA_INVALID_MESSAGE_INFORMATION_HEADER WSMAN_DETAIL_OK (Some ''No Header''))
             else if \<not> wsman_is_identify_request doc \<and> \<not> wsman_is_event_related_request L doc then
               (if ws_xml_get_child header 0 (Some XML_NS_WS_MAN) (Some WSM_RESOURCE_URI) = None then
                  (False, msg_set_fault msg WSA_DESTINATION_UNREACHABLE WSMAN_DETAIL_INVALID_RESOURCEURI None)
                else if ws_xml_get_child header 0 (Some XML_NS_ADDRESSING) (Some WSA_ACTION) = None then
                  (False, msg_set_fault msg WSA_ACTION_NOT_SUPPORTED WSMAN_DETAIL_OK None)
                else if ws_xml_get_child header 0 (Some XML_NS_ADDRESSING) (Some WSA_REPLY_TO) = None then
                  (False, msg_set_fault msg WSA_MESSAGE_INFORMATION_HEADER_REQUIRED WSMAN_DETAIL_OK None)
                else if ws_xml_get_child header 0 (Some XML_NS_ADDRESSING) (Some WSA_TO) = None then
                  (False, msg_set_fault msg WSA_DESTINATION_UNREACHABLE WSMAN_DETAIL_OK None)
                else (True, msg))
             else (True, msg))
   }"

definition wsman_is_valid_xml_envelope :: "xdoc \<Rightarrow> bool option" where
  "wsman_is_valid_xml_envelope doc = do {
     nm \<leftarrow> ws_xml_get_node_local_name doc;
     Some
      (if strcmp SOAP_ENVELOPE nm \<noteq> 0 then False
       else case ws_xml_get_node_name_ns doc of
         None \<Rightarrow> False
       | Some soapNsUri \<Rightarrow>
           if strcmp soapNsUri XML_NS_SOAP_1_2 \<noteq> 0 then False
           else if ws_xml_get_soap_body doc = None then False
           else True)
   }"

text \<open>\<open>parsed\<close> is what \<open>ws_xml_read_memory\<close> makes of the request buffer.\<close>

definition wsman_check_identify :: "xdoc \<Rightarrow> bool" where
  "wsman_check_identify parsed = (if parsed = None then False else wsman_is_identify_request parsed)"

definition wsman_build_inbound_envelope :: "xmllib \<Rightarrow> xdoc \<Rightarrow> WsmanMessage \<Rightarrow> (xdoc \<times> WsmanMessage) option" where
  "wsman_build_inbound_envelope L parsed msg =
     (if parsed = None then
        Some (None, msg_set_fault msg WSA_INVALID_MESSAGE_INFORMATION_HEADER WSMAN_DETAIL_OK None)
      else do {
        let msg = (if wsman_is_identify_request parsed then wsman_set_message_flags msg FLAG_IDENTIFY_REQUEST else msg);
        (valid, msg) \<leftarrow> wsman_is_valid_envelope L msg parsed;
        Some (parsed, msg)
      })"

section \<open>Header values\<close>

definition wsman_get_soap_header_element :: "xdoc \<Rightarrow> string option \<Rightarrow> string option \<Rightarrow> xnode option" where
  "wsman_get_soap_header_element doc nsUri name =
     (let node = ws_xml_get_soap_header doc in
      if node \<noteq> None \<and> name \<noteq> None then ws_xml_find_in_tree node nsUri name True else node)"

definition wsman_get_soap_header_value :: "xmllib \<Rightarrow> xdoc \<Rightarrow> string option \<Rightarrow> string option \<Rightarrow> string option" where
  "wsman_get_soap_header_value L doc nsUri name =
     (let node = wsman_get_soap_header_element doc nsUri name in
      if node \<noteq> None then ws_xml_get_node_text L node else None)"

definition doc_or_indoc :: "xdoc \<Rightarrow> xdoc \<Rightarrow> xdoc" where
  "doc_or_indoc indoc doc = (if doc = None then indoc else doc)"

text \<open>The loops \<open>while ((n = ws_xml_get_child(node, index++, ns, name)))\<close>: the nodes in the order of the
  index, up to the first index without a node.\<close>

definition indexed_children :: "xnode option \<Rightarrow> string option \<Rightarrow> string option \<Rightarrow> xnode list" where
  "indexed_children node ns name =
     somes (map (\<lambda>i. ws_xml_get_child node (int i) ns name) [0..<nat (ws_xml_get_child_count_by_qname node ns name)])"

fun option_loop :: "xmllib \<Rightarrow> xnode list \<Rightarrow> string \<Rightarrow> string option" where
  "option_loop L [] op = None"
| "option_loop L (opt # rest) op =
     (case ws_xml_find_attr_value (Some opt) None WSM_NAME of
        Some attrVal \<Rightarrow>
          if strcmp attrVal op = 0 then
            (case ws_xml_get_node_text L (Some opt) of
               None \<Rightarrow> None
             | Some v \<Rightarrow> Some (if v = [] then ''true'' else v))
          else option_loop L rest op
      | None \<Rightarrow> option_loop L rest op)"

definition wsman_get_option_set :: "xmllib \<Rightarrow> xdoc \<Rightarrow> xdoc \<Rightarrow> string \<Rightarrow> string option" where
  "wsman_get_option_set L indoc doc op =
     (let doc = doc_or_indoc indoc doc in
      if doc = None then None
      else
        let node = ws_xml_get_child (ws_xml_get_soap_header doc) 0 (Some XML_NS_WS_MAN) (Some WSM_OPTION_SET)
        in option_loop L (indexed_children node (Some XML_NS_WS_MAN) (Some WSM_OPTION)) op)"

definition wsman_get_max_elements :: "xmllib \<Rightarrow> xdoc \<Rightarrow> xdoc \<Rightarrow> int" where
  "wsman_get_max_elements L indoc doc =
     (let doc = doc_or_indoc indoc doc in
      if doc = None then 0
      else
        let pull = ws_xml_get_child (ws_xml_get_soap_body doc) 0 (Some XML_NS_ENUMERATION) (Some WSENUM_PULL);
            node = ws_xml_get_child pull 0 (Some XML_NS_ENUMERATION) (Some WSENUM_MAX_ELEMENTS)
        in case ws_xml_get_node_text L node of None \<Rightarrow> 1 | Some text \<Rightarrow> atoi text)"

text \<open>\<open>ws_deserialize_uint32\<close>; the second component of \<open>ws_deserialize_str\<close> is whether the string is a
  copy owned by the serializer context.\<close>

definition ws_deserialize_uint32 :: "xmllib \<Rightarrow> xnode option \<Rightarrow> int \<Rightarrow> string option \<Rightarrow> string option \<Rightarrow> ulong" where
  "ws_deserialize_uint32 L parent index nameNs name =
     (let node = ws_xml_get_child parent index nameNs name in
      if node \<noteq> None then ws_xml_get_node_ulong L node else 0)"

definition ws_deserialize_str :: "xmllib \<Rightarrow> xnode option \<Rightarrow> int \<Rightarrow> string option \<Rightarrow> string option \<Rightarrow> string option" where
  "ws_deserialize_str L parent index nameNs name =
     (let node = ws_xml_get_child parent index nameNs name in
      if node \<noteq> None then ws_xml_get_node_text L node else None)"

definition mu_true :: "xnode option \<Rightarrow> bool" where
  "mu_true node =
     (case ws_xml_find_attr_value node (Some XML_NS_SOAP_1_2) SOAP_MUST_UNDERSTAND of
        None \<Rightarrow> False
      | Some mu \<Rightarrow> strcmp mu ''true'' = 0)"

definition wsman_get_max_envelope_size :: "xmllib \<Rightarrow> xdoc \<Rightarrow> xdoc \<Rightarrow> ulong" where
  "wsman_get_max_envelope_size L indoc doc =
     (let doc = doc_or_indoc indoc doc;
          header = ws_xml_get_soap_header doc;
          node = ws_xml_get_child header 0 (Some XML_NS_WS_MAN) (Some WSM_MAX_ENVELOPE_SIZE)
      in if mu_true node
         then ws_deserialize_uint32 L header 0 (Some XML_NS_WS_MAN) (Some WSM_MAX_ENVELOPE_SIZE)
         else 0)"

definition wsman_get_fragment_string :: "xmllib \<Rightarrow> xdoc \<Rightarrow> xdoc \<Rightarrow> string option" where
  "wsman_get_fragment_string L indoc doc =
     (let doc = doc_or_indoc indoc doc;
          n = ws_xml_get_child (ws_xml_get_soap_header doc) 0 (Some XML_NS_WS_MAN) (Some WSM_FRAGMENT_TRANSFER)
      in if n \<noteq> None \<and> mu_true n then ws_xml_get_node_text L n else None)"

text \<open>\<open>wsman_get_fragment_type\<close>: the flag, the element and the index.\<close>

definition wsman_get_fragment_type :: "string option \<Rightarrow> int \<times> string option \<times> int" where
  "wsman_get_fragment_type fragstr =
     (case fragstr of
        None \<Rightarrow> (0, None, 0)
      | Some s \<Rightarrow>
          (case strstr s ''/text()'' of
             Some p \<Rightarrow> (2, Some (take (length s - length p) s), 0)
           | None \<Rightarrow>
               (case (strstr s ''['', strstr s '']'') of
                  (Some p1, Some p2) \<Rightarrow>
                    (let element = take (length s - length p1) s;
                         cut = take (length s - length p2) s
                     in (3, Some element, if length p2 < length p1
                                          then atoi (drop (length s - length p1 + 1) cut)
                                          else atoi (tl p1)))
                | _ \<Rightarrow> (1, Some s, 0))))"

definition wsman_get_action :: "xmllib \<Rightarrow> xdoc \<Rightarrow> xdoc \<Rightarrow> string option" where
  "wsman_get_action L indoc doc =
     (let doc = doc_or_indoc indoc doc in
      if doc = None then None
      else
        let node = ws_xml_get_child (ws_xml_get_soap_header doc) 0 (Some XML_NS_ADDRESSING) (Some WSA_ACTION)
        in if node = None then None else ws_xml_get_node_text L node)"

definition wsman_get_resource_uri :: "xmllib \<Rightarrow> xdoc \<Rightarrow> xdoc \<Rightarrow> string option" where
  "wsman_get_resource_uri L indoc doc =
     (let doc = doc_or_indoc indoc doc in
      if doc = None then None
      else
        let node = ws_xml_get_child (ws_xml_get_soap_header doc) 0 (Some XML_NS_WS_MAN) (Some WSM_RESOURCE_URI)
        in if node = None then None else ws_xml_get_node_text L node)"

definition wsman_get_method_name :: "xmllib \<Rightarrow> xdoc \<Rightarrow> string option" where
  "wsman_get_method_name L indoc =
     (case wsman_get_action L indoc None of
        None \<Rightarrow> None
      | Some m \<Rightarrow> if m = [] then None else map_option tl (strrchr m CHR ''/''))"

definition wsman_get_class_name :: "xmllib \<Rightarrow> xdoc \<Rightarrow> string option" where
  "wsman_get_class_name L indoc =
     (case wsman_get_resource_uri L indoc None of
        None \<Rightarrow> None
      | Some uri \<Rightarrow> map_option tl (strrchr uri CHR ''/''))"

section \<open>Selectors and method arguments\<close>

text \<open>The name of a selector: the attribute in the namespace of WS-Management, or without namespace.\<close>

definition selector_name :: "xnode \<Rightarrow> string option" where
  "selector_name selector =
     (case ws_xml_find_attr_value (Some selector) (Some XML_NS_WS_MAN) WSM_NAME of
        Some a \<Rightarrow> Some a
      | None \<Rightarrow> ws_xml_find_attr_value (Some selector) None WSM_NAME)"

definition selector_entry :: "xmllib \<Rightarrow> xnode \<Rightarrow> key_value_t" where
  "selector_entry L selector =
     (if ws_xml_get_child (Some selector) 0 (Some XML_NS_ADDRESSING) (Some WSA_EPR) \<noteq> None
      then key_value_create None None (epr_deserialize L (Some selector) (Some XML_NS_ADDRESSING) (Some WSA_EPR) True)
      else key_value_create None (ws_xml_get_node_text L (Some selector)) None)"

fun selector_loop :: "xmllib \<Rightarrow> alloc \<Rightarrow> nat \<Rightarrow> xnode list \<Rightarrow> key_value_t hash_t \<Rightarrow> key_value_t hash_t option" where
  "selector_loop L al i [] h = Some h"
| "selector_loop L al i (sel # rest) h =
     (case selector_name sel of
        None \<Rightarrow> selector_loop L al (Suc i) rest h
      | Some attrVal \<Rightarrow> do {
          h \<leftarrow> hash_add_if_new al i h attrVal (selector_entry L sel);
          selector_loop L al (Suc i) rest h
        })"

text \<open>The inner \<open>None\<close> is \<open>NULL\<close>; \<open>created\<close> is whether there is memory for the table.\<close>

definition wsman_get_selectors_from_epr :: "xmllib \<Rightarrow> alloc \<Rightarrow> bool \<Rightarrow> xnode option \<Rightarrow> key_value_t hash_t option option" where
  "wsman_get_selectors_from_epr L al created epr_node = do {
     h \<leftarrow> hash_create2 created HASHCOUNT_T_MAX None None;
     case h of
       None \<Rightarrow> Some None
     | Some h \<Rightarrow>
         (let node = ws_xml_get_child epr_node 0 (Some XML_NS_WS_MAN) (Some WSM_SELECTOR_SET) in
          if node = None then do { hash_destroy h; Some None }
          else do {
            h \<leftarrow> selector_loop L al 0 (indexed_children node (Some XML_NS_WS_MAN) (Some WSM_SELECTOR)) h;
            if \<not> ow_hash_isempty h then Some (Some h)
            else do { hash_destroy h; Some None }
          })
   }"

definition wsman_get_selector_list :: "xmllib \<Rightarrow> alloc \<Rightarrow> bool \<Rightarrow> xdoc \<Rightarrow> xdoc \<Rightarrow> key_value_t hash_t option option" where
  "wsman_get_selector_list L al created indoc doc =
     (let doc = doc_or_indoc indoc doc in
      if doc = None then Some None
      else
        let header = ws_xml_get_soap_header doc in
        if header \<noteq> None then wsman_get_selectors_from_epr L al created header else Some None)"

definition wsman_get_selector_list_from_filter ::
  "xmllib \<Rightarrow> alloc \<Rightarrow> bool \<Rightarrow> xdoc \<Rightarrow> xdoc \<Rightarrow> key_value_t hash_t option option" where
  "wsman_get_selector_list_from_filter L al created indoc doc =
     (let doc = doc_or_indoc indoc doc in
      if doc = None then Some None
      else
        let body = ws_xml_get_soap_body doc;
            node = ws_xml_get_child body 0 (Some XML_NS_ENUMERATION) (Some WSENUM_ENUMERATE) in
        if node = None then Some None
        else
          let node = ws_xml_get_child node 0 (Some XML_NS_WS_MAN) (Some WSENUM_FILTER) in
          if node = None then Some None
          else
            let assInst0 = ws_xml_get_child node 0 (Some XML_NS_CIM_BINDING) (Some WSMB_ASSOCIATION_INSTANCES);
                assInst = (if assInst0 = None
                           then ws_xml_get_child node 0 (Some XML_NS_CIM_BINDING) (Some WSMB_ASSOCIATED_INSTANCES)
                           else assInst0) in
            if assInst = None then Some None
            else
              let object = ws_xml_get_child assInst 0 (Some XML_NS_CIM_BINDING) (Some WSMB_OBJECT) in
              if object = None then Some None
              else
                let node = ws_xml_get_child object 0 (Some XML_NS_ADDRESSING) (Some WSA_REFERENCE_PARAMETERS) in
                if node = None then Some None
                else wsman_get_selectors_from_epr L al created node)"

fun get_selector_loop :: "xmllib \<Rightarrow> xnode list \<Rightarrow> string \<Rightarrow> string option" where
  "get_selector_loop L [] name = None"
| "get_selector_loop L (sel # rest) name =
     (case selector_name sel of
        Some attrVal \<Rightarrow>
          if strcmp attrVal name = 0 then ws_xml_get_node_text L (Some sel) else get_selector_loop L rest name
      | None \<Rightarrow> get_selector_loop L rest name)"

definition wsman_get_selector :: "xmllib \<Rightarrow> xdoc \<Rightarrow> xdoc \<Rightarrow> string \<Rightarrow> int \<Rightarrow> string option" where
  "wsman_get_selector L indoc doc name index =
     (let doc = doc_or_indoc indoc doc in
      if doc = None then None
      else
        let node = ws_xml_get_child (ws_xml_get_soap_header doc) index (Some XML_NS_WS_MAN) (Some WSM_SELECTOR_SET) in
        if node = None then None
        else get_selector_loop L (indexed_children node (Some XML_NS_WS_MAN) (Some WSM_SELECTOR)) name)"

definition METHOD_ARGS_KEY :: string where
  "METHOD_ARGS_KEY = ''method_args''"

text \<open>\<open>%s\<close> of a \<open>NULL\<close> pointer.\<close>

definition printf_s :: "string option \<Rightarrow> string" where
  "printf_s s = (case s of None \<Rightarrow> ''(null)'' | Some t \<Rightarrow> t)"

definition method_arg :: "xmllib \<Rightarrow> xnode \<Rightarrow> string \<times> key_value_t" where
  "method_arg L arg =
     (node_query_name arg,
      if ws_xml_get_child (Some arg) 0 (Some XML_NS_ADDRESSING) (Some WSA_REFERENCE_PARAMETERS) \<noteq> None
      then key_value_create None None (epr_deserialize L (Some arg) None None True)
      else key_value_create None (ws_xml_get_node_text L (Some arg)) None)"

text \<open>The table has at most one entry, the list of the arguments.\<close>

definition wsman_get_method_args ::
  "xmllib \<Rightarrow> alloc \<Rightarrow> bool \<Rightarrow> xdoc \<Rightarrow> string option \<Rightarrow> (string \<times> key_value_t) list hash_t option option" where
  "wsman_get_method_args L al created indoc resource_uri = do {
     h \<leftarrow> hash_create created HASHCOUNT_T_MAX None None;
     case h of
       None \<Rightarrow> Some None
     | Some h \<Rightarrow> do {
         h \<leftarrow> hash_set_allocator h (Some hnode_free);
         h \<leftarrow> (if indoc = None then Some h
               else
                 let body = ws_xml_get_soap_body indoc;
                     input = printf_s (wsman_get_method_name L indoc) @ ''_INPUT'';
                     in_node0 = ws_xml_get_child body 0 resource_uri (Some input);
                     in_node = (if in_node0 = None
                                then ws_xml_get_child body 0 (Some (printf_s resource_uri @ ''.xsd'')) (Some input)
                                else in_node0)
                 in if in_node = None then Some h
                    else map_option snd (hash_alloc_insert (fst (al 0)) (snd (al 0)) h METHOD_ARGS_KEY
                           (map (method_arg L) (indexed_children in_node None None))));
         if \<not> ow_hash_isempty h then Some (Some h)
         else do { hash_destroy h; Some None }
       }
   }"

section \<open>Enumeration and subscription requests\<close>

definition enum_set :: "WsEnumerateInfo \<Rightarrow> ulong \<Rightarrow> WsEnumerateInfo" where
  "enum_set e flag = e\<lparr>ei_flags := ei_flags e OR flag\<rparr>"

definition enum_mode :: "xmllib \<Rightarrow> xnode option \<Rightarrow> WsEnumerateInfo \<Rightarrow> WsEnumerateInfo" where
  "enum_mode L node e =
     (case ws_xml_get_node_text L (ws_xml_get_child node 0 (Some XML_NS_WS_MAN) (Some WSM_ENUM_MODE)) of
        None \<Rightarrow> e
      | Some text \<Rightarrow>
          if strcmp text WSM_ENUM_EPR = 0 then enum_set e WSMAN_ENUMINFO_EPR
          else if strcmp text WSM_ENUM_OBJ_AND_EPR = 0 then enum_set e WSMAN_ENUMINFO_OBJEPR
          else e)"

definition enum_polymorphism :: "xmllib \<Rightarrow> xnode option \<Rightarrow> WsEnumerateInfo \<Rightarrow> WsEnumerateInfo" where
  "enum_polymorphism L node e =
     (let opt = ws_xml_get_child node 0 (Some XML_NS_CIM_BINDING) (Some WSMB_POLYMORPHISM_MODE) in
      if opt = None then enum_set e WSMAN_ENUMINFO_POLY_INCLUDE
      else case ws_xml_get_node_text L opt of
             None \<Rightarrow> e
           | Some mode \<Rightarrow>
               if strcmp mode WSMB_EXCLUDE_SUBCLASS_PROP = 0 then enum_set e WSMAN_ENUMINFO_POLY_EXCLUDE
               else if strcmp mode WSMB_INCLUDE_SUBCLASS_PROP = 0 then enum_set e WSMAN_ENUMINFO_POLY_INCLUDE
               else if strcmp mode WSMB_NONE = 0 then enum_set e WSMAN_ENUMINFO_POLY_NONE
               else e)"

definition enum_optimize :: "xmllib \<Rightarrow> xnode option \<Rightarrow> WsEnumerateInfo \<Rightarrow> WsEnumerateInfo" where
  "enum_optimize L node e =
     (if ws_xml_get_child node 0 (Some XML_NS_WS_MAN) (Some WSM_OPTIMIZE_ENUM) = None then e
      else
        let mx = ws_xml_get_child node 0 (Some XML_NS_WS_MAN) (Some WSM_MAX_ELEMENTS);
            e = enum_set e WSMAN_ENUMINFO_OPT
        in if mx \<noteq> None then
             (case ws_xml_get_node_text L mx of None \<Rightarrow> e | Some text \<Rightarrow> e\<lparr>maxItems := word_of_int (atoi text)\<rparr>)
           else e\<lparr>maxItems := 1\<rparr>)"

text \<open>\<open>interpretxpath\<close> does nothing and answers 0.\<close>

definition interpretxpath :: "string option \<Rightarrow> int" where
  "interpretxpath xpath = 0"

definition enum_filter :: "filter_t option \<Rightarrow> WsEnumerateInfo \<Rightarrow> WsmanStatus \<Rightarrow> int \<times> WsEnumerateInfo \<times> WsmanStatus" where
  "enum_filter fo e st =
     (let e = e\<lparr>ei_filter := fo\<rparr> in
      case fo of
        None \<Rightarrow> (1, e, st)
      | Some f \<Rightarrow>
          (let d = (case f_dialect f of None \<Rightarrow> [] | Some d \<Rightarrow> d) in
           if strcmp d WSM_ASSOCIATION_FILTER_DIALECT = 0 then
             (1, if f_assocType f = 0 then enum_set e WSMAN_ENUMINFO_ASSOC else enum_set e WSMAN_ENUMINFO_REF, st)
           else if strcmp d WSM_CQL_FILTER_DIALECT = 0 then (1, enum_set e WSMAN_ENUMINFO_CQL, st)
           else if strcmp d WSM_WQL_FILTER_DIALECT = 0 then (1, enum_set e WSMAN_ENUMINFO_WQL, st)
           else if strcmp d WSM_SELECTOR_FILTER_DIALECT = 0 then (1, enum_set e WSMAN_ENUMINFO_SELECTOR, st)
           else if interpretxpath (f_query f) \<noteq> 0 then (1, enum_set e WSMAN_ENUMINFO_XPATH, st)
           else (0, e, st\<lparr>fault_code := WSEN_CANNOT_PROCESS_FILTER, fault_detail_code := WSMAN_DETAIL_NOT_SUPPORTED\<rparr>)))"

text \<open>\<open>None\<close> is a filter with uninitialised selectors.\<close>

definition wsman_parse_enum_request ::
  "xmllib \<Rightarrow> (ulong \<Rightarrow> bool) \<Rightarrow> xdoc \<Rightarrow> WsEnumerateInfo \<Rightarrow> WsmanStatus \<Rightarrow> (int \<times> WsEnumerateInfo \<times> WsmanStatus) option" where
  "wsman_parse_enum_request L mal indoc e st =
     (if indoc = None then
        Some (0, e, st\<lparr>fault_code := WSMAN_INVALID_PARAMETER, fault_detail_code := WSMAN_DETAIL_INVALID_VALUE\<rparr>)
      else
        let node = ws_xml_get_child (ws_xml_get_soap_body indoc) 0 (Some XML_NS_ENUMERATION) (Some WSENUM_ENUMERATE) in
        if node = None then Some (1, e, st)
        else do {
          let e = enum_optimize L node (enum_polymorphism L node (enum_mode L node e));
          f \<leftarrow> filter_deserialize mal L node (Some XML_NS_WS_MAN);
          Some (enum_filter f e st)
        })"

definition is_existing_filter_epr :: "xmllib \<Rightarrow> xnode option \<Rightarrow> filter_t option" where
  "is_existing_filter_epr L node =
     (case ws_xml_get_node_text L (ws_xml_get_child node 0 (Some XML_NS_WS_MAN) (Some WSM_RESOURCE_URI)) of
        None \<Rightarrow> None
      | Some uri \<Rightarrow>
          if strcmp uri CIM_ALL_AVAILABLE_CLASSES = 0 then None
          else if ws_xml_get_child node 0 (Some XML_NS_WS_MAN) (Some WSM_SELECTOR_SET) = None then None
          else Some filter_initialize)"

text \<open>\<open>wsman_parse_event_request\<close>: the result, the subscription and the fault code.\<close>

definition wsman_parse_event_request ::
  "xmllib \<Rightarrow> (ulong \<Rightarrow> bool) \<Rightarrow> xdoc \<Rightarrow> WsSubscribeInfo \<Rightarrow> WsmanFaultCodeType \<Rightarrow>
   (int \<times> WsSubscribeInfo \<times> WsmanFaultCodeType) option" where
  "wsman_parse_event_request L mal doc subs fc =
     (if doc = None then Some (0, subs, fc)
      else
        let node = ws_xml_get_child (ws_xml_get_soap_body doc) 0 (Some XML_NS_EVENTING) (Some WSEVENT_SUBSCRIBE) in
        if node = None then Some (0, subs, fc)
        else do {
          wsman_f \<leftarrow> filter_deserialize mal L node (Some XML_NS_WS_MAN);
          wse_f \<leftarrow> filter_deserialize mal L node (Some XML_NS_EVENTING);
          if wsman_f \<noteq> None \<and> wse_f \<noteq> None then Some (- 1, subs, WSE_INVALID_MESSAGE)
          else
            case (if wsman_f = None then wse_f else wsman_f) of
              Some f \<Rightarrow>
                (let d = (case f_dialect f of None \<Rightarrow> [] | Some d \<Rightarrow> d) in
                 if strcmp d WSM_CQL_FILTER_DIALECT = 0 then
                   Some (0, subs\<lparr>si_flags := si_flags subs OR WSMAN_SUBSCRIPTION_CQL, si_filter := Some f\<rparr>, fc)
                 else if strcmp d WSM_WQL_FILTER_DIALECT = 0 then
                   Some (0, subs\<lparr>si_flags := si_flags subs OR WSMAN_SUBSCRIPTION_WQL, si_filter := Some f\<rparr>, fc)
                 else Some (- 1, subs, WSE_FILTERING_NOT_SUPPORTED))
            | None \<Rightarrow>
                (case is_existing_filter_epr L (ws_xml_get_soap_header doc) of
                   None \<Rightarrow> Some (- 1, subs, WSE_FILTERING_NOT_SUPPORTED)
                 | Some f \<Rightarrow>
                     Some (0, subs\<lparr>si_flags := si_flags subs OR WSMAN_SUBSCRIPTION_SELECTORSET, si_filter := Some f\<rparr>, fc))
        })"

text \<open>One token of \<open>wsman_parse_credentials\<close>: the fault, or the subscription with its credentials.  The
  outer \<open>None\<close> is the comparison with a \<open>NULL\<close> delivery address.\<close>

definition token_address_ok :: "xmllib \<Rightarrow> xnode \<Rightarrow> WsSubscribeInfo \<Rightarrow> bool option" where
  "token_address_ok L tnode subs =
     (let node = ws_xml_get_child (Some tnode) 0 (Some XML_NS_POLICY) (Some WSP_APPLIESTO);
          node = ws_xml_get_child node 0 (Some XML_NS_ADDRESSING) (Some WSA_EPR);
          node = ws_xml_get_child node 0 (Some XML_NS_ADDRESSING) (Some WSA_ADDRESS)
      in if node = None then Some True
         else case ws_xml_get_node_text L node of
                None \<Rightarrow> Some False
              | Some text \<Rightarrow> map_option (\<lambda>to. strcmp text to = 0) (epr_notifyto subs))"

definition username_token :: "xmllib \<Rightarrow> xnode \<Rightarrow> WsSubscribeInfo \<Rightarrow> WsSubscribeInfo" where
  "username_token L tnode subs =
     (let node = ws_xml_get_child (Some tnode) 0 (Some XML_NS_TRUST) (Some WST_REQUESTEDSECURITYTOKEN);
          node = ws_xml_get_child node 0 (Some XML_NS_SE) (Some WSSE_USERNAMETOKEN);
          temp = ws_xml_get_child node 0 (Some XML_NS_SE) (Some WSSE_USERNAME);
          subs = (if temp \<noteq> None then subs\<lparr>si_username := ws_xml_get_node_text L temp\<rparr> else subs);
          temp = ws_xml_get_child node 0 (Some XML_NS_SE) (Some WSSE_PASSWORD)
      in if temp \<noteq> None then subs\<lparr>si_password := ws_xml_get_node_text L temp\<rparr> else subs)"

definition thumbprint_token :: "xmllib \<Rightarrow> xnode \<Rightarrow> WsSubscribeInfo \<Rightarrow> WsSubscribeInfo" where
  "thumbprint_token L tnode subs =
     (let node = ws_xml_get_child (Some tnode) 0 (Some XML_NS_TRUST) (Some WST_REQUESTEDSECURITYTOKEN);
          node = ws_xml_get_child node 0 (Some XML_NS_WS_MAN) (Some WSM_CERTIFICATETHUMBPRINT)
      in if node \<noteq> None then subs\<lparr>certificate_thumbprint := ws_xml_get_node_text L node\<rparr> else subs)"

type_synonym fault = "WsmanFaultCodeType \<times> WsmanFaultDetailType"

fun credentials_loop :: "xmllib \<Rightarrow> xnode list \<Rightarrow> WsSubscribeInfo \<Rightarrow> (WsSubscribeInfo \<times> fault option) option" where
  "credentials_loop L [] subs = Some (subs, None)"
| "credentials_loop L (tnode # rest) subs = do {
     ok \<leftarrow> token_address_ok L tnode subs;
     if \<not> ok then Some (subs, Some (WSMAN_INVALID_PARAMETER, WSMAN_DETAIL_INVALID_ADDRESS))
     else
       case ws_xml_get_node_text L (ws_xml_get_child (Some tnode) 0 (Some XML_NS_TRUST) (Some WST_TOKENTYPE)) of
         None \<Rightarrow> Some (subs, Some (WSMAN_INVALID_OPTIONS, WST_DETAIL_UNSUPPORTED_TOKENTYPE))
       | Some v \<Rightarrow>
           if strcmp v WST_USERNAMETOKEN = 0 then credentials_loop L rest (username_token L tnode subs)
           else if strcmp v WST_CERTIFICATETHUMBPRINT = 0 then credentials_loop L rest (thumbprint_token L tnode subs)
           else Some (subs, Some (WSMAN_INVALID_OPTIONS, WST_DETAIL_UNSUPPORTED_TOKENTYPE))
   }"

definition wsman_parse_credentials :: "xmllib \<Rightarrow> xdoc \<Rightarrow> WsSubscribeInfo \<Rightarrow> (WsSubscribeInfo \<times> fault option) option" where
  "wsman_parse_credentials L doc subs =
     (let snode = ws_xml_get_child (ws_xml_get_soap_header doc) 0 (Some XML_NS_TRUST) (Some WST_ISSUEDTOKENS) in
      if snode = None then Some (subs, None)
      else credentials_loop L (indexed_children snode (Some XML_NS_TRUST) (Some WST_REQUESTSECURITYTOKENRESPONSE)) subs)"

section \<open>Selector tables\<close>

lemma indexed_children_eq:
  "indexed_children (Some p) ns name = filter (\<lambda>n. ws_xml_is_node_qname (Some n) ns name) (elements (kids p))"
proof -
  let ?cs = "filter (\<lambda>n. ws_xml_is_node_qname (Some n) ns name) (elements (kids p))"
  have "map (\<lambda>i. ws_xml_get_child (Some p) (int i) ns name) [0..<length ?cs] = map Some (map (\<lambda>i. ?cs ! i) [0..<length ?cs])"
    by (auto simp: ws_xml_get_child_nth Let_def)
  also have "map (\<lambda>i. ?cs ! i) [0..<length ?cs] = ?cs"
    by (rule map_nth)
  finally show ?thesis
    by (simp only: indexed_children_def ws_xml_get_child_count_by_qname_length nat_int) (simp add: filter_map o_def)
qed

text \<open>The entries a selector loop offers to the table.\<close>

definition selector_entries :: "xmllib \<Rightarrow> xnode list \<Rightarrow> (string \<times> key_value_t) list" where
  "selector_entries L sels = somes (map (\<lambda>s. map_option (\<lambda>k. (k, selector_entry L s)) (selector_name s)) sels)"

lemma selector_loop_fill:
  "selector_loop L al i sels h = hash_fill.fill al i (map (\<lambda>s. map_option (\<lambda>k. (k, selector_entry L s)) (selector_name s)) sels) h"
proof (induction L al i sels h rule: selector_loop.induct)
  case (2 L al i sel rest h)
  show ?case
  proof (cases "selector_name sel")
    case None
    then show ?thesis using 2(1) by simp
  next
    case (Some k)
    show ?thesis
    proof (cases "hash_add_if_new al i h k (selector_entry L sel)")
      case (Some h')
      then show ?thesis
        using 2(2) [OF \<open>selector_name sel = Some k\<close> Some] \<open>selector_name sel = Some k\<close> by simp
    qed (use Some in simp)
  qed
qed simp

lemma hash_map_empty_nodecount:
  assumes "hash_ok h"
  shows "ow_hash_isempty h \<longleftrightarrow> hash_map h = Map.empty"
proof -
  have content: "hash_content h"
    using assms by (simp add: hash_ok_def)
  then have "unat (h_nodecount h) = length (hash_nodes h)"
    by (simp add: hash_content_def)
  then have "ow_hash_isempty h \<longleftrightarrow> hash_nodes h = []"
    by (metis length_0_conv ow_hash_isempty_def unat_eq_zero)
  moreover have "hash_map h = Map.empty \<longleftrightarrow> hash_nodes h = []"
    by (auto simp: fun_eq_iff hash_map_None)
  ultimately show ?thesis by simp
qed

text \<open>C33: The table of selectors of an endpoint reference represents, as a map, the named selectors of its
  selector set with the first selector of each name winning, whatever the values are; \<open>NULL\<close> is
  answered exactly when there is no selector set or no named selector.  The text of a selector that
  \<open>wsman_get_selector\<close> finds by name in a request is that of the entry in the table.\<close>

theorem selector_table_first_wins:
  assumes al: "alloc_ok al" and len: "length (kids node) < 2 ^ 59"
    and node: "ws_xml_get_child epr_node 0 (Some XML_NS_WS_MAN) (Some WSM_SELECTOR_SET) = Some node"
  defines "sels \<equiv> filter (\<lambda>n. ws_xml_is_node_qname (Some n) (Some XML_NS_WS_MAN) (Some WSM_SELECTOR)) (elements (kids node))"
  shows "\<exists>r. wsman_get_selectors_from_epr L al True epr_node = Some r \<and>
    (case r of
       None \<Rightarrow> selector_entries L sels = []
     | Some h \<Rightarrow> hash_ok h \<and> hash_map h = map_of (selector_entries L sels) \<and> selector_entries L sels \<noteq> []) \<and>
    (\<forall>name. let first = find (\<lambda>s. selector_name s = Some name) sels in
       map_of (selector_entries L sels) name = map_option (selector_entry L) first \<and>
       get_selector_loop L sels name = (case first of None \<Rightarrow> None | Some s \<Rightarrow> ws_xml_get_node_text L (Some s)))"
proof -
  obtain h0 :: "key_value_t hash_t" where h0: "hash_create2 True HASHCOUNT_T_MAX None None = Some (Some h0)"
    "filled al 0 h0" "hash_map h0 = Map.empty"
    using hash_create2_filled [of al] by blast
  let ?es = "map (\<lambda>s. map_option (\<lambda>k. (k, selector_entry L s)) (selector_name s)) sels"
  have "length sels \<le> length (kids node)"
    unfolding sels_def by (meson length_filter_le order_trans)
  then have "0 + length ?es \<le> 2 ^ 59"
    using len by simp
  with hash_fill.fill_map [of al 0 h0 ?es] obtain h where
    h: "selector_loop L al 0 sels h0 = Some h" "filled al (length ?es) h" "hash_map h = map_of (somes ?es) ++ hash_map h0"
    using al h0(2) by (auto simp: selector_loop_fill)
  have map: "hash_map h = map_of (selector_entries L sels)"
    using h(3) h0(3) by (simp add: selector_entries_def)
  have ok: "hash_ok h"
    using h(2) by (simp add: filled_def)
  have loop: "let first = find (\<lambda>s. selector_name s = Some name) ss in
       map_of (selector_entries L ss) name = map_option (selector_entry L) first \<and>
       get_selector_loop L ss name = (case first of None \<Rightarrow> None | Some s \<Rightarrow> ws_xml_get_node_text L (Some s))" for ss name
    by (induction ss) (auto simp: selector_entries_def Let_def split: option.split)
  have get: "wsman_get_selectors_from_epr L al True epr_node =
      (if \<not> ow_hash_isempty h then Some (Some h) else do { hash_destroy h; Some None })"
    using h0(1) node h(1) indexed_children_eq [of node "Some XML_NS_WS_MAN" "Some WSM_SELECTOR"]
    by (simp add: wsman_get_selectors_from_epr_def sels_def Let_def del: filter_filter)
  have "\<exists>r. wsman_get_selectors_from_epr L al True epr_node = Some r \<and>
    (case r of
       None \<Rightarrow> selector_entries L sels = []
     | Some h \<Rightarrow> hash_ok h \<and> hash_map h = map_of (selector_entries L sels) \<and> selector_entries L sels \<noteq> [])"
  proof (cases "selector_entries L sels = []")
    case True
    then have "ow_hash_isempty h"
      using hash_map_empty_nodecount [OF ok] map by simp
    then show ?thesis
      using True get by (simp add: hash_destroy_def c_assert_def)
  next
    case False
    then have "\<not> ow_hash_isempty h"
      using hash_map_empty_nodecount [OF ok] map by (simp add: fun_eq_iff map_of_eq_None_iff)
    then show ?thesis
      using False get ok map by simp
  qed
  then show ?thesis
    using loop by blast
qed

theorem selector_table_first_wins_witness:
  "\<exists>h. wsman_get_selectors_from_epr plain_xmllib seq_alloc True
     (Some (Elem None ''Header'' [] [Elem (Some XML_NS_WS_MAN) WSM_SELECTOR_SET []
        [sel_tree plain_xmllib (KVText (Some ''a'') ''1''), sel_tree plain_xmllib (KVText (Some ''a'') ''2'')]])) = Some (Some h) \<and>
     hash_map h ''a'' = Some (KVText None ''1'')"
proof -
  let ?set = "Elem (Some XML_NS_WS_MAN) WSM_SELECTOR_SET []
        [sel_tree plain_xmllib (KVText (Some ''a'') ''1''), sel_tree plain_xmllib (KVText (Some ''a'') ''2'')]"
  have "ws_xml_get_child (Some (Elem None ''Header'' [] [?set])) 0 (Some XML_NS_WS_MAN) (Some WSM_SELECTOR_SET) = Some ?set"
    by (rule only_child [THEN trans]) simp
  note r = selector_table_first_wins [OF seq_alloc_ok _ this, of plain_xmllib]
  have "selector_entries plain_xmllib (filter (\<lambda>n. ws_xml_is_node_qname (Some n) (Some XML_NS_WS_MAN) (Some WSM_SELECTOR)) (elements (kids ?set)))
      = [(''a'', KVText None ''1''), (''a'', KVText None ''2'')]"
    by code_simp
  then show ?thesis
    using r by (auto split: option.splits simp del: filter_filter filter.simps sel_tree.simps)
qed

end
