(* ===== verification/Ws_Envelope.thy ===== *)
theory Ws_Envelope
  imports Ws_Request
begin

text \<open>
  Building replies: the part of \<open>src/src/lib/wsman-soap-envelope.c\<close> that creates envelopes and adds to
  them, the generation of faults in \<open>src/src/lib/wsman-faults.c\<close>, and the functions of
  \<open>src/src/lib/wsman-xml-serialize.c\<close> that write single values.  The document under construction is
  its root node; a C function that gets the header or the body of the document and adds children to
  it is a function on that node, applied in its place by \<open>on_header\<close> and \<open>on_body\<close>.  The namespace
  declarations are the state of the \<open>State_Monad\<close>, as in \<open>Ws_Xml\<close>.  Message ids are arguments.

  The lemmas show what a reply takes from its request, that a fault that is generated is decoded
  again to the same fault, and for which rejected requests no fault can be generated.
\<close>

section \<open>Changing a document in place\<close>

text \<open>\<open>f\<close> at the \<open>k\<close>-th element of a list of children.\<close>

fun map_elem :: "nat \<Rightarrow> (xnode \<Rightarrow> (nsdoc, xnode) state) \<Rightarrow> xnode list \<Rightarrow> (nsdoc, xnode list) state" where
  "map_elem k f [] = State_Monad.return []"
| "map_elem k f (n # ns) =
     (if \<not> is_element n then do { ns' \<leftarrow> map_elem k f ns; State_Monad.return (n # ns') }
      else if k = 0 then do { n' \<leftarrow> f n; State_Monad.return (n' # ns) }
      else do { ns' \<leftarrow> map_elem (k - 1) f ns; State_Monad.return (n # ns') })"

definition on_elem :: "nat \<Rightarrow> (xnode \<Rightarrow> (nsdoc, xnode) state) \<Rightarrow> xnode \<Rightarrow> (nsdoc, xnode) state" where
  "on_elem k f root = do { cs \<leftarrow> map_elem k f (kids root); State_Monad.return (set_kids root cs) }"

definition on_header :: "(xnode \<Rightarrow> (nsdoc, xnode) state) \<Rightarrow> xnode \<Rightarrow> (nsdoc, xnode) state" where
  "on_header f root =
     (if ws_xml_get_soap_header (Some root) = None then State_Monad.return root else on_elem 0 f root)"

definition on_body :: "(xnode \<Rightarrow> (nsdoc, xnode) state) \<Rightarrow> xnode \<Rightarrow> (nsdoc, xnode) state" where
  "on_body f root =
     (if ws_xml_get_soap_body (Some root) = None then State_Monad.return root
      else if ws_xml_is_node_qname (ws_xml_get_child (Some root) 0 None None) (node_query_ns root) (Some SOAP_BODY)
      then on_elem 0 f root else on_elem 1 f root)"

section \<open>Response envelopes\<close>

text \<open>Copies of all element children of \<open>node\<close>, added to \<open>dst\<close>.\<close>

fun add_copies :: "xmllib \<Rightarrow> xnode list \<Rightarrow> xnode \<Rightarrow> (nsdoc, xnode) state" where
  "add_copies L [] dst = State_Monad.return dst"
| "add_copies L (c # cs) dst = do {
     c' \<leftarrow> ws_xml_duplicate_tree L c;
     add_copies L cs (add_kid dst c')
   }"

definition wsman_epr_from_request_to_response :: "xmllib \<Rightarrow> xnode option \<Rightarrow> xnode \<Rightarrow> (nsdoc, xnode) state" where
  "wsman_epr_from_request_to_response L epr dstHeader = do {
     let node = ws_xml_get_child epr 0 (Some XML_NS_ADDRESSING) (Some WSA_ADDRESS);
     dstHeader \<leftarrow> ws_xml_add_child L dstHeader (Some XML_NS_ADDRESSING) WSA_TO
                    (if node = None then Some WSA_TO_ANONYMOUS else ws_xml_get_node_text L node);
     let props = ws_xml_get_child epr 0 (Some XML_NS_ADDRESSING) (Some WSA_REFERENCE_PROPERTIES);
     dstHeader \<leftarrow> add_copies L (indexed_children props None None) dstHeader;
     let params = ws_xml_get_child epr 0 (Some XML_NS_ADDRESSING) (Some WSA_REFERENCE_PARAMETERS);
     add_copies L (indexed_children params None None) dstHeader
   }"

text \<open>The action of a reply: the given one, or the action of the request with a suffix, printed into a
  buffer of \<open>len\<close> bytes.  \<open>None\<close> is a text that does not fit, for which the function returns \<open>NULL\<close>; the
  inner \<open>None\<close> is no action.\<close>

definition response_action :: "xmllib \<Rightarrow> xnode option \<Rightarrow> string option \<Rightarrow> string option option" where
  "response_action L srcHeader action =
     (case action of
        Some a \<Rightarrow> Some (Some a)
      | None \<Rightarrow>
          (case ws_xml_get_node_text L (ws_xml_get_child srcHeader 0 (Some XML_NS_ADDRESSING) (Some WSA_ACTION)) of
             None \<Rightarrow> Some None
           | Some a \<Rightarrow>
               (let len = length a + (length WSFW_RESPONSE_STR + 1) + 2;
                    tmp = a @ WSFW_RESPONSE_STR
                in if length tmp \<ge> len then None else Some (Some tmp))))"

definition wsman_create_response_envelope :: "xmllib \<Rightarrow> xdoc \<Rightarrow> string option \<Rightarrow> (nsdoc, xdoc) state" where
  "wsman_create_response_envelope L rqstDoc action = do {
     doc \<leftarrow> ws_xml_create_envelope L;
     if wsman_is_identify_request rqstDoc then State_Monad.return (Some doc)
     else
       let srcHeader = ws_xml_get_soap_header rqstDoc in
       if ws_xml_get_soap_header (Some doc) = None \<or> srcHeader = None then State_Monad.return (Some doc)
       else do {
         let replyTo = ws_xml_get_child srcHeader 0 (Some XML_NS_ADDRESSING) (Some WSA_REPLY_TO);
         doc \<leftarrow> on_header (wsman_epr_from_request_to_response L replyTo) doc;
         case response_action L srcHeader action of
           None \<Rightarrow> State_Monad.return None
         | Some act \<Rightarrow> do {
             doc \<leftarrow> (case act of
                       None \<Rightarrow> State_Monad.return doc
                     | Some a \<Rightarrow> on_header (\<lambda>h. ws_xml_add_child L h (Some XML_NS_ADDRESSING) WSA_ACTION (Some a)) doc);
             let mid = ws_xml_get_child srcHeader 0 (Some XML_NS_ADDRESSING) (Some WSA_MESSAGE_ID);
             doc \<leftarrow> (if mid = None then State_Monad.return doc
                     else on_header (\<lambda>h. ws_xml_add_child L h (Some XML_NS_ADDRESSING) WSA_RELATES_TO
                                           (ws_xml_get_node_text L mid)) doc);
             State_Monad.return (Some doc)
           }
       }
   }"

section \<open>Faults\<close>

text \<open>\<open>ws_xml_set_node_lang\<close>: libxml2 adds the attribute \<open>xml:lang\<close>.\<close>

definition ws_xml_set_node_lang :: "xnode \<Rightarrow> string \<Rightarrow> xnode" where
  "ws_xml_set_node_lang node lang =
     add_attr node \<lparr>xa_ns = Some XML_NS_XML_NAMESPACES, xa_name = ''lang'', xa_value = lang\<rparr>"

text \<open>\<open>ws_xml_add_child_format\<close> prints into a buffer of 4096 bytes.\<close>

definition ws_xml_add_child_format :: "xmllib \<Rightarrow> xnode \<Rightarrow> string option \<Rightarrow> string \<Rightarrow> string \<Rightarrow> (nsdoc, xnode) state" where
  "ws_xml_add_child_format L node nsUri localName buf = ws_xml_add_child L node nsUri localName (Some (take 4095 buf))"

text \<open>The subtree of a fault, from the code on.\<close>

definition fault_code_node :: "xmllib \<Rightarrow> string option \<Rightarrow> string option \<Rightarrow> string option \<Rightarrow> string option \<Rightarrow> (nsdoc, xnode) state" where
  "fault_code_node L soapNs code subCodeNs subCode = do {
     codeNode \<leftarrow> make_new_xml_node L soapNs SOAP_CODE None;
     node \<leftarrow> make_new_xml_node L soapNs SOAP_VALUE None;
     node \<leftarrow> (case soapNs of
                Some u \<Rightarrow> ws_xml_set_node_qname_val L (Some node) u code
              | None \<Rightarrow> State_Monad.return (Some node));
     let codeNode = add_kid codeNode (the node);
     case subCode of
       None \<Rightarrow> State_Monad.return codeNode
     | Some sc \<Rightarrow>
         if sc = [] then State_Monad.return codeNode
         else do {
           sn \<leftarrow> make_new_xml_node L soapNs SOAP_SUBCODE None;
           vn \<leftarrow> make_new_xml_node L soapNs SOAP_VALUE None;
           vn \<leftarrow> (case subCodeNs of
                    Some u \<Rightarrow> ws_xml_set_node_qname_val L (Some vn) u (Some sc)
                  | None \<Rightarrow> State_Monad.return (Some (ws_xml_set_node_text L vn (Some sc))));
           State_Monad.return (add_kid codeNode (add_kid sn (the vn)))
         }
   }"

definition fault_node ::
  "xmllib \<Rightarrow> string option \<Rightarrow> string option \<Rightarrow> string option \<Rightarrow> string option \<Rightarrow> string option \<Rightarrow> string option \<Rightarrow>
   string option \<Rightarrow> (nsdoc, xnode) state" where
  "fault_node L soapNs code subCodeNs subCode lang reason faultDetail = do {
     fault \<leftarrow> make_new_xml_node L soapNs SOAP_FAULT None;
     codeNode \<leftarrow> fault_code_node L soapNs code subCodeNs subCode;
     let fault = add_kid fault codeNode;
     fault \<leftarrow> (case reason of
                 None \<Rightarrow> State_Monad.return fault
               | Some r \<Rightarrow> do {
                   rn \<leftarrow> make_new_xml_node L soapNs SOAP_REASON None;
                   tn \<leftarrow> make_new_xml_node L soapNs SOAP_TEXT None;
                   let tn = ws_xml_set_node_lang (ws_xml_set_node_text L tn (Some r))
                              (case lang of None \<Rightarrow> ''en'' | Some l \<Rightarrow> l);
                   State_Monad.return (add_kid fault (add_kid rn tn))
                 });
     case faultDetail of
       None \<Rightarrow> State_Monad.return fault
     | Some d \<Rightarrow> do {
         dn \<leftarrow> make_new_xml_node L soapNs SOAP_DETAIL None;
         dn \<leftarrow> ws_xml_add_child_format L dn (Some XML_NS_WS_MAN) SOAP_FAULT_DETAIL
                 (XML_NS_WSMAN_FAULT_DETAIL @ CHR ''/'' # d);
         State_Monad.return (add_kid fault dn)
       }
   }"

definition wsman_create_fault_envelope ::
  "xmllib \<Rightarrow> string \<Rightarrow> xdoc \<Rightarrow> string option \<Rightarrow> string option \<Rightarrow> string option \<Rightarrow> string option \<Rightarrow> string option \<Rightarrow>
   string option \<Rightarrow> string option \<Rightarrow> (nsdoc, xdoc) state" where
  "wsman_create_fault_envelope L uuid rqstDoc code subCodeNs subCode fault_action lang reason faultDetail = do {
     d \<leftarrow> (if rqstDoc \<noteq> None then wsman_create_response_envelope L rqstDoc fault_action
           else do { e \<leftarrow> ws_xml_create_envelope L; State_Monad.return (Some e) });
     case d of
       None \<Rightarrow> State_Monad.return None
     | Some doc \<Rightarrow>
         if ws_xml_get_soap_header (Some doc) = None then State_Monad.return None
         else do {
           let soapNs = ws_xml_get_node_name_ns (ws_xml_get_soap_body (Some doc));
           doc \<leftarrow> on_body (\<lambda>body. do {
                     f \<leftarrow> fault_node L soapNs code subCodeNs subCode lang reason faultDetail;
                     State_Monad.return (add_kid body f) }) doc;
           doc \<leftarrow> on_header (\<lambda>h. ws_xml_add_child L h (Some XML_NS_ADDRESSING) WSA_MESSAGE_ID (Some uuid)) doc;
           State_Monad.return (Some doc)
         }
   }"

text \<open>\<open>fault_detail_table[faultDetail]\<close>; the table is laid out by its codes.\<close>

definition fault_detail_text :: "WsmanFaultDetailType \<Rightarrow> string option" where
  "fault_detail_text faultDetail = (if faultDetail > 0 then snd (fault_detail_table ! faultDetail) else None)"

definition wsman_generate_fault ::
  "xmllib \<Rightarrow> string \<Rightarrow> xdoc \<Rightarrow> WsmanFaultCodeType \<Rightarrow> WsmanFaultDetailType \<Rightarrow> string option \<Rightarrow> (nsdoc, xdoc) state" where
  "wsman_generate_fault L uuid in_doc faultCode faultDetail msg =
     (case find_fault faultCode of
        None \<Rightarrow> State_Monad.return None
      | Some row \<Rightarrow>
          wsman_create_fault_envelope L uuid in_doc (ft_code row) (ft_subCodeNs row) (ft_subCode row) (ft_fault_action row)
            None (case msg of None \<Rightarrow> ft_reason row | Some m \<Rightarrow> Some m) (fault_detail_text faultDetail))"

text \<open>\<open>wsman_build_soap_fault\<close>.  \<open>ws_xml_add_qname_child\<close> never writes the value; the declarations of the
  namespaces are made when they are not there.\<close>

definition ws_xml_define_ns :: "string \<Rightarrow> (nsdoc, unit) state" where
  "ws_xml_define_ns nsUri = do { xml_parser_ns_find nsUri; State_Monad.return () }"

definition wsman_build_soap_fault ::
  "xmllib \<Rightarrow> string \<Rightarrow> string option \<Rightarrow> string option \<Rightarrow> string option \<Rightarrow> string option \<Rightarrow> string option \<Rightarrow> (nsdoc, xnode) state" where
  "wsman_build_soap_fault L soapNsUri faultNsUri code subCode reason detail = do {
     let faultNsUri = (case faultNsUri of None \<Rightarrow> soapNsUri | Some u \<Rightarrow> u);
     root \<leftarrow> ws_xml_create_doc (Some soapNsUri) SOAP_ENVELOPE;
     body \<leftarrow> make_new_xml_node L (Some soapNsUri) SOAP_BODY None;
     ws_xml_define_ns soapNsUri;
     ws_xml_define_ns XML_NS_ADDRESSING;
     ws_xml_define_ns XML_NS_XML_NAMESPACES;
     (if strcmp soapNsUri faultNsUri \<noteq> 0 then ws_xml_define_ns faultNsUri else State_Monad.return ());
     fault \<leftarrow> make_new_xml_node L (Some soapNsUri) SOAP_FAULT None;
     fault \<leftarrow> (case code of
                 None \<Rightarrow> State_Monad.return fault
               | Some c \<Rightarrow> do {
                   cn \<leftarrow> make_new_xml_node L (Some soapNsUri) SOAP_CODE None;
                   v \<leftarrow> ws_xml_add_qname_child L soapNsUri SOAP_VALUE soapNsUri (Some c);
                   let cn = add_kid cn (the v);
                   cn \<leftarrow> (case subCode of
                            None \<Rightarrow> State_Monad.return cn
                          | Some sc \<Rightarrow> do {
                              sn \<leftarrow> make_new_xml_node L (Some soapNsUri) SOAP_SUBCODE None;
                              v \<leftarrow> ws_xml_add_qname_child L soapNsUri SOAP_VALUE faultNsUri (Some sc);
                              State_Monad.return (add_kid cn (add_kid sn (the v)))
                            });
                   State_Monad.return (add_kid fault cn)
                 });
     fault \<leftarrow> (case reason of
                 None \<Rightarrow> State_Monad.return fault
               | Some r \<Rightarrow> do {
                   rn \<leftarrow> make_new_xml_node L (Some soapNsUri) SOAP_REASON None;
                   tn \<leftarrow> make_new_xml_node L (Some soapNsUri) SOAP_TEXT (Some r);
                   xml_parser_ns_find XML_NS_XML_NAMESPACES;
                   let tn = add_attr tn \<lparr>xa_ns = Some XML_NS_XML_NAMESPACES, xa_name = SOAP_LANG, xa_value = ''en''\<rparr>;
                   State_Monad.return (add_kid fault (add_kid rn tn))
                 });
     fault \<leftarrow> (case detail of
                 None \<Rightarrow> State_Monad.return fault
               | Some d \<Rightarrow> ws_xml_add_child L fault (Some soapNsUri) SOAP_DETAIL (Some d));
     State_Monad.return (add_kid root (add_kid body fault))
   }"

section \<open>Adding to a document\<close>

text \<open>\<open>mu_ns\<close> is the namespace of the root element of the document.\<close>

definition enforce_mustunderstand :: "string option \<Rightarrow> xnode \<Rightarrow> (nsdoc, xnode) state" where
  "enforce_mustunderstand mu_ns node = do {
     (case mu_ns of None \<Rightarrow> State_Monad.return [] | Some u \<Rightarrow> xml_parser_ns_find u);
     State_Monad.return (add_attr node \<lparr>xa_ns = mu_ns, xa_name = SOAP_MUST_UNDERSTAND, xa_value = ''true''\<rparr>)
   }"

definition ws_serialize_str ::
  "xmllib \<Rightarrow> string option \<Rightarrow> xnode \<Rightarrow> string option \<Rightarrow> string option \<Rightarrow> string \<Rightarrow> bool \<Rightarrow> (nsdoc, xnode) state" where
  "ws_serialize_str L mu_ns parent str nameNs name mustunderstand = do {
     node \<leftarrow> make_new_xml_node L nameNs name str;
     node \<leftarrow> (if mustunderstand then enforce_mustunderstand mu_ns node else State_Monad.return node);
     State_Monad.return (add_kid parent node)
   }"

definition ws_serialize_uint32 ::
  "xmllib \<Rightarrow> string option \<Rightarrow> xnode \<Rightarrow> ulong \<Rightarrow> string option \<Rightarrow> string \<Rightarrow> bool \<Rightarrow> (nsdoc, xnode) state" where
  "ws_serialize_uint32 L mu_ns parent val nameNs name mustunderstand = do {
     node \<leftarrow> make_new_xml_node L nameNs name None;
     let node = snd (ws_xml_set_node_ulong L node val);
     node \<leftarrow> (if mustunderstand then enforce_mustunderstand mu_ns node else State_Monad.return node);
     State_Monad.return (add_kid parent node)
   }"

text \<open>\<open>_wsman_add_selector\<close>.  \<open>parse\<close> is \<open>ws_xml_read_memory\<close> on the text of a value that mentions an
  endpoint reference.  The selector goes into the first selector set of \<open>baseNode\<close>, or into a new one.\<close>

definition on_child :: "string option \<Rightarrow> string \<Rightarrow> (xnode \<Rightarrow> (nsdoc, xnode) state) \<Rightarrow> xnode \<Rightarrow> (nsdoc, xnode) state" where
  "on_child ns name f base =
     on_elem (length (takeWhile (\<lambda>n. \<not> ws_xml_is_node_qname (Some n) ns (Some name)) (filter is_element (kids base)))) f base"

definition wsman_add_selector_kv ::
  "xmllib \<Rightarrow> (string \<Rightarrow> xdoc) \<Rightarrow> xnode \<Rightarrow> string \<Rightarrow> string option \<Rightarrow> epr_t option \<Rightarrow> (nsdoc, xnode) state" where
  "wsman_add_selector_kv L parse baseNode name val epr = do {
     let epr_doc = (case val of None \<Rightarrow> None | Some v \<Rightarrow> if strstr v WSA_EPR \<noteq> None then parse v else None);
     let epr = (if val \<noteq> None then None else epr);
     base \<leftarrow> (if ws_xml_get_child (Some baseNode) 0 (Some XML_NS_WS_MAN) (Some WSM_SELECTOR_SET) \<noteq> None
              then State_Monad.return baseNode
              else ws_xml_add_child L baseNode (Some XML_NS_WS_MAN) WSM_SELECTOR_SET None);
     on_child (Some XML_NS_WS_MAN) WSM_SELECTOR_SET (\<lambda>st.
       case epr of
         Some e \<Rightarrow> do {
           sel \<leftarrow> make_new_xml_node L (Some XML_NS_WS_MAN) WSM_SELECTOR None;
           sel \<leftarrow> epr_serialize L (add_attr sel (name_attr (Some name))) (Some XML_NS_ADDRESSING) (Some WSA_EPR) (Some e) True;
           State_Monad.return (add_kid st sel)
         }
       | None \<Rightarrow>
           (case epr_doc of
              Some root \<Rightarrow> do {
                sel \<leftarrow> make_new_xml_node L (Some XML_NS_WS_MAN) WSM_SELECTOR None;
                c \<leftarrow> ws_xml_duplicate_tree L root;
                State_Monad.return (add_kid st (add_attr (add_kid sel c) (name_attr (Some name))))
              }
            | None \<Rightarrow> do {
                sel \<leftarrow> make_new_xml_node L (Some XML_NS_WS_MAN) WSM_SELECTOR val;
                State_Monad.return (add_kid st (add_attr sel (name_attr (Some name))))
              })) base
   }"

definition wsman_add_selector :: "xmllib \<Rightarrow> (string \<Rightarrow> xdoc) \<Rightarrow> xnode \<Rightarrow> string \<Rightarrow> string option \<Rightarrow> (nsdoc, xnode) state" where
  "wsman_add_selector L parse baseNode name val = wsman_add_selector_kv L parse baseNode name val None"

definition wsman_add_selector_epr :: "xmllib \<Rightarrow> (string \<Rightarrow> xdoc) \<Rightarrow> xnode \<Rightarrow> string \<Rightarrow> epr_t option \<Rightarrow> (nsdoc, xnode) state" where
  "wsman_add_selector_epr L parse baseNode name val = wsman_add_selector_kv L parse baseNode name None val"

definition wsman_add_namespace_as_selector ::
  "xmllib \<Rightarrow> (string \<Rightarrow> xdoc) \<Rightarrow> xnode \<Rightarrow> string option \<Rightarrow> (nsdoc, xnode) state" where
  "wsman_add_namespace_as_selector L parse doc ns =
     on_header (\<lambda>h. wsman_add_selector L parse h CIM_NAMESPACE_SELECTOR ns) doc"

definition wsman_set_estimated_total :: "xmllib \<Rightarrow> xdoc \<Rightarrow> xdoc \<Rightarrow> WsEnumerateInfo \<Rightarrow> (nsdoc, xdoc) state" where
  "wsman_set_estimated_total L in_doc out_doc e =
     (if ws_xml_get_child (ws_xml_get_soap_header in_doc) 0 (Some XML_NS_WS_MAN) (Some WSM_REQUEST_TOTAL) \<noteq> None then
        (case out_doc of
           None \<Rightarrow> State_Monad.return None
         | Some doc \<Rightarrow> do {
             doc \<leftarrow> on_header (\<lambda>h. ws_xml_add_child_format L h (Some XML_NS_WS_MAN) WSM_TOTAL_ESTIMATE
                                    (let n = sint (totalItems e) in
                                     if n < 0 then CHR ''-'' # show_nat (nat (- n)) else show_nat (nat n))) doc;
             State_Monad.return (Some doc)
           })
      else State_Monad.return out_doc)"

definition wsman_add_fragement_for_header :: "xmllib \<Rightarrow> xdoc \<Rightarrow> xnode \<Rightarrow> (nsdoc, xnode) state" where
  "wsman_add_fragement_for_header L indoc outdoc =
     (case ws_xml_get_child (ws_xml_get_soap_header indoc) 0 (Some XML_NS_WS_MAN) (Some WSM_FRAGMENT_TRANSFER) of
        None \<Rightarrow> State_Monad.return outdoc
      | Some fragmentnode \<Rightarrow>
          on_header (\<lambda>h. do { c \<leftarrow> ws_xml_duplicate_tree L fragmentnode; State_Monad.return (add_kid h c) }) outdoc)"

definition wsman_create_doc :: "string \<Rightarrow> (nsdoc, xnode) state" where
  "wsman_create_doc rootname = ws_xml_create_doc None rootname"

section \<open>Prefixes stay plain\<close>

text \<open>A builder keeps a property of the namespace declarations.\<close>

definition keeps :: "(nsdoc \<Rightarrow> bool) \<Rightarrow> (nsdoc, 'a) state \<Rightarrow> bool" where
  "keeps I m \<longleftrightarrow> (\<forall>nd. I nd \<longrightarrow> I (snd (run_state m nd)))"

named_theorems keeps_intro

lemma keeps_return [keeps_intro]: "keeps I (State_Monad.return x)"
  by (simp add: keeps_def State_Monad.return_def)

lemma keeps_bind [keeps_intro]: "keeps I m \<Longrightarrow> (\<And>x. keeps I (f x)) \<Longrightarrow> keeps I (State_Monad.bind m f)"
  by (simp add: keeps_def split_beta)

lemma keeps_if [keeps_intro]: "(b \<Longrightarrow> keeps I m) \<Longrightarrow> (\<not> b \<Longrightarrow> keeps I m') \<Longrightarrow> keeps I (if b then m else m')"
  by simp

lemma keeps_option [keeps_intro]:
  "(x = None \<Longrightarrow> keeps I m) \<Longrightarrow> (\<And>y. x = Some y \<Longrightarrow> keeps I (f y)) \<Longrightarrow> keeps I (case x of None \<Rightarrow> m | Some y \<Rightarrow> f y)"
  by (simp split: option.split)

lemma keeps_let [keeps_intro]: "keeps I (f x) \<Longrightarrow> keeps I (let y = x in f y)"
  by simp

definition plain_text :: "string \<Rightarrow> bool" where
  "plain_text t \<longleftrightarrow> (\<forall>c \<in> set t. c \<noteq> CHR ''&'' \<and> c \<noteq> CHR ''<'')"

definition plain_prefix :: "string \<Rightarrow> bool" where
  "plain_prefix p \<longleftrightarrow> plain_text p \<and> CHR '':'' \<notin> set p"

definition plain_prefixes :: "nsdoc \<Rightarrow> bool" where
  "plain_prefixes nd \<longleftrightarrow> (\<forall>d \<in> set (nd_defs nd). plain_prefix (snd d))"

lemma g_wsNsData_plain: "\<forall>d \<in> set g_wsNsData. plain_prefix (snd d)"
  by (simp add: g_wsNsData_def plain_prefix_def plain_text_def)

lemma show_nat_plain: "plain_prefix (take k (CHR ''n'' # show_nat n))"
proof -
  have digit: "\<And>x. x \<in> set (show_nat n) \<Longrightarrow> c_isdigit x"
    using show_nat_digits by simp
  have "\<not> c_isdigit CHR ''&''" "\<not> c_isdigit CHR ''<''" "\<not> c_isdigit CHR '':''"
    by (simp_all add: c_isdigit_def less_eq_char_def)
  then have "CHR ''&'' \<notin> set (show_nat n)" "CHR ''<'' \<notin> set (show_nat n)" "CHR '':'' \<notin> set (show_nat n)"
    using digit by blast+
  moreover have "x = CHR ''n'' \<or> x \<in> set (show_nat n)" if "x \<in> set (take k (CHR ''n'' # show_nat n))" for x
    using in_set_takeD [OF that] by simp
  moreover have "CHR ''n'' \<noteq> CHR ''&''" "CHR ''n'' \<noteq> CHR ''<''" "CHR ''n'' \<noteq> CHR '':''"
    by simp_all
  ultimately show ?thesis
    unfolding plain_prefix_def plain_text_def by metis
qed

lemma generated_plain: "plain_prefix (CHR ''n'' # take k (show_nat n))"
  using show_nat_plain [of "Suc k" n] by simp

lemma ns_find_plain:
  assumes "plain_prefixes nd"
  shows "plain_prefix (fst (run_state (xml_parser_ns_find uri) nd))"
    and "plain_prefixes (snd (run_state (xml_parser_ns_find uri) nd))"
proof -
  have table: "find (\<lambda>nsd. uri = fst nsd) g_wsNsData = Some d \<Longrightarrow> plain_prefix (snd d)" for d
    using g_wsNsData_plain by (auto simp: find_Some_iff)
  have known: "map_of (nd_defs nd) uri = Some p \<Longrightarrow> plain_prefix p" for p
    using assms by (fastforce simp: plain_prefixes_def dest: map_of_SomeD)
  show "plain_prefix (fst (run_state (xml_parser_ns_find uri) nd))"
    using table known generated_plain by (auto simp: run_ns_find Let_def split: option.splits)
  show "plain_prefixes (snd (run_state (xml_parser_ns_find uri) nd))"
    using assms table generated_plain
    by (auto simp: run_ns_find xml_parser_ns_add_def plain_prefixes_def Let_def map_of_eq_None_iff split: option.splits)
qed

lemma keeps_ns_find [keeps_intro]: "keeps plain_prefixes (xml_parser_ns_find uri)"
  using ns_find_plain(2) by (simp add: keeps_def)

lemma keeps_make_node [keeps_intro]: "keeps plain_prefixes (make_new_xml_node L uri name v)"
  unfolding make_new_xml_node_def by (intro keeps_intro)

lemma keeps_add_child [keeps_intro]: "keeps plain_prefixes (ws_xml_add_child L node uri name v)"
  unfolding ws_xml_add_child_def by (intro keeps_intro)

lemma keeps_duplicate_attrs [keeps_intro]: "keeps plain_prefixes (duplicate_attrs as)"
  by (induction as) (auto simp: duplicate_attr_def intro!: keeps_intro)

lemma keeps_duplicate [keeps_intro]:
  "keeps plain_prefixes (ws_xml_duplicate_tree L n)"
  "keeps plain_prefixes (ws_xml_duplicate_children L ns)"
  by (induction L n and L ns rule: ws_xml_duplicate_tree_ws_xml_duplicate_children.induct)
    (auto intro!: keeps_intro)

lemma keeps_add_copies [keeps_intro]: "keeps plain_prefixes (add_copies L cs dst)"
  by (induction L cs dst rule: add_copies.induct) (auto intro!: keeps_intro)

lemma keeps_map_elem [keeps_intro]: "(\<And>n. keeps I (f n)) \<Longrightarrow> keeps I (map_elem k f ns)"
  by (induction k f ns rule: map_elem.induct) (auto intro!: keeps_intro)

lemma keeps_on_header [keeps_intro]: "(\<And>n. keeps I (f n)) \<Longrightarrow> keeps I (on_header f root)"
  by (auto simp: on_header_def on_elem_def intro!: keeps_intro)

lemma create_envelope_plain: "plain_prefixes (snd (run_state (ws_xml_create_envelope L) nd))"
proof -
  have "keeps plain_prefixes (ws_xml_add_child L root (Some XML_NS_SOAP_1_2) ''Header'' None \<bind>
      (\<lambda>root. ws_xml_add_child L root (Some XML_NS_SOAP_1_2) ''Body'' None))" for root
    by (intro keeps_intro)
  moreover have "plain_prefixes (snd (run_state (ws_xml_create_doc (Some XML_NS_SOAP_1_2) SOAP_ENVELOPE) nd))"
    by code_simp
  ultimately show ?thesis
    by (simp add: ws_xml_create_envelope_def keeps_def split_beta)
qed

section \<open>The shape of replies\<close>

abbreviation envelope :: "xnode list \<Rightarrow> xnode list \<Rightarrow> xnode" where
  "envelope hs bs \<equiv> Elem (Some XML_NS_SOAP_1_2) SOAP_ENVELOPE []
     [Elem (Some XML_NS_SOAP_1_2) SOAP_HEADER [] hs, Elem (Some XML_NS_SOAP_1_2) SOAP_BODY [] bs]"

abbreviation wsa_elem :: "xmllib \<Rightarrow> string \<Rightarrow> string option \<Rightarrow> xnode" where
  "wsa_elem L name v \<equiv> Elem (Some XML_NS_ADDRESSING) name [] (case v of None \<Rightarrow> [] | Some t \<Rightarrow> xmlNodeSetContent L t)"

lemma soap_names_distinct: "SOAP_HEADER \<noteq> SOAP_BODY" "SOAP_BODY \<noteq> SOAP_HEADER"
  by (simp_all add: ws_names)

lemma envelope_first: "ws_xml_get_child (Some (envelope hs bs)) 0 None None = Some (Elem (Some XML_NS_SOAP_1_2) SOAP_HEADER [] hs)"
  by (simp add: ws_xml_get_child_0 ws_xml_is_node_qname_eq)

lemma envelope_second: "ws_xml_get_child (Some (envelope hs bs)) 1 None None = Some (Elem (Some XML_NS_SOAP_1_2) SOAP_BODY [] bs)"
  by (simp add: ws_xml_get_child_nth ws_xml_is_node_qname_eq Let_def)

lemma envelope_parts [simp]:
  "ws_xml_get_soap_header (Some (envelope hs bs)) = Some (Elem (Some XML_NS_SOAP_1_2) SOAP_HEADER [] hs)"
  "ws_xml_get_soap_body (Some (envelope hs bs)) = Some (Elem (Some XML_NS_SOAP_1_2) SOAP_BODY [] bs)"
  using envelope_first [of hs bs] envelope_second [of hs bs] soap_names_distinct
  by (simp_all add: ws_xml_get_soap_header_def ws_xml_get_soap_body_def ws_xml_get_soap_element_def
      ws_xml_get_soap_envelope_def ws_xml_is_node_qname_eq ws_xml_get_node_name_ns_def Let_def)

lemma run_on_header [simp]:
  "run_state (on_header f (envelope hs bs)) nd =
     (let (h, nd') = run_state (f (Elem (Some XML_NS_SOAP_1_2) SOAP_HEADER [] hs)) nd
      in (Elem (Some XML_NS_SOAP_1_2) SOAP_ENVELOPE [] [h, Elem (Some XML_NS_SOAP_1_2) SOAP_BODY [] bs], nd'))"
  by (simp add: on_header_def on_elem_def split_beta State_Monad.return_def)

lemma run_on_body [simp]:
  "run_state (on_body f (envelope hs bs)) nd =
     (let (b, nd') = run_state (f (Elem (Some XML_NS_SOAP_1_2) SOAP_BODY [] bs)) nd
      in (Elem (Some XML_NS_SOAP_1_2) SOAP_ENVELOPE [] [Elem (Some XML_NS_SOAP_1_2) SOAP_HEADER [] hs, b], nd'))"
  using envelope_first [of hs bs] soap_names_distinct
  by (simp add: on_body_def on_elem_def split_beta State_Monad.return_def ws_xml_is_node_qname_eq)

lemma fst_create_envelope: "fst (run_state (ws_xml_create_envelope L) nd) = envelope [] []"
proof -
  have "fst (run_state (ws_xml_create_doc (Some u) name) nd) = Elem (Some u) name [] []" for u name nd
    by (simp add: ws_xml_create_doc_def split_beta)
  then show ?thesis
    by (simp add: ws_xml_create_envelope_def split_beta ws_xml_add_child_def fst_make_node ws_names)
qed

text \<open>Copies do not depend on the declarations.\<close>

definition copy_of :: "xmllib \<Rightarrow> xnode \<Rightarrow> xnode" where
  "copy_of L n = fst (run_state (ws_xml_duplicate_tree L n) empty_nsdoc)"

lemma fst_duplicate_attrs: "fst (run_state (duplicate_attrs as) nd) = as"
  by (induction as arbitrary: nd) (simp_all add: duplicate_attr_def split_beta)

lemma fst_duplicate:
  "fst (run_state (ws_xml_duplicate_tree L n) nd) = fst (run_state (ws_xml_duplicate_tree L n) nd')"
  "fst (run_state (ws_xml_duplicate_children L ns) nd) = fst (run_state (ws_xml_duplicate_children L ns) nd')"
proof (induction L n and L ns arbitrary: nd nd' and nd nd' rule: ws_xml_duplicate_tree_ws_xml_duplicate_children.induct)
  case (1 L ns name as cs)
  obtain r where "\<And>a. fst (run_state (ws_xml_duplicate_children L cs) a) = r"
    using 1 by blast
  then show ?case
    by (simp add: split_beta fst_duplicate_attrs Let_def)
next
  case (4 L n ns)
  show ?case
  proof (cases "is_element n")
    case True
    obtain r where r: "\<And>a. fst (run_state (ws_xml_duplicate_tree L n) a) = r"
      using 4(1) True by blast
    obtain rs where rs: "\<And>a. fst (run_state (ws_xml_duplicate_children L ns) a) = rs"
      using 4(2) True by blast
    show ?thesis
      using True r rs by (simp add: split_beta)
  next
    case False
    then show ?thesis using 4(3) [OF False, of nd nd'] by simp
  qed
qed simp_all

lemma fst_add_copies:
  "fst (run_state (add_copies L cs (Elem ns nm as ks)) nd) = Elem ns nm as (ks @ map (copy_of L) cs)"
proof (induction cs arbitrary: ks nd)
  case (Cons c cs)
  have "fst (run_state (ws_xml_duplicate_tree L c) nd) = copy_of L c"
    unfolding copy_of_def by (rule fst_duplicate)
  then show ?case
    using Cons by (simp add: split_beta)
qed simp

text \<open>The headers of a reply: the address of the reply endpoint, copies of its reference properties and
  parameters, the action, and the relation to the request.\<close>

definition reply_headers :: "xmllib \<Rightarrow> xnode \<Rightarrow> string option \<Rightarrow> xnode list" where
  "reply_headers L srcHeader action =
     (let replyTo = ws_xml_get_child (Some srcHeader) 0 (Some XML_NS_ADDRESSING) (Some WSA_REPLY_TO);
          address = ws_xml_get_child replyTo 0 (Some XML_NS_ADDRESSING) (Some WSA_ADDRESS);
          props = ws_xml_get_child replyTo 0 (Some XML_NS_ADDRESSING) (Some WSA_REFERENCE_PROPERTIES);
          params = ws_xml_get_child replyTo 0 (Some XML_NS_ADDRESSING) (Some WSA_REFERENCE_PARAMETERS);
          act = (case action of
                   Some a \<Rightarrow> Some a
                 | None \<Rightarrow> map_option (\<lambda>a. a @ WSFW_RESPONSE_STR)
                     (ws_xml_get_node_text L (ws_xml_get_child (Some srcHeader) 0 (Some XML_NS_ADDRESSING) (Some WSA_ACTION))));
          mid = ws_xml_get_child (Some srcHeader) 0 (Some XML_NS_ADDRESSING) (Some WSA_MESSAGE_ID)
      in [wsa_elem L WSA_TO (if address = None then Some WSA_TO_ANONYMOUS else ws_xml_get_node_text L address)] @
         map (copy_of L) (concat (map (\<lambda>n. elements (kids n)) (somes [props, params]))) @
         (if act = None then [] else [wsa_elem L WSA_ACTION act]) @
         (if mid = None then [] else [wsa_elem L WSA_RELATES_TO (ws_xml_get_node_text L mid)]))"

lemma indexed_children_all: "indexed_children n None None = concat (map (\<lambda>n. elements (kids n)) (somes [n]))"
  by (cases n) (simp_all add: indexed_children_eq ws_xml_is_node_qname_eq, simp add: indexed_children_def ws_xml_get_child_count_by_qname_def)

lemma response_action_eq:
  "response_action L srcHeader action =
     Some (case action of
             Some a \<Rightarrow> Some a
           | None \<Rightarrow> map_option (\<lambda>a. a @ WSFW_RESPONSE_STR)
               (ws_xml_get_node_text L (ws_xml_get_child srcHeader 0 (Some XML_NS_ADDRESSING) (Some WSA_ACTION))))"
  by (auto simp: response_action_def Let_def split: option.split)

lemma response_envelope_eq:
  "fst (run_state (wsman_create_response_envelope L rqstDoc action) nd) =
     Some (if wsman_is_identify_request rqstDoc then envelope [] []
           else case ws_xml_get_soap_header rqstDoc of
                  None \<Rightarrow> envelope [] []
                | Some h \<Rightarrow> envelope (reply_headers L h action) [])"
proof (cases "wsman_is_identify_request rqstDoc \<or> ws_xml_get_soap_header rqstDoc = None")
  case True
  then show ?thesis
    by (auto simp: wsman_create_response_envelope_def split_beta fst_create_envelope Let_def)
next
  case False
  then obtain h where h: "ws_xml_get_soap_header rqstDoc = Some h"
    by auto
  have epr: "fst (run_state (wsman_epr_from_request_to_response L epr (Elem ns nm as [])) nd) =
      Elem ns nm as (wsa_elem L WSA_TO (if ws_xml_get_child epr 0 (Some XML_NS_ADDRESSING) (Some WSA_ADDRESS) = None
          then Some WSA_TO_ANONYMOUS
          else ws_xml_get_node_text L (ws_xml_get_child epr 0 (Some XML_NS_ADDRESSING) (Some WSA_ADDRESS))) #
        map (copy_of L) (indexed_children (ws_xml_get_child epr 0 (Some XML_NS_ADDRESSING) (Some WSA_REFERENCE_PROPERTIES)) None None) @
        map (copy_of L) (indexed_children (ws_xml_get_child epr 0 (Some XML_NS_ADDRESSING) (Some WSA_REFERENCE_PARAMETERS)) None None))"
    for epr ns nm as nd
    by (simp add: wsman_epr_from_request_to_response_def split_beta ws_xml_add_child_def fst_make_node fst_add_copies Let_def)
  show ?thesis
    using False h
    by (cases "case action of Some a \<Rightarrow> Some a | None \<Rightarrow> map_option (\<lambda>a. a @ WSFW_RESPONSE_STR)
          (ws_xml_get_node_text L (ws_xml_get_child (Some h) 0 (Some XML_NS_ADDRESSING) (Some WSA_ACTION)))")
      (simp_all add: wsman_create_response_envelope_def split_beta fst_create_envelope response_action_eq epr reply_headers_def
        ws_xml_add_child_def fst_make_node Let_def indexed_children_all)
qed

text \<open>Reading a child element of the addressing namespace.\<close>

definition wsa_text :: "xmllib \<Rightarrow> xdoc \<Rightarrow> string \<Rightarrow> string option" where
  "wsa_text L doc name =
     ws_xml_get_node_text L (ws_xml_get_child (ws_xml_get_soap_header doc) 0 (Some XML_NS_ADDRESSING) (Some name))"

lemma wsa_reply_names: "WSA_ACTION \<noteq> WSA_TO" "WSA_RELATES_TO \<noteq> WSA_TO" "WSA_RELATES_TO \<noteq> WSA_ACTION"
  by (simp_all add: ws_names)

lemma wsa_text_envelope:
  "wsa_text L (Some (envelope hs bs)) name =
     ws_xml_get_node_text L (find (\<lambda>n. is_element n \<and> ws_xml_is_node_qname (Some n) (Some XML_NS_ADDRESSING) (Some name)) hs)"
  by (simp add: wsa_text_def ws_xml_get_child_0)

lemma valid_envelope: "wsman_is_valid_xml_envelope (Some (envelope hs bs)) = Some True"
  using envelope_parts(2) [of hs bs]
  by (simp add: wsman_is_valid_xml_envelope_def ws_xml_get_node_local_name_def ws_xml_get_node_name_ns_def)



section \<open>Faults are decoded to the fault they were made for\<close>

text \<open>The node that the path of the subcode value selects in an envelope.\<close>

definition subcode_value :: "xmllib \<Rightarrow> xdoc \<Rightarrow> string option" where
  "subcode_value L doc =
     (let ns = Some XML_NS_SOAP_1_2;
          fault = ws_xml_get_child (ws_xml_get_soap_body doc) 0 ns (Some SOAP_FAULT);
          code = ws_xml_get_child fault 0 ns (Some SOAP_CODE);
          sub = ws_xml_get_child code 0 ns (Some SOAP_SUBCODE)
      in ws_xml_get_node_text L (ws_xml_get_child sub 0 ns (Some SOAP_VALUE)))"

lemma soap_fault_names: "SOAP_VALUE \<noteq> SOAP_SUBCODE"
  by (simp add: ws_names)

lemma fst_set_qname_val:
  "fst (run_state (ws_xml_set_node_qname_val L (Some (Elem ns nm as cs)) u (Some v)) nd) =
     Some (Elem ns nm as (xmlNodeSetContent L (fst (run_state (xml_parser_ns_find u) nd) @ CHR '':'' # v)))"
  by (simp add: ws_xml_set_node_qname_val_def make_qname_def ws_xml_set_node_text_def split_beta)

lemma keeps_set_qname_val [keeps_intro]: "keeps plain_prefixes (ws_xml_set_node_qname_val L node u v)"
  by (cases node; cases v) (auto simp: ws_xml_set_node_qname_val_def make_qname_def intro!: keeps_intro)

text \<open>The code element of a fault with a subcode: the value of the subcode has a plain prefix.\<close>

lemma fault_code_node_shape:
  assumes "plain_prefixes nd" "sc \<noteq> []"
  shows "\<exists>v p. fst (run_state (fault_code_node L (Some ns) (Some code) (Some u) (Some sc)) nd) =
    Elem (Some ns) SOAP_CODE []
      [Elem (Some ns) SOAP_VALUE [] v,
       Elem (Some ns) SOAP_SUBCODE [] [Elem (Some ns) SOAP_VALUE [] (xmlNodeSetContent L (p @ CHR '':'' # sc))]] \<and>
    plain_prefix p"
proof -
  define nd1 where "nd1 = snd (run_state (make_new_xml_node L (Some ns) SOAP_CODE None) nd)"
  define nd2 where "nd2 = snd (run_state (make_new_xml_node L (Some ns) SOAP_VALUE None) nd1)"
  define nd3 where "nd3 = snd (run_state (ws_xml_set_node_qname_val L (Some (Elem (Some ns) SOAP_VALUE [] [])) ns (Some code)) nd2)"
  define nd4 where "nd4 = snd (run_state (make_new_xml_node L (Some ns) SOAP_SUBCODE None) nd3)"
  define nd5 where "nd5 = snd (run_state (make_new_xml_node L (Some ns) SOAP_VALUE None) nd4)"
  have val: "plain_prefixes (snd (run_state m nd))" if "plain_prefixes nd" "keeps plain_prefixes m" for m :: "(nsdoc, xnode option) state" and nd
    using that by (simp add: keeps_def)
  have node: "plain_prefixes (snd (run_state (make_new_xml_node L u n v) nd))" if "plain_prefixes nd" for u n v nd
    using that keeps_make_node by (simp add: keeps_def)
  have "plain_prefixes nd5"
    unfolding nd5_def nd4_def nd3_def nd2_def nd1_def
    by (intro node val assms(1) keeps_set_qname_val)
  then have "plain_prefix (fst (run_state (xml_parser_ns_find u) nd5))"
    by (rule ns_find_plain(1))
  then show ?thesis
    using assms(2)
    by (intro exI [of _ "xmlNodeSetContent L (fst (run_state (xml_parser_ns_find ns) nd2) @ CHR '':'' # code)"]
        exI [of _ "fst (run_state (xml_parser_ns_find u) nd5)"])
      (simp add: fault_code_node_def split_beta fst_make_node fst_set_qname_val nd1_def nd2_def nd3_def nd4_def nd5_def)
qed

lemma fault_node_shape:
  assumes "plain_prefixes nd" "sc \<noteq> []"
  shows "\<exists>v p rest. fst (run_state (fault_node L (Some ns) (Some code) (Some u) (Some sc) lang reason detail) nd) =
    Elem (Some ns) SOAP_FAULT []
      (Elem (Some ns) SOAP_CODE []
        [Elem (Some ns) SOAP_VALUE [] v,
         Elem (Some ns) SOAP_SUBCODE [] [Elem (Some ns) SOAP_VALUE [] (xmlNodeSetContent L (p @ CHR '':'' # sc))]] # rest) \<and>
    plain_prefix p"
proof -
  let ?nd = "snd (run_state (make_new_xml_node L (Some ns) SOAP_FAULT None) nd)"
  have "plain_prefixes ?nd"
    using assms(1) keeps_make_node by (simp add: keeps_def)
  from fault_code_node_shape [OF this assms(2), of L ns code u] obtain v p where
    c: "fst (run_state (fault_code_node L (Some ns) (Some code) (Some u) (Some sc)) ?nd) =
      Elem (Some ns) SOAP_CODE []
        [Elem (Some ns) SOAP_VALUE [] v,
         Elem (Some ns) SOAP_SUBCODE [] [Elem (Some ns) SOAP_VALUE [] (xmlNodeSetContent L (p @ CHR '':'' # sc))]]"
    "plain_prefix p"
    by blast
  show ?thesis
    by (rule exI [of _ v], rule exI [of _ p], insert c, cases reason; cases detail)
      (simp_all add: fault_node_def split_beta fst_make_node ws_xml_add_child_format_def ws_xml_add_child_def Let_def)
qed

lemma response_envelope_plain:
  "plain_prefixes (snd (run_state (wsman_create_response_envelope L rq action) nd))"
proof -
  have "keeps plain_prefixes (wsman_epr_from_request_to_response L epr h)" for epr h
    unfolding wsman_epr_from_request_to_response_def Let_def by (intro keeps_intro)
  then have "keeps plain_prefixes (if wsman_is_identify_request rq then State_Monad.return (Some doc)
     else
       let srcHeader = ws_xml_get_soap_header rq in
       if ws_xml_get_soap_header (Some doc) = None \<or> srcHeader = None then State_Monad.return (Some doc)
       else do {
         let replyTo = ws_xml_get_child srcHeader 0 (Some XML_NS_ADDRESSING) (Some WSA_REPLY_TO);
         doc \<leftarrow> on_header (wsman_epr_from_request_to_response L replyTo) doc;
         case response_action L srcHeader action of
           None \<Rightarrow> State_Monad.return None
         | Some act \<Rightarrow> do {
             doc \<leftarrow> (case act of
                       None \<Rightarrow> State_Monad.return doc
                     | Some a \<Rightarrow> on_header (\<lambda>h. ws_xml_add_child L h (Some XML_NS_ADDRESSING) WSA_ACTION (Some a)) doc);
             let mid = ws_xml_get_child srcHeader 0 (Some XML_NS_ADDRESSING) (Some WSA_MESSAGE_ID);
             doc \<leftarrow> (if mid = None then State_Monad.return doc
                     else on_header (\<lambda>h. ws_xml_add_child L h (Some XML_NS_ADDRESSING) WSA_RELATES_TO
                                           (ws_xml_get_node_text L mid)) doc);
             State_Monad.return (Some doc)
           }
       })" for doc
    unfolding Let_def by (intro keeps_intro)
  then show ?thesis
    using create_envelope_plain [of L nd] by (simp add: wsman_create_response_envelope_def keeps_def split_beta)
qed

lemma create_envelope_cases:
  "\<exists>hs. fst (run_state (if rq \<noteq> None then wsman_create_response_envelope L rq action
       else do { e \<leftarrow> ws_xml_create_envelope L; State_Monad.return (Some e) }) nd) = Some (envelope hs []) \<and>
     plain_prefixes (snd (run_state (if rq \<noteq> None then wsman_create_response_envelope L rq action
       else do { e \<leftarrow> ws_xml_create_envelope L; State_Monad.return (Some e) }) nd))"
  using response_envelope_plain [of L rq action nd] create_envelope_plain [of L nd]
  by (auto simp: response_envelope_eq fst_create_envelope split_beta State_Monad.return_def split: option.split)

text \<open>The envelope of a fault that has a row with all texts.\<close>

lemma fault_envelope_shape:
  assumes "sc \<noteq> []"
  shows "\<exists>hs v p rest.
    fst (run_state (wsman_create_fault_envelope L uuid rq (Some code) (Some u) (Some sc) action lang reason detail) nd) =
      Some (envelope (hs @ [wsa_elem L WSA_MESSAGE_ID (Some uuid)])
        [Elem (Some XML_NS_SOAP_1_2) SOAP_FAULT []
          (Elem (Some XML_NS_SOAP_1_2) SOAP_CODE []
            [Elem (Some XML_NS_SOAP_1_2) SOAP_VALUE [] v,
             Elem (Some XML_NS_SOAP_1_2) SOAP_SUBCODE []
               [Elem (Some XML_NS_SOAP_1_2) SOAP_VALUE [] (xmlNodeSetContent L (p @ CHR '':'' # sc))]] # rest)]) \<and>
    plain_prefix p"
proof -
  obtain hs where hs: "fst (run_state (if rq \<noteq> None then wsman_create_response_envelope L rq action
       else do { e \<leftarrow> ws_xml_create_envelope L; State_Monad.return (Some e) }) nd) = Some (envelope hs [])"
    and pl: "plain_prefixes (snd (run_state (if rq \<noteq> None then wsman_create_response_envelope L rq action
       else do { e \<leftarrow> ws_xml_create_envelope L; State_Monad.return (Some e) }) nd))"
    using create_envelope_cases by blast
  from fault_node_shape [OF pl assms, of L XML_NS_SOAP_1_2 code u lang reason detail] obtain v p rest where
    f: "fst (run_state (fault_node L (Some XML_NS_SOAP_1_2) (Some code) (Some u) (Some sc) lang reason detail)
      (snd (run_state (if rq \<noteq> None then wsman_create_response_envelope L rq action
       else do { e \<leftarrow> ws_xml_create_envelope L; State_Monad.return (Some e) }) nd))) =
      Elem (Some XML_NS_SOAP_1_2) SOAP_FAULT []
      (Elem (Some XML_NS_SOAP_1_2) SOAP_CODE []
        [Elem (Some XML_NS_SOAP_1_2) SOAP_VALUE [] v,
         Elem (Some XML_NS_SOAP_1_2) SOAP_SUBCODE [] [Elem (Some XML_NS_SOAP_1_2) SOAP_VALUE [] (xmlNodeSetContent L (p @ CHR '':'' # sc))]] # rest)"
    "plain_prefix p"
    by blast
  show ?thesis
    unfolding wsman_create_fault_envelope_def
    using hs f
    by (simp only: State_Monad.run_state_bind split_beta) (simp add: split_beta ws_xml_get_node_name_ns_def ws_xml_add_child_def fst_make_node Let_def, blast)
qed

lemma fault_rows_plain:
  "list_all (\<lambda>row. case ft_subCode row of
       None \<Rightarrow> True
     | Some sc \<Rightarrow> (sc = [] \<longrightarrow> ft_fault_code row = SOAP_FAULT_MUSTUNDERSTAND) \<and> plain_text sc) fault_code_table"
  by (simp add: fault_rows plain_text_def)

text \<open>C30: For every fault code, detail, message and request a fault document is generated unless the code
  has no row in the table.  The document is a valid envelope, and a client that takes the subcode
  from it decodes the fault code the server set, except for the codes whose subcode an earlier row
  shares and for the must-understand fault, which has no subcode.  The hypothesis on libxml2 is that texts without markup are given back.\<close>

theorem generated_fault_decodes:
  assumes L: "text_lib L P" "\<And>t. plain_text t \<Longrightarrow> P t" and c: "c \<notin> set shadowed_codes" "c \<noteq> SOAP_FAULT_MUSTUNDERSTAND"
  shows "case fst (run_state (wsman_generate_fault L uuid rq c detail msg) nd) of
      None \<Rightarrow> find_fault c = None
    | Some r \<Rightarrow> find_fault c \<noteq> None \<and> wsman_is_valid_xml_envelope (Some r) = Some True \<and>
        (\<exists>st'. wsman_get_fault_status_from_doc (subcode_value L (Some r)) st = Some st' \<and> fault_code st' = c)"
proof (cases "find_fault c")
  case None
  then show ?thesis by (simp add: wsman_generate_fault_def)
next
  case (Some row)
  have "c \<noteq> WSMAN_UNKNOWN"
    using c(1) by (auto simp: shadowed_codes_def)
  then obtain code u sc where row: "ft_code row = Some code" "ft_subCodeNs row = Some u" "ft_subCode row = Some sc"
    using find_fault_fields [OF Some] by auto
  have "row \<in> set fault_code_table"
    using Some by (auto simp: find_fault_def find_Some_iff)
  then have sc: "sc \<noteq> []" "plain_text sc"
    using fault_rows_plain row(3) c(2) find_fault_code [OF Some] by (auto simp: list_all_iff split: option.splits)
  from fault_envelope_shape [OF sc(1), of L uuid rq code u "ft_fault_action row" None
      "case msg of None \<Rightarrow> ft_reason row | Some m \<Rightarrow> Some m" "fault_detail_text detail" nd]
  obtain hs v p rest where r: "fst (run_state (wsman_generate_fault L uuid rq c detail msg) nd) =
      Some (envelope (hs @ [wsa_elem L WSA_MESSAGE_ID (Some uuid)])
        [Elem (Some XML_NS_SOAP_1_2) SOAP_FAULT []
          (Elem (Some XML_NS_SOAP_1_2) SOAP_CODE []
            [Elem (Some XML_NS_SOAP_1_2) SOAP_VALUE [] v,
             Elem (Some XML_NS_SOAP_1_2) SOAP_SUBCODE []
               [Elem (Some XML_NS_SOAP_1_2) SOAP_VALUE [] (xmlNodeSetContent L (p @ CHR '':'' # sc))]] # rest)])"
    "plain_prefix p"
    using Some row by (auto simp: wsman_generate_fault_def)
  have "P (p @ CHR '':'' # sc)"
    using r(2) sc(2) by (intro L(2)) (auto simp: plain_prefix_def plain_text_def)
  then have "subcode_value L (fst (run_state (wsman_generate_fault L uuid rq c detail msg) nd)) = Some (p @ CHR '':'' # sc)"
    unfolding r(1) using L(1) soap_fault_names
    by (simp add: subcode_value_def Let_def ws_xml_get_child_0 ws_xml_is_node_qname_eq ws_xml_get_node_text_def text_lib_def)
  moreover have "CHR '':'' \<notin> set p"
    using r(2) by (simp add: plain_prefix_def)
  ultimately show ?thesis
    using Some r(1) valid_envelope fault_subcode_decodes [OF Some row(3) c(1), of p st] by auto
qed

theorem generated_fault_decodes_witness:
  "\<exists>r st'. fst (run_state (wsman_generate_fault plain_xmllib ''uuid:2'' None WSMAN_ACCESS_DENIED 0 None) empty_nsdoc) = Some r \<and>
     wsman_get_fault_status_from_doc (subcode_value plain_xmllib (Some r)) wsman_status_init = Some st' \<and>
     fault_code st' = WSMAN_ACCESS_DENIED"
proof -
  have "WSMAN_ACCESS_DENIED \<notin> set shadowed_codes"
    by (simp add: shadowed_codes_def)
  moreover have "find_fault WSMAN_ACCESS_DENIED \<noteq> None"
    by (simp add: find_fault_None)
  ultimately show ?thesis
    using generated_fault_decodes [OF plain_text_lib [of "\<lambda>_. True"], of WSMAN_ACCESS_DENIED wsman_status_init "''uuid:2''" None 0 None empty_nsdoc]
    by (auto split: option.splits)
qed

section \<open>Rejected requests\<close>

lemma body_has_header: "ws_xml_get_soap_body doc \<noteq> None \<Longrightarrow> ws_xml_get_soap_header doc \<noteq> None"
proof -
  assume "ws_xml_get_soap_body doc \<noteq> None"
  then obtain b where "ws_xml_get_soap_body doc = Some b"
    by blast
  from get_soap_body_Some [OF this] show ?thesis
    by (auto simp: get_soap_header_eq ws_xml_get_child_nth Let_def split: if_splits)
qed

text \<open>What an envelope must have to be accepted.\<close>

definition acceptable :: "xmllib \<Rightarrow> xnode \<Rightarrow> bool" where
  "acceptable L root \<longleftrightarrow>
     node_query_name root = SOAP_ENVELOPE \<and> node_query_ns root = Some XML_NS_SOAP_1_2 \<and>
     ws_xml_get_soap_body (Some root) \<noteq> None \<and>
     (wsman_is_identify_request (Some root) \<or> wsman_is_event_related_request L (Some root) \<or>
      (let h = ws_xml_get_soap_header (Some root) in
       ws_xml_get_child h 0 (Some XML_NS_WS_MAN) (Some WSM_RESOURCE_URI) \<noteq> None \<and>
       (\<forall>name \<in> {WSA_ACTION, WSA_REPLY_TO, WSA_TO}. ws_xml_get_child h 0 (Some XML_NS_ADDRESSING) (Some name) \<noteq> None)))"

lemma generate_fault_None:
  "fst (run_state (wsman_generate_fault L uuid rq c detail m) nd) = None \<longleftrightarrow> find_fault c = None"
proof (cases "find_fault c")
  case (Some row)
  obtain hs where "fst (run_state (if rq \<noteq> None then wsman_create_response_envelope L rq (ft_fault_action row)
       else do { e \<leftarrow> ws_xml_create_envelope L; State_Monad.return (Some e) }) nd) = Some (envelope hs [])"
    using create_envelope_cases by blast
  then show ?thesis
    using Some
    by (simp only: wsman_generate_fault_def wsman_create_fault_envelope_def State_Monad.run_state_bind split_beta option.case)
      (simp add: split_beta Let_def)
qed (simp add: wsman_generate_fault_def)

lemma msg_set_fault_code:
  "\<not> wsman_fault_occured (msg_status msg) \<Longrightarrow> fault_code (msg_status (msg_set_fault msg c d s)) = c"
  by (simp add: msg_set_fault_def wsman_set_fault_def Let_def split: option.split)

text \<open>A request is accepted, or marked with a fault.\<close>

lemma valid_envelope_or_fault:
  assumes "\<not> wsman_fault_occured (msg_status msg)"
  shows "\<exists>ok msg'. wsman_is_valid_envelope L msg (Some root) = Some (ok, msg') \<and> ok = acceptable L root \<and>
    (if ok then msg' = msg
     else wsman_fault_occured (msg_status msg') \<and>
       (fst (run_state (wsman_generate_fault L uuid (Some root) (fault_code (msg_status msg')) detail m) nd) = None
          \<longleftrightarrow> node_query_name root = SOAP_ENVELOPE \<and> (\<exists>u. node_query_ns root = Some u \<and> u \<noteq> XML_NS_SOAP_1_2)))"
proof -
  note code = msg_set_fault_code [OF assms]
  have occ: "wsman_fault_occured (msg_status (msg_set_fault msg c d s)) \<longleftrightarrow> c \<noteq> WSMAN_RC_OK" for c d s
    using code [of c d s] by (simp add: wsman_fault_occured_def)
  have local: "ws_xml_get_node_local_name (Some root) = Some (node_query_name root)"
    "ws_xml_get_node_name_ns (Some root) = node_query_ns root"
    by (simp_all add: ws_xml_get_node_local_name_def ws_xml_get_node_name_ns_def)
  show ?thesis
    unfolding generate_fault_None find_fault_None wsman_is_valid_envelope_def local acceptable_def
    using body_has_header [of "Some root"]
    by (auto simp: code occ Let_def split: option.split)
qed

text \<open>C31: A well-formed request is accepted without a fault exactly when it is a SOAP 1.2 envelope with a
  body and, unless it is an identify or an event request, with resource URI, action, reply address
  and destination.  Every other request is marked with a fault for which a fault document can be
  generated, with one exception: an envelope in another namespace gets the fault for a version
  mismatch, which has no row in the fault table, so that no reply can be made.\<close>

theorem rejected_requests_are_answered:
  assumes "\<not> wsman_fault_occured (msg_status msg)"
  shows "\<exists>ok msg'. wsman_is_valid_envelope L msg (Some root) = Some (ok, msg') \<and> ok = acceptable L root \<and>
    (if ok then msg' = msg
     else wsman_fault_occured (msg_status msg') \<and>
       (fst (run_state (wsman_generate_fault L uuid (Some root) (fault_code (msg_status msg')) detail m) nd) = None
          \<longleftrightarrow> node_query_name root = SOAP_ENVELOPE \<and> (\<exists>u. node_query_ns root = Some u \<and> u \<noteq> XML_NS_SOAP_1_2)))"
  by (rule valid_envelope_or_fault [OF assms])

theorem rejected_requests_are_answered_witness:
  "\<exists>ok msg'. wsman_is_valid_envelope plain_xmllib wsman_soap_message_new (Some (Elem (Some XML_NS_SOAP_1_1) SOAP_ENVELOPE [] [])) = Some (ok, msg') \<and>
     \<not> ok \<and> fst (run_state (wsman_generate_fault plain_xmllib [] (Some (Elem (Some XML_NS_SOAP_1_1) SOAP_ENVELOPE [] []))
       (fault_code (msg_status msg')) 0 None) empty_nsdoc) = None"
proof -
  have "XML_NS_SOAP_1_1 \<noteq> XML_NS_SOAP_1_2"
    by (simp add: ws_names)
  moreover have "\<not> wsman_fault_occured (msg_status wsman_soap_message_new)"
    by (simp add: wsman_soap_message_new_def wsman_fault_occured_def)
  ultimately show ?thesis
    using rejected_requests_are_answered [of wsman_soap_message_new plain_xmllib "Elem (Some XML_NS_SOAP_1_1) SOAP_ENVELOPE [] []" "[]" 0 None empty_nsdoc]
    by (auto simp: acceptable_def)
qed

end
