(* ===== verification/Ws_Event_Pool.thy ===== *)
theory Ws_Event_Pool
  imports Ws_Xml
begin

text \<open>
  The event pool of \<open>src/src/lib/wsman-event-pool.c\<close>: for every subscription the notifications that wait
  to be delivered.  The pool is one list of entries, each with the id of a subscription and the list
  of its notifications; an entry is found by comparing ids without regard to case.  The lists are
  those of \<open>Kazlib_List\<close>, here by their contents.  A pool that is not initialised is \<open>None\<close>, so is the
  result of appending to it and of copying an id into the 64 bytes of an entry it does not fit in.

  The lemmas show that the pool implements one queue for each subscription: events leave in the order
  in which they were added, operations on one subscription leave the others alone, and the number of
  events added for pulling is bounded.
\<close>

section \<open>Data\<close>

record WsNotificationInfo =
  headerOpaqueData :: xdoc
  EventAction :: "string option"
  EventContent :: xdoc

record event_entry =
  subscription_id :: string
  event_content_list :: "WsNotificationInfo list"

record event_pool =
  global_event_list :: "event_entry list option"
  max_pull_event_number :: int

definition EUIDLEN :: nat where
  "EUIDLEN = 64"

section \<open>Operations\<close>

definition MemEventPoolInit :: "int option \<Rightarrow> event_pool \<Rightarrow> int \<times> event_pool" where
  "MemEventPoolInit opaqueData pool =
     (0, pool\<lparr>global_event_list := Some [],
              max_pull_event_number := (case opaqueData of None \<Rightarrow> max_pull_event_number pool | Some n \<Rightarrow> n)\<rparr>)"

definition MemEventPoolFinalize :: int where
  "MemEventPoolFinalize = 0"

text \<open>The search loop that all operations start with: the entries before the match, the match and the
  entries after it.\<close>

fun search_entry :: "string \<Rightarrow> event_entry list \<Rightarrow> (event_entry list \<times> event_entry \<times> event_entry list) option" where
  "search_entry uuid [] = None"
| "search_entry uuid (entry # es) =
     (if strcasecmp (subscription_id entry) uuid = 0 then Some ([], entry, es)
      else map_option (\<lambda>(as, e, bs). (entry # as, e, bs)) (search_entry uuid es))"

definition pool_entries :: "event_pool \<Rightarrow> event_entry list" where
  "pool_entries pool = (case global_event_list pool of None \<Rightarrow> [] | Some es \<Rightarrow> es)"

definition MemEventPoolCount :: "string \<Rightarrow> event_pool \<Rightarrow> int" where
  "MemEventPoolCount uuid pool =
     (case search_entry uuid (pool_entries pool) of
        Some (as, entry, bs) \<Rightarrow> sint (of_nat (length (event_content_list entry)) :: 32 word)
      | None \<Rightarrow> 0)"

text \<open>The entry of a subscription, created at the end of the list when there is none.\<close>

definition entry_for ::
  "string \<Rightarrow> event_pool \<Rightarrow> (event_entry list \<times> event_entry \<times> event_entry list) option" where
  "entry_for uuid pool =
     (case search_entry uuid (pool_entries pool) of
        Some r \<Rightarrow> Some r
      | None \<Rightarrow> do {
          c_assert (length uuid < EUIDLEN);
          es \<leftarrow> global_event_list pool;
          Some (es, \<lparr>subscription_id = uuid, event_content_list = []\<rparr>, [])
        })"

definition MemEventPoolAddEvent ::
  "string \<Rightarrow> WsNotificationInfo option \<Rightarrow> event_pool \<Rightarrow> (int \<times> event_pool) option" where
  "MemEventPoolAddEvent uuid notification pool =
     (case notification of
        None \<Rightarrow> Some (0, pool)
      | Some n \<Rightarrow> do {
          (as, entry, bs) \<leftarrow> entry_for uuid pool;
          let entry = entry\<lparr>event_content_list := event_content_list entry @ [n]\<rparr>;
          Some (0, pool\<lparr>global_event_list := Some (as @ entry # bs)\<rparr>)
        })"

text \<open>The length of the list is compared with the maximum as \<open>unsigned long\<close>.\<close>

definition MemEventPoolAddPullEvent ::
  "string \<Rightarrow> WsNotificationInfo option \<Rightarrow> event_pool \<Rightarrow> (int \<times> event_pool) option" where
  "MemEventPoolAddPullEvent uuid notification pool =
     (case notification of
        None \<Rightarrow> Some (0, pool)
      | Some n \<Rightarrow> do {
          (as, entry, bs) \<leftarrow> entry_for uuid pool;
          if (of_nat (length (event_content_list entry)) :: ulong) > of_int (max_pull_event_number pool)
          then Some (-1, pool\<lparr>global_event_list := Some (as @ entry # bs)\<rparr>)
          else do {
            let entry = entry\<lparr>event_content_list := event_content_list entry @ [n]\<rparr>;
            Some (0, pool\<lparr>global_event_list := Some (as @ entry # bs)\<rparr>)
          }
        })"

definition MemEventPoolGetAndDeleteEvent ::
  "string \<Rightarrow> event_pool \<Rightarrow> int \<times> WsNotificationInfo option \<times> event_pool" where
  "MemEventPoolGetAndDeleteEvent uuid pool =
     (case search_entry uuid (pool_entries pool) of
        None \<Rightarrow> (-1, None, pool)
      | Some (as, entry, bs) \<Rightarrow>
          (case event_content_list entry of
             [] \<Rightarrow> (-1, None, pool)
           | n # ns \<Rightarrow>
               (0, Some n, pool\<lparr>global_event_list := Some (as @ entry\<lparr>event_content_list := ns\<rparr> # bs)\<rparr>)))"

text \<open>\<open>proc\<close> is called on every notification of the entry: they are the second component.\<close>

definition MemEventPoolClearEvent ::
  "string \<Rightarrow> event_pool \<Rightarrow> int \<times> WsNotificationInfo list \<times> event_pool" where
  "MemEventPoolClearEvent uuid pool =
     (case search_entry uuid (pool_entries pool) of
        None \<Rightarrow> (-1, [], pool)
      | Some (as, entry, bs) \<Rightarrow>
          (0, event_content_list entry, pool\<lparr>global_event_list := Some (as @ bs)\<rparr>))"

section \<open>The queues\<close>

abbreviation same_id :: "string \<Rightarrow> string \<Rightarrow> bool" where
  "same_id a b \<equiv> map c_tolower a = map c_tolower b"

text \<open>The notifications that wait for a subscription.\<close>

definition pool_queue :: "event_pool \<Rightarrow> string \<Rightarrow> WsNotificationInfo list" where
  "pool_queue pool uuid =
     (case search_entry uuid (pool_entries pool) of None \<Rightarrow> [] | Some (as, e, bs) \<Rightarrow> event_content_list e)"

definition pool_ok :: "event_pool \<Rightarrow> bool" where
  "pool_ok pool \<longleftrightarrow> global_event_list pool \<noteq> None \<and>
     distinct (map (\<lambda>e. map c_tolower (subscription_id e)) (pool_entries pool)) \<and>
     (\<forall>e \<in> set (pool_entries pool). length (subscription_id e) < EUIDLEN)"

lemma search_entry_None:
  "search_entry uuid es = None \<longleftrightarrow> (\<forall>e \<in> set es. \<not> same_id (subscription_id e) uuid)"
  by (induction es) (auto simp: strcasecmp_def)

lemma search_entry_Some:
  "search_entry uuid es = Some (as, e, bs) \<longleftrightarrow>
     es = as @ e # bs \<and> same_id (subscription_id e) uuid \<and> (\<forall>a \<in> set as. \<not> same_id (subscription_id a) uuid)"
proof (induction es arbitrary: as)
  case (Cons x xs)
  show ?case
  proof (cases as)
    case Nil
    then show ?thesis
      by (auto simp: strcasecmp_def)
  next
    case (Cons a as')
    then show ?thesis
      using Cons.IH [of as'] by (auto simp: strcasecmp_def)
  qed
qed auto

text \<open>The queue of a subscription, with any of its entry replaced.\<close>

lemma pool_queue_replace:
  assumes "global_event_list p = Some (as @ e # bs)"
    and "\<forall>a \<in> set as. \<not> same_id (subscription_id a) (subscription_id e)"
    and "\<forall>b \<in> set bs. \<not> same_id (subscription_id b) (subscription_id e)"
  shows "pool_queue p u =
    (if same_id u (subscription_id e) then event_content_list e
     else pool_queue (p\<lparr>global_event_list := Some (as @ bs)\<rparr>) u)"
proof (cases "same_id u (subscription_id e)")
  case True
  then have "search_entry u (as @ e # bs) = Some (as, e, bs)"
    using assms(2) by (simp add: search_entry_Some)
  then show ?thesis
    using True assms(1) by (simp add: pool_queue_def pool_entries_def)
next
  case False
  have "map_option (\<lambda>r. event_content_list (fst (snd r))) (search_entry u (as @ e # bs)) =
      map_option (\<lambda>r. event_content_list (fst (snd r))) (search_entry u (as @ bs))"
    using False by (induction as) (auto simp: strcasecmp_def option.map_comp comp_def split_beta)
  then show ?thesis
    using False assms(1)
    by (cases "search_entry u (as @ bs)"; cases "search_entry u (as @ e # bs)")
      (auto simp: pool_queue_def pool_entries_def)
qed

lemma pool_queue_split:
  assumes "pool_ok p" "search_entry uuid (pool_entries p) = Some (as, e, bs)"
  shows "global_event_list p = Some (as @ e # bs)" "same_id (subscription_id e) uuid"
    "\<forall>a \<in> set as. \<not> same_id (subscription_id a) (subscription_id e)"
    "\<forall>b \<in> set bs. \<not> same_id (subscription_id b) (subscription_id e)"
proof -
  have f: "pool_entries p = as @ e # bs" "same_id (subscription_id e) uuid"
    using assms(2) by (simp_all add: search_entry_Some)
  have d: "distinct (map (\<lambda>e. map c_tolower (subscription_id e)) (as @ e # bs))"
    using assms(1) f(1) by (simp add: pool_ok_def)
  show "global_event_list p = Some (as @ e # bs)"
    using assms(1) f(1) by (auto simp: pool_ok_def pool_entries_def)
  show "same_id (subscription_id e) uuid"
    by (rule f(2))
  show "\<forall>a \<in> set as. \<not> same_id (subscription_id a) (subscription_id e)"
    using d by (simp add: image_iff) metis
  show "\<forall>b \<in> set bs. \<not> same_id (subscription_id b) (subscription_id e)"
    using d by (simp add: image_iff) metis
qed

lemma pool_queue_absent:
  assumes "search_entry uuid (pool_entries p) = None" "same_id u uuid"
  shows "pool_queue p u = []"
proof -
  have "search_entry u (pool_entries p) = None"
    using assms by (simp add: search_entry_None)
  then show ?thesis
    by (simp add: pool_queue_def)
qed

lemma entry_for_split:
  assumes ok: "pool_ok p" and len: "length uuid < EUIDLEN"
  obtains as e bs where "entry_for uuid p = Some (as, e, bs)" "same_id (subscription_id e) uuid"
    "\<And>ns. pool_ok (p\<lparr>global_event_list := Some (as @ e\<lparr>event_content_list := ns\<rparr> # bs)\<rparr>)"
    "event_content_list e = pool_queue p uuid"
    "\<And>ns u. pool_queue (p\<lparr>global_event_list := Some (as @ e\<lparr>event_content_list := ns\<rparr> # bs)\<rparr>) u =
       (if same_id u uuid then ns else pool_queue p u)"
proof (cases "search_entry uuid (pool_entries p)")
  case None
  obtain es where es: "global_event_list p = Some es"
    using ok by (auto simp: pool_ok_def)
  let ?e = "\<lparr>subscription_id = uuid, event_content_list = []\<rparr>"
  have new: "\<forall>a \<in> set es. \<not> same_id (subscription_id a) uuid"
    using None es by (simp add: search_entry_None pool_entries_def)
  have same: "p\<lparr>global_event_list := Some es\<rparr> = p"
    using es by simp
  show thesis
  proof (rule that [of es ?e "[]"])
    show "entry_for uuid p = Some (es, ?e, [])"
      using None es len by (simp add: entry_for_def)
    show "pool_ok (p\<lparr>global_event_list := Some (es @ ?e\<lparr>event_content_list := ns\<rparr> # [])\<rparr>)" for ns
      using ok es len new by (auto simp: pool_ok_def pool_entries_def)
    show "pool_queue (p\<lparr>global_event_list := Some (es @ ?e\<lparr>event_content_list := ns\<rparr> # [])\<rparr>) u =
        (if same_id u uuid then ns else pool_queue p u)" for ns u
      using new same by (subst pool_queue_replace [where as = es and bs = "[]" and e = "?e\<lparr>event_content_list := ns\<rparr>"]) auto
  qed (use None pool_queue_absent in auto)
next
  case (Some r)
  obtain as e bs where r: "r = (as, e, bs)"
    by (cases r)
  note sp = pool_queue_split [OF ok Some [unfolded r]]
  show thesis
  proof (rule that [of as e bs])
    show "entry_for uuid p = Some (as, e, bs)"
      using Some r by (simp add: entry_for_def)
    show "same_id (subscription_id e) uuid"
      by (rule sp(2))
    show "pool_ok (p\<lparr>global_event_list := Some (as @ e\<lparr>event_content_list := ns\<rparr> # bs)\<rparr>)" for ns
      using ok sp(1) by (auto simp: pool_ok_def pool_entries_def)
    show "event_content_list e = pool_queue p uuid"
      using Some r by (simp add: pool_queue_def)
    have other: "pool_queue (p\<lparr>global_event_list := Some (as @ bs)\<rparr>) u = pool_queue p u" if "\<not> same_id u uuid" for u
      using pool_queue_replace [OF sp(1,3,4), of u] that sp(2) by simp
    show "pool_queue (p\<lparr>global_event_list := Some (as @ e\<lparr>event_content_list := ns\<rparr> # bs)\<rparr>) u =
        (if same_id u uuid then ns else pool_queue p u)" for ns u
      using sp(2-4) other
      by (subst pool_queue_replace [where as = as and bs = bs and e = "e\<lparr>event_content_list := ns\<rparr>"]) auto
  qed
qed

lemma pool_remove_entry:
  assumes ok: "pool_ok p" and f: "search_entry uuid (pool_entries p) = Some (as, e, bs)"
  shows "pool_ok (p\<lparr>global_event_list := Some (as @ bs)\<rparr>)"
    and "pool_queue (p\<lparr>global_event_list := Some (as @ bs)\<rparr>) u = (if same_id u uuid then [] else pool_queue p u)"
proof -
  note sp = pool_queue_split [OF ok f]
  show "pool_ok (p\<lparr>global_event_list := Some (as @ bs)\<rparr>)"
    using ok sp(1) by (auto simp: pool_ok_def pool_entries_def)
  show "pool_queue (p\<lparr>global_event_list := Some (as @ bs)\<rparr>) u = (if same_id u uuid then [] else pool_queue p u)"
  proof (cases "same_id u uuid")
    case True
    then have "search_entry u (as @ bs) = None"
      using sp(2-4) by (auto simp: search_entry_None)
    then show ?thesis
      using True by (simp add: pool_queue_def pool_entries_def)
  next
    case False
    then show ?thesis
      using pool_queue_replace [OF sp(1,3,4), of u] sp(2) by simp
  qed
qed

section \<open>The interface of the event pool\<close>

text \<open>The function table \<open>EventPoolOpSet\<close>: what the code that delivers notifications may rely on.  \<open>que\<close> is
  the queue of a subscription, \<open>same\<close> when two ids name the same subscription.\<close>

datatype 'n pool_op = Add string 'n | Remove string | Clear string

locale event_pool_ops =
  fixes que :: "'p \<Rightarrow> string \<Rightarrow> 'n list"
    and pinv :: "'p \<Rightarrow> bool"
    and same :: "string \<Rightarrow> string \<Rightarrow> bool"
    and valid :: "string \<Rightarrow> bool"
    and add :: "string \<Rightarrow> 'n \<Rightarrow> 'p \<Rightarrow> 'p option"
    and remove :: "string \<Rightarrow> 'p \<Rightarrow> 'n option \<times> 'p"
    and clear :: "string \<Rightarrow> 'p \<Rightarrow> 'n list \<times> 'p"
  assumes add_law: "pinv p \<Longrightarrow> valid u \<Longrightarrow>
      \<exists>p'. add u n p = Some p' \<and> pinv p' \<and> (\<forall>v. que p' v = (if same v u then que p u @ [n] else que p v))"
    and remove_law: "pinv p \<Longrightarrow> pinv (snd (remove u p)) \<and>
      fst (remove u p) = (case que p u of [] \<Rightarrow> None | n # ns \<Rightarrow> Some n) \<and>
      (\<forall>v. que (snd (remove u p)) v = (if same v u then tl (que p u) else que p v))"
    and clear_law: "pinv p \<Longrightarrow> pinv (snd (clear u p)) \<and> fst (clear u p) = que p u \<and>
      (\<forall>v. que (snd (clear u p)) v = (if same v u then [] else que p v))"
    and same_que: "same v u \<Longrightarrow> que p v = que p u"
begin

text \<open>A sequence of operations: the events each of them takes out, and the pool after them.\<close>

fun run :: "'n pool_op list \<Rightarrow> 'p \<Rightarrow> ((string \<times> 'n list) list \<times> 'p) option" where
  "run [] p = Some ([], p)"
| "run (Add u n # ops) p = do { p \<leftarrow> add u n p; run ops p }"
| "run (Remove u # ops) p = do {
     let (r, p) = remove u p;
     (out, p) \<leftarrow> run ops p;
     Some ((u, case r of None \<Rightarrow> [] | Some n \<Rightarrow> [n]) # out, p)
   }"
| "run (Clear u # ops) p = do {
     let (ns, p) = clear u p;
     (out, p) \<leftarrow> run ops p;
     Some ((u, ns) # out, p)
   }"

definition added :: "string \<Rightarrow> 'n pool_op list \<Rightarrow> 'n list" where
  "added v ops = concat (map (\<lambda>oper. case oper of Add u n \<Rightarrow> if same v u then [n] else [] | _ \<Rightarrow> []) ops)"

definition taken :: "string \<Rightarrow> (string \<times> 'n list) list \<Rightarrow> 'n list" where
  "taken v out = concat (map (\<lambda>(u, ns). if same v u then ns else []) out)"

text \<open>Whatever the order of the operations, the events of a subscription come out in the order in which
  they went in, none is lost and none comes twice.\<close>

lemma run_conserves:
  assumes "pinv p" "\<forall>u n. Add u n \<in> set ops \<longrightarrow> valid u"
  shows "\<exists>out p'. run ops p = Some (out, p') \<and> pinv p' \<and> que p v @ added v ops = taken v out @ que p' v"
  using assms
proof (induction ops arbitrary: p)
  case Nil
  then show ?case
    by (simp add: added_def taken_def)
next
  case (Cons oper ops)
  have valid: "\<forall>u n. Add u n \<in> set ops \<longrightarrow> valid u"
    using Cons.prems(2) by simp
  show ?case
  proof (cases oper)
    case (Add u n)
    then obtain q where q: "add u n p = Some q" "pinv q" "que q v = (if same v u then que p u @ [n] else que p v)"
      using add_law [of p u n] Cons.prems by auto
    then obtain out p' where "run ops q = Some (out, p')" "pinv p'" "que q v @ added v ops = taken v out @ que p' v"
      using Cons.IH [OF q(2) valid] by blast
    then show ?thesis
      using q Add same_que [of v u p] by (auto simp: added_def split: if_splits)
  next
    case (Remove u)
    obtain r q where rq: "remove u p = (r, q)"
      by (cases "remove u p")
    then have q: "pinv q" "r = (case que p u of [] \<Rightarrow> None | n # ns \<Rightarrow> Some n)"
      "que q v = (if same v u then tl (que p u) else que p v)"
      using remove_law [of p u] Cons.prems by simp_all
    then obtain out p' where "run ops q = Some (out, p')" "pinv p'" "que q v @ added v ops = taken v out @ que p' v"
      using Cons.IH [OF q(1) valid] by blast
    then show ?thesis
      using q Remove rq same_que [of v u p]
      by (cases "que p u") (auto simp: added_def taken_def split: if_splits)
  next
    case (Clear u)
    obtain ns q where rq: "clear u p = (ns, q)"
      by (cases "clear u p")
    then have q: "pinv q" "ns = que p u" "que q v = (if same v u then [] else que p v)"
      using clear_law [of p u] Cons.prems by simp_all
    then obtain out p' where "run ops q = Some (out, p')" "pinv p'" "que q v @ added v ops = taken v out @ que p' v"
      using Cons.IH [OF q(1) valid] by blast
    then show ?thesis
      using q Clear rq same_que [of v u p] by (auto simp: added_def taken_def split: if_splits)
  qed
qed

end

lemma pool_queue_same: "same_id v u \<Longrightarrow> pool_queue p v = pool_queue p u"
proof -
  assume "same_id v u"
  then have "search_entry v es = search_entry u es" for es
    by (induction es) (auto simp: strcasecmp_def)
  then show ?thesis
    by (simp add: pool_queue_def)
qed

lemma MemEventPoolAddEvent_law:
  assumes "pool_ok p" "length u < EUIDLEN"
  shows "\<exists>p'. MemEventPoolAddEvent u (Some n) p = Some (0, p') \<and> pool_ok p' \<and>
    (\<forall>v. pool_queue p' v = (if same_id v u then pool_queue p u @ [n] else pool_queue p v))"
proof -
  obtain as e bs where e: "entry_for u p = Some (as, e, bs)"
    "\<And>ns. pool_ok (p\<lparr>global_event_list := Some (as @ e\<lparr>event_content_list := ns\<rparr> # bs)\<rparr>)"
    "event_content_list e = pool_queue p u"
    "\<And>ns v. pool_queue (p\<lparr>global_event_list := Some (as @ e\<lparr>event_content_list := ns\<rparr> # bs)\<rparr>) v =
       (if same_id v u then ns else pool_queue p v)"
    using entry_for_split [OF assms] by metis
  then show ?thesis
    by (simp add: MemEventPoolAddEvent_def)
qed

text \<open>Events that are added for pulling are bounded: the comparison lets one event more in than
  \<open>max_pull_event_number\<close>.\<close>

lemma MemEventPoolAddPullEvent_law:
  assumes ok: "pool_ok p" and len: "length u < EUIDLEN"
    and mx: "0 \<le> max_pull_event_number p" "max_pull_event_number p < 2 ^ 31"
    and q: "length (pool_queue p u) < 2 ^ 32"
  shows "\<exists>p'. MemEventPoolAddPullEvent u (Some n) p =
      Some (if int (length (pool_queue p u)) > max_pull_event_number p then -1 else 0, p') \<and> pool_ok p' \<and>
    (\<forall>v. pool_queue p' v = (if same_id v u \<and> int (length (pool_queue p u)) \<le> max_pull_event_number p
                            then pool_queue p u @ [n] else pool_queue p v))"
proof -
  obtain as e bs where e: "entry_for u p = Some (as, e, bs)"
    and okn: "\<And>ns. pool_ok (p\<lparr>global_event_list := Some (as @ e\<lparr>event_content_list := ns\<rparr> # bs)\<rparr>)"
    and que: "event_content_list e = pool_queue p u"
    and upd: "\<And>ns v. pool_queue (p\<lparr>global_event_list := Some (as @ e\<lparr>event_content_list := ns\<rparr> # bs)\<rparr>) v =
       (if same_id v u then ns else pool_queue p v)"
    using entry_for_split [OF ok len] by metis
  have "e\<lparr>event_content_list := pool_queue p u\<rparr> = e"
    using que by (cases e) simp
  then have same: "pool_ok (p\<lparr>global_event_list := Some (as @ e # bs)\<rparr>)"
    "pool_queue (p\<lparr>global_event_list := Some (as @ e # bs)\<rparr>) v = pool_queue p v" for v
    using okn [of "pool_queue p u"] upd [of "pool_queue p u" v] pool_queue_same [of v u p] by (simp_all split: if_splits)
  define k where "k = length (pool_queue p u)"
  define m where "m = nat (max_pull_event_number p)"
  have m: "max_pull_event_number p = int m" "m < 2 ^ 31" "k < 2 ^ 32"
    using mx q by (simp_all add: m_def k_def)
  have "unat (of_nat k :: ulong) = k" "unat (of_nat m :: ulong) = m"
    using m(2,3) by (auto intro!: unat_of_nat_small)
  then have "(of_nat k :: ulong) > of_nat m \<longleftrightarrow> m < k"
    by (simp only: word_less_nat_alt)
  then have cmp: "(of_nat (length (pool_queue p u)) :: ulong) > of_int (max_pull_event_number p) \<longleftrightarrow>
      int (length (pool_queue p u)) > max_pull_event_number p"
    unfolding m(1) k_def [symmetric] by (simp only: of_int_of_nat_eq of_nat_less_iff)
  show ?thesis
    by (simp add: MemEventPoolAddPullEvent_def e que cmp same okn upd)
qed

lemma pull_events_bounded:
  assumes "pool_ok p" "length u < EUIDLEN" "0 \<le> max_pull_event_number p" "max_pull_event_number p < 2 ^ 31"
    and "\<forall>v. int (length (pool_queue p v)) \<le> max_pull_event_number p + 1"
    and "MemEventPoolAddPullEvent u (Some n) p = Some (r, p')"
  shows "\<forall>v. int (length (pool_queue p' v)) \<le> max_pull_event_number p + 1"
proof -
  have "int (length (pool_queue p u)) < 2 ^ 32"
    using assms(4) spec [OF assms(5), of u] by simp
  then have "length (pool_queue p u) < 2 ^ 32"
    by simp
  then show ?thesis
    using MemEventPoolAddPullEvent_law [OF assms(1-4), of n] assms(5,6) by auto
qed

lemma MemEventPoolGetAndDeleteEvent_law:
  assumes ok: "pool_ok p"
  shows "\<exists>r p'. MemEventPoolGetAndDeleteEvent u p = (r, (case pool_queue p u of [] \<Rightarrow> None | n # ns \<Rightarrow> Some n), p') \<and>
    (r = 0 \<longleftrightarrow> pool_queue p u \<noteq> []) \<and> pool_ok p' \<and> (\<forall>v. pool_queue p' v = (if same_id v u then tl (pool_queue p u) else pool_queue p v))"
proof (cases "search_entry u (pool_entries p)")
  case None
  then show ?thesis
    using ok pool_queue_absent [OF None] by (auto simp: MemEventPoolGetAndDeleteEvent_def)
next
  case (Some r)
  obtain as e bs where r: "r = (as, e, bs)"
    by (cases r)
  note sp = pool_queue_split [OF ok Some [unfolded r]]
  have e: "event_content_list e = pool_queue p u"
    using Some r by (simp add: pool_queue_def)
  have other: "pool_queue (p\<lparr>global_event_list := Some (as @ bs)\<rparr>) v = pool_queue p v" if "\<not> same_id v u" for v
    using pool_queue_replace [OF sp(1,3,4), of v] that sp(2) by simp
  have upd: "pool_queue (p\<lparr>global_event_list := Some (as @ e\<lparr>event_content_list := ns\<rparr> # bs)\<rparr>) v =
      (if same_id v u then ns else pool_queue p v)" for ns v
    using sp(2-4) other
    by (subst pool_queue_replace [where as = as and bs = bs and e = "e\<lparr>event_content_list := ns\<rparr>"]) auto
  show ?thesis
  proof (cases "pool_queue p u")
    case Nil
    have "pool_queue p v = []" if "same_id v u" for v
      using pool_queue_same [OF that, of p] Nil by simp
    then show ?thesis
      using Some r e ok Nil by (auto simp: MemEventPoolGetAndDeleteEvent_def)
  next
    case (Cons n ns)
    have "pool_ok (p\<lparr>global_event_list := Some (as @ e\<lparr>event_content_list := ns\<rparr> # bs)\<rparr>)"
      using ok sp(1) by (auto simp: pool_ok_def pool_entries_def)
    then show ?thesis
      using Some r e upd Cons by (simp add: MemEventPoolGetAndDeleteEvent_def)
  qed
qed

lemma MemEventPoolClearEvent_law:
  assumes ok: "pool_ok p"
  shows "\<exists>r p'. MemEventPoolClearEvent u p = (r, pool_queue p u, p') \<and> pool_ok p' \<and>
    (\<forall>v. pool_queue p' v = (if same_id v u then [] else pool_queue p v))"
proof (cases "search_entry u (pool_entries p)")
  case None
  then show ?thesis
    using ok pool_queue_absent [OF None] by (auto simp: MemEventPoolClearEvent_def)
next
  case (Some r)
  obtain as e bs where r: "r = (as, e, bs)"
    by (cases r)
  then have "event_content_list e = pool_queue p u"
    using Some by (simp add: pool_queue_def)
  then show ?thesis
    using Some r pool_remove_entry [OF ok Some [unfolded r]] by (simp add: MemEventPoolClearEvent_def)
qed

definition pool_add :: "string \<Rightarrow> WsNotificationInfo \<Rightarrow> event_pool \<Rightarrow> event_pool option" where
  "pool_add u n p = map_option snd (MemEventPoolAddEvent u (Some n) p)"

definition pool_take :: "string \<Rightarrow> event_pool \<Rightarrow> WsNotificationInfo option \<times> event_pool" where
  "pool_take u p = snd (MemEventPoolGetAndDeleteEvent u p)"

definition pool_clear :: "string \<Rightarrow> event_pool \<Rightarrow> WsNotificationInfo list \<times> event_pool" where
  "pool_clear u p = snd (MemEventPoolClearEvent u p)"

interpretation mem_pool: event_pool_ops pool_queue pool_ok same_id "\<lambda>u. length u < EUIDLEN" pool_add pool_take pool_clear
proof
  show "\<exists>p'. pool_add u n p = Some p' \<and> pool_ok p' \<and>
      (\<forall>v. pool_queue p' v = (if same_id v u then pool_queue p u @ [n] else pool_queue p v))"
    if "pool_ok p" "length u < EUIDLEN" for p u n
    using MemEventPoolAddEvent_law [OF that, of n] by (auto simp: pool_add_def)
  show "pool_ok (snd (pool_take u p)) \<and>
      fst (pool_take u p) = (case pool_queue p u of [] \<Rightarrow> None | n # ns \<Rightarrow> Some n) \<and>
      (\<forall>v. pool_queue (snd (pool_take u p)) v = (if same_id v u then tl (pool_queue p u) else pool_queue p v))"
    if "pool_ok p" for p u
    using MemEventPoolGetAndDeleteEvent_law [OF that, of u] by (auto simp: pool_take_def)
  show "pool_ok (snd (pool_clear u p)) \<and> fst (pool_clear u p) = pool_queue p u \<and>
      (\<forall>v. pool_queue (snd (pool_clear u p)) v = (if same_id v u then [] else pool_queue p v))"
    if "pool_ok p" for p u
    using MemEventPoolClearEvent_law [OF that, of u] by (auto simp: pool_clear_def)
  show "pool_queue p v = pool_queue p u" if "same_id v u" for p v u
    using that by (rule pool_queue_same)
qed

section \<open>Properties\<close>

text \<open>A sequence of calls of the pool: the notifications that each call takes out, and the pool after it.\<close>

fun pool_run :: "WsNotificationInfo pool_op list \<Rightarrow> event_pool \<Rightarrow> ((string \<times> WsNotificationInfo list) list \<times> event_pool) option" where
  "pool_run [] p = Some ([], p)"
| "pool_run (Add u n # ops) p = do { (r, p) \<leftarrow> MemEventPoolAddEvent u (Some n) p; pool_run ops p }"
| "pool_run (Remove u # ops) p = do {
     let (r, n, p) = MemEventPoolGetAndDeleteEvent u p;
     (out, p) \<leftarrow> pool_run ops p;
     Some ((u, case n of None \<Rightarrow> [] | Some n \<Rightarrow> [n]) # out, p)
   }"
| "pool_run (Clear u # ops) p = do {
     let (r, ns, p) = MemEventPoolClearEvent u p;
     (out, p) \<leftarrow> pool_run ops p;
     Some ((u, ns) # out, p)
   }"

lemma pool_run_eq: "pool_run ops p = mem_pool.run ops p"
proof (induction ops p rule: pool_run.induct)
  case (2 u n ops p)
  then show ?case
    by (cases "MemEventPoolAddEvent u (Some n) p") (auto simp: pool_add_def [of u n p])
next
  case (3 u ops p)
  then show ?case
    by (cases "MemEventPoolGetAndDeleteEvent u p") (simp add: pool_take_def [of u p])
next
  case (4 u ops p)
  then show ?case
    by (cases "MemEventPoolClearEvent u p") (simp add: pool_clear_def [of u p])
qed simp

definition events_added :: "string \<Rightarrow> WsNotificationInfo pool_op list \<Rightarrow> WsNotificationInfo list" where
  "events_added v ops = concat (map (\<lambda>oper. case oper of Add u n \<Rightarrow> if same_id v u then [n] else [] | _ \<Rightarrow> []) ops)"

definition events_taken :: "string \<Rightarrow> (string \<times> WsNotificationInfo list) list \<Rightarrow> WsNotificationInfo list" where
  "events_taken v out = concat (map (\<lambda>(u, ns). if same_id v u then ns else []) out)"

lemma pool_run_conserves:
  assumes "pool_ok p" "\<forall>u n. Add u n \<in> set ops \<longrightarrow> length u < EUIDLEN"
  shows "\<exists>out p'. pool_run ops p = Some (out, p') \<and> pool_ok p' \<and>
    pool_queue p v @ events_added v ops = events_taken v out @ pool_queue p' v"
  using mem_pool.run_conserves [OF assms, of v]
  by (simp add: pool_run_eq events_added_def events_taken_def mem_pool.added_def mem_pool.taken_def)

text \<open>C9: Start from an initialised event pool and call its add, remove and clear functions for
  any subscriptions, in any order, with ids that fit.  No call fails, and for every subscription the
  events it has handed out so far (by remove, or to the function that clear calls), followed by the
  events still waiting, are exactly the events added for it, in the order of the additions.\<close>

theorem event_pool_fifo:
  assumes "\<forall>u n. Add u n \<in> set ops \<longrightarrow> length u < EUIDLEN"
  shows "\<exists>out p'. pool_run ops (snd (MemEventPoolInit mx p)) = Some (out, p') \<and>
    events_added v ops = events_taken v out @ pool_queue p' v"
proof -
  have "pool_ok (snd (MemEventPoolInit mx p))" "pool_queue (snd (MemEventPoolInit mx p)) v = []"
    by (simp_all add: MemEventPoolInit_def pool_ok_def pool_queue_def pool_entries_def)
  then show ?thesis
    using pool_run_conserves [of "snd (MemEventPoolInit mx p)" ops v] assms by auto
qed

definition sample_event :: "string \<Rightarrow> WsNotificationInfo" where
  "sample_event a = \<lparr>headerOpaqueData = None, EventAction = Some a, EventContent = None\<rparr>"

definition sample_ops :: "WsNotificationInfo pool_op list" where
  "sample_ops = [Add ''a'' (sample_event ''1''), Add ''B'' (sample_event ''2''), Remove ''A'',
     Add ''b'' (sample_event ''3''), Remove ''b'']"

theorem event_pool_fifo_witness:
  "\<exists>out p'. pool_run sample_ops (snd (MemEventPoolInit None \<lparr>global_event_list = None, max_pull_event_number = 16\<rparr>))
      = Some (out, p') \<and> events_added ''b'' sample_ops = events_taken ''b'' out @ pool_queue p' ''b''"
  by (rule event_pool_fifo) (auto simp: EUIDLEN_def sample_ops_def)

end
