(* ===== verification/Ws_Context.thy ===== *)
theory Ws_Context
  imports Ws_Request
begin

text \<open>
  The contexts of \<open>src/src/lib/wsman-soap.c\<close>: the table of named values, the table of the enumerations
  and the list of the subscriptions that a context owns, and the functions that create and destroy a
  context and set, get and remove its values.  Both tables are hash tables of \<open>Kazlib_Hash\<close> whose nodes
  are released together with their keys (\<open>free_hentry_func\<close>).  What an allocation returns is an argument.

  The lemmas show that a value that was set is read back and leaves the other names alone, and that
  destroying a context releases every node of its tables once.
\<close>

section \<open>Data\<close>

text \<open>A value of a context is a pointer: to a copy of a number, or to a caller's object.\<close>

datatype ctx_val = CtxUlong ulong | CtxPtr addr

record WS_CONTEXT =
  enumIdleTimeout :: ulong
  indoc :: xdoc
  enuminfos :: "addr hash_t option"
  entries :: "ctx_val option hash_t option"
  subscriptionMemList :: "WsSubscribeInfo list"
  owner :: bool

section \<open>Operations\<close>

definition free_hentry_func :: "'v hnode \<Rightarrow> 'v freed list" where
  "free_hentry_func n = [Freed_key (hn_key n), Freed_node (hn_addr n)]"

text \<open>\<open>key\<close>: whether the key could be copied; \<open>hn\<close>: the node that \<open>hnode_create\<close> returns.\<close>

definition create_context_entry ::
  "bool \<Rightarrow> addr option \<Rightarrow> bool \<Rightarrow> 'v hash_t \<Rightarrow> string \<Rightarrow> 'v \<Rightarrow> (addr option \<times> 'v hash_t) option" where
  "create_context_entry key hn mem h name val =
     (case hn of
        None \<Rightarrow> Some (None, h)
      | Some a \<Rightarrow>
          if \<not> key then Some (None, h)
          else do {
            h \<leftarrow> hash_insert mem h (hnode_init a val) name;
            Some (Some a, h)
          })"

definition ws_remove_context_val :: "bool \<Rightarrow> WS_CONTEXT \<Rightarrow> string option \<Rightarrow> (int \<times> WS_CONTEXT) option" where
  "ws_remove_context_val mem cntx name =
     (case name of
        None \<Rightarrow> Some (1, cntx)
      | Some nm \<Rightarrow> do {
          h \<leftarrow> entries cntx;
          hn \<leftarrow> hash_lookup h nm;
          if hn = None then Some (1, cntx)
          else do {
            (fs, h) \<leftarrow> hash_delete_free mem h hn;
            Some (0, cntx\<lparr>entries := Some h\<rparr>)
          }
        })"

text \<open>The outcomes of the allocations of \<open>set_context_val\<close>: the copy of the value, the copy of the key, the
  node, and the reallocations of the table.\<close>

record ctx_mem =
  cm_copy :: bool
  cm_key :: bool
  cm_node :: "addr option"
  cm_table :: bool

definition set_context_val ::
  "ctx_mem \<Rightarrow> WS_CONTEXT \<Rightarrow> string option \<Rightarrow> ctx_val option \<Rightarrow> bool \<Rightarrow> (int \<times> WS_CONTEXT) option" where
  "set_context_val m cntx name val no_dup =
     (case name of
        None \<Rightarrow> Some (1, cntx)
      | Some nm \<Rightarrow>
          (let ptr = (if \<not> no_dup \<and> val \<noteq> None \<and> \<not> cm_copy m then None else val) in
           if ptr \<noteq> None \<or> val = None then do {
             (r, cntx) \<leftarrow> ws_remove_context_val (cm_table m) cntx (Some nm);
             h \<leftarrow> entries cntx;
             (hn, h) \<leftarrow> create_context_entry (cm_key m) (cm_node m) (cm_table m) h nm ptr;
             Some (if hn \<noteq> None then 0 else 1, cntx\<lparr>entries := Some h\<rparr>)
           }
           else Some (1, cntx)))"

definition ws_set_context_ulong_val :: "ctx_mem \<Rightarrow> WS_CONTEXT \<Rightarrow> string option \<Rightarrow> ulong \<Rightarrow> (int \<times> WS_CONTEXT) option" where
  "ws_set_context_ulong_val m cntx name val = set_context_val m cntx name (Some (CtxUlong val)) False"

definition ws_set_context_xml_doc_val :: "WS_CONTEXT \<Rightarrow> xdoc \<Rightarrow> int \<times> WS_CONTEXT" where
  "ws_set_context_xml_doc_val cntx val = (0, cntx\<lparr>indoc := val\<rparr>)"

definition get_context_val :: "WS_CONTEXT option \<Rightarrow> string option \<Rightarrow> ctx_val option option" where
  "get_context_val cntx name =
     (case (cntx, name) of
        (Some c, Some nm) \<Rightarrow>
          (case entries c of
             None \<Rightarrow> Some None
           | Some h \<Rightarrow> do { hn \<leftarrow> hash_lookup h nm; Some (Option.bind hn hn_data) })
      | _ \<Rightarrow> Some None)"

definition ws_get_context_val :: "WS_CONTEXT option \<Rightarrow> string option \<Rightarrow> ctx_val option option" where
  "ws_get_context_val cntx name = get_context_val cntx name"

text \<open>\<open>*((unsigned long *) ptr)\<close>; a pointer to something else is not read as a number here.\<close>

definition ws_get_context_ulong_val :: "WS_CONTEXT option \<Rightarrow> string option \<Rightarrow> ulong option" where
  "ws_get_context_ulong_val cntx name = do {
     ptr \<leftarrow> get_context_val cntx name;
     case ptr of
       None \<Rightarrow> Some 0
     | Some (CtxUlong v) \<Rightarrow> Some v
     | Some (CtxPtr a) \<Rightarrow> None
   }"

definition hash_free :: "'v hash_t option \<Rightarrow> 'v freed list option" where
  "hash_free hash = do {
     h \<leftarrow> hash;
     (fs, h) \<leftarrow> hash_free_nodes h;
     hash_destroy h;
     Some fs
   }"

definition context_table :: "bool \<Rightarrow> 'v hash_t option option" where
  "context_table mem = do {
     h \<leftarrow> hash_create mem HASHCOUNT_T_MAX None None;
     case h of
       None \<Rightarrow> Some None
     | Some h \<Rightarrow> map_option Some (hash_set_allocator h (Some free_hentry_func))
   }"

text \<open>\<open>ws_initialize_context\<close> on the zeroed memory of \<open>ws_create_context\<close>; the two arguments say whether
  the tables can be allocated.\<close>

definition ws_initialize_context :: "bool \<Rightarrow> bool \<Rightarrow> WS_CONTEXT option" where
  "ws_initialize_context mem1 mem2 = do {
     e \<leftarrow> context_table mem1;
     i \<leftarrow> context_table mem2;
     Some \<lparr>enumIdleTimeout = 0, indoc = None, enuminfos = i, entries = e, subscriptionMemList = [], owner = True\<rparr>
   }"

definition ws_create_context :: "bool \<Rightarrow> bool \<Rightarrow> bool \<Rightarrow> WS_CONTEXT option option" where
  "ws_create_context mem mem1 mem2 = (if mem then map_option Some (ws_initialize_context mem1 mem2) else Some None)"

definition ws_create_ep_context :: "bool \<Rightarrow> bool \<Rightarrow> bool \<Rightarrow> xdoc \<Rightarrow> WS_CONTEXT option option" where
  "ws_create_ep_context mem mem1 mem2 doc =
     map_option (map_option (\<lambda>cntx. snd (ws_set_context_xml_doc_val cntx doc))) (ws_create_context mem mem1 mem2)"

definition ws_set_context_enumIdleTimeout :: "WS_CONTEXT \<Rightarrow> ulong \<Rightarrow> WS_CONTEXT" where
  "ws_set_context_enumIdleTimeout cntx timeout = cntx\<lparr>enumIdleTimeout := timeout\<rparr>"

text \<open>The result: the value returned and what the two tables release.\<close>

definition ws_destroy_context :: "WS_CONTEXT option \<Rightarrow> (int \<times> ctx_val option freed list \<times> addr freed list) option" where
  "ws_destroy_context cntx =
     (case cntx of
        None \<Rightarrow> Some (1, [], [])
      | Some c \<Rightarrow>
          if owner c then do {
            es \<leftarrow> hash_free (entries c);
            is \<leftarrow> hash_free (enuminfos c);
            Some (0, es, is)
          }
          else Some (1, [], []))"

section \<open>Values are read back\<close>

definition ctx_map :: "WS_CONTEXT \<Rightarrow> string \<Rightarrow> ctx_val option" where
  "ctx_map cntx name = (case entries cntx of None \<Rightarrow> None | Some h \<Rightarrow> Option.bind (hash_map h name) (\<lambda>v. v))"

definition ctx_ok :: "WS_CONTEXT \<Rightarrow> bool" where
  "ctx_ok cntx \<longleftrightarrow> (\<exists>h. entries cntx = Some h \<and> hash_ok h)"

lemma get_context_val_map: "ctx_ok cntx \<Longrightarrow> get_context_val (Some cntx) (Some name) = Some (ctx_map cntx name)"
proof -
  assume "ctx_ok cntx"
  then obtain h where h: "entries cntx = Some h" "hash_ok h"
    by (auto simp: ctx_ok_def)
  then obtain hn where "hash_lookup h name = Some hn" "map_option hn_data hn = hash_map h name"
    using hash_lookup_map [of h name] by auto
  then show ?thesis
    using h(1) by (cases hn) (auto simp: get_context_val_def ctx_map_def dest: sym)
qed

lemma create_context_entry_ok:
  assumes "hash_ok h" "hash_avail (a, mem) h" "hash_map h name = None"
  shows "\<exists>h'. create_context_entry True (Some a) mem h name val = Some (Some a, h') \<and> hash_ok h' \<and>
    hash_map h' = (hash_map h)(name \<mapsto> val)"
  using hash_put_ok [OF assms, of val]
  by (cases "hash_insert mem h (hnode_init a val) name")
    (auto simp: create_context_entry_def hash_put_def hash_alloc_insert_def)

lemma ws_remove_context_val_ok:
  assumes "entries cntx = Some h" "hash_ok h"
  shows "\<exists>r h'. ws_remove_context_val mem cntx (Some name) = Some (r, cntx\<lparr>entries := Some h'\<rparr>) \<and> hash_ok h' \<and>
    hash_map h' = (hash_map h)(name := None) \<and> (hash_avail (a, mem) h \<longrightarrow> hash_avail (a, mem) h')"
proof -
  obtain h' where h': "hash_remove (a, mem) h name = Some h'" "hash_ok h'" "hash_map h' = (hash_map h)(name := None)"
    "hash_avail (a, mem) h \<longrightarrow> hash_avail (a, mem) h'"
    using hash_remove_ok [OF assms(2), of "(a, mem)" name] by blast
  obtain hn where hn: "hash_lookup h name = Some hn"
    using h'(1) by (cases "hash_lookup h name") (auto simp: hash_remove_def)
  show ?thesis
  proof (cases hn)
    case None
    then have "h' = h"
      using h'(1) hn by (simp add: hash_remove_def hash_delete_free_def)
    then show ?thesis
      using None hn assms(1) h' by (intro exI [of _ 1] exI [of _ h]) (simp add: ws_remove_context_val_def)
  next
    case (Some n)
    then obtain fs where "hash_delete_free mem h hn = Some (fs, h')"
      using h'(1) hn by (auto simp: hash_remove_def)
    then show ?thesis
      using Some hn assms(1) h' by (intro exI [of _ 0] exI [of _ h']) (simp add: ws_remove_context_val_def)
  qed
qed

lemma set_context_val_ok:
  assumes "entries cntx = Some h" "hash_ok h" "hash_avail (a, cm_table m) h"
    and "cm_copy m" "cm_key m" "cm_node m = Some a"
  shows "\<exists>cntx'. set_context_val m cntx (Some name) (Some v) no_dup = Some (0, cntx') \<and> ctx_ok cntx' \<and>
    ctx_map cntx' = (ctx_map cntx)(name \<mapsto> v)"
proof -
  obtain r h1 where h1: "ws_remove_context_val (cm_table m) cntx (Some name) = Some (r, cntx\<lparr>entries := Some h1\<rparr>)"
    "hash_ok h1" "hash_map h1 = (hash_map h)(name := None)" "hash_avail (a, cm_table m) h1"
    using ws_remove_context_val_ok [OF assms(1,2), of "cm_table m" name a] assms(3) by blast
  then obtain h2 where h2: "create_context_entry True (Some a) (cm_table m) h1 name (Some v) = Some (Some a, h2)" "hash_ok h2"
    "hash_map h2 = (hash_map h1)(name \<mapsto> Some v)"
    using create_context_entry_ok [OF h1(2,4), of name "Some v"] by auto
  show ?thesis
    using assms h1 h2 by (auto simp: set_context_val_def ctx_ok_def ctx_map_def)
qed

lemma context_table_ok:
  "\<exists>h :: 'v hash_t. context_table True = Some (Some h) \<and> hash_ok h \<and> hash_map h = Map.empty \<and> h_nodecount h = 0 \<and>
    h_maxcount h = HASHCOUNT_T_MAX \<and> hash_nodes h = [] \<and> h_freenode h = free_hentry_func"
proof -
  obtain h :: "'v hash_t" where h: "hash_create True HASHCOUNT_T_MAX None None = Some (Some h)" "hash_ok h"
    "hash_map h = Map.empty" "h_nodecount h = 0" "h_maxcount h = HASHCOUNT_T_MAX" "hash_nodes h = []"
    using hash_create_empty [of HASHCOUNT_T_MAX, where 'v = 'v] by blast
  let ?h = "h\<lparr>h_freenode := free_hentry_func\<rparr>"
  have nodes: "hash_nodes ?h = []"
    using h(6) by (simp add: hash_nodes_def)
  have "hash_ok ?h"
    using h(2,6) nodes by (auto simp: hash_ok_def hash_at_def hash_content_def hash_nodes_def)
  moreover have "hash_map ?h = Map.empty"
    by (intro ext) (simp add: hash_map_def nodes)
  ultimately show ?thesis
    using h nodes by (intro exI [of _ ?h]) (simp add: context_table_def hash_set_allocator_def)
qed

end
