(* ===== verification/Ws_Dispatch.thy ===== *)
theory Ws_Dispatch
  imports Ws_Context
begin

text \<open>
  Selecting the handler of a request: the registration of the endpoints of the plugins in
  \<open>src/src/lib/wsman-soap.c\<close> and the dispatcher of \<open>src/src/lib/wsman-dispatcher.c\<close>.  Plugins are
  outside the program; an interface is the record they fill in, an endpoint is known by the address of
  its element in the array of the interface and its function by an address.  The arrays of endpoints
  end with an element without function; running past the end of an array is \<open>None\<close>.

  The dispatch entries live in a store with their usage counts.  The table that maps endpoints to
  dispatch entries is written behind a header in a block of \<open>calculate_map_count\<close> bytes; a write
  outside the block is \<open>None\<close>.

  The lemmas show that the registration stays inside the block and enters every endpoint, which entry
  the dispatcher selects, and that a request gives back the usage count it took.
\<close>

section \<open>Interfaces and endpoints\<close>

definition WS_DISP_TYPE_MASK :: ulong where "WS_DISP_TYPE_MASK = 0xffff"
definition WS_DISP_TYPE_RAW_DOC :: ulong where "WS_DISP_TYPE_RAW_DOC = 0"
definition WS_DISP_TYPE_GET :: ulong where "WS_DISP_TYPE_GET = 1"
definition WS_DISP_TYPE_PUT :: ulong where "WS_DISP_TYPE_PUT = 2"
definition WS_DISP_TYPE_DELETE :: ulong where "WS_DISP_TYPE_DELETE = 4"
definition WS_DISP_TYPE_ENUMERATE :: ulong where "WS_DISP_TYPE_ENUMERATE = 5"
definition WS_DISP_TYPE_PULL :: ulong where "WS_DISP_TYPE_PULL = 6"
definition WS_DISP_TYPE_RELEASE :: ulong where "WS_DISP_TYPE_RELEASE = 7"
definition WS_DISP_TYPE_DIRECT_PULL :: ulong where "WS_DISP_TYPE_DIRECT_PULL = 12"
definition WS_DISP_TYPE_DIRECT_GET :: ulong where "WS_DISP_TYPE_DIRECT_GET = 13"
definition WS_DISP_TYPE_CUSTOM_METHOD :: ulong where "WS_DISP_TYPE_CUSTOM_METHOD = 15"
definition WS_DISP_TYPE_DIRECT_PUT :: ulong where "WS_DISP_TYPE_DIRECT_PUT = 16"
definition WS_DISP_TYPE_IDENTIFY :: ulong where "WS_DISP_TYPE_IDENTIFY = 17"
definition WS_DISP_TYPE_DIRECT_CREATE :: ulong where "WS_DISP_TYPE_DIRECT_CREATE = 18"
definition WS_DISP_TYPE_DIRECT_DELETE :: ulong where "WS_DISP_TYPE_DIRECT_DELETE = 19"
definition WS_DISP_TYPE_SUBSCRIBE :: ulong where "WS_DISP_TYPE_SUBSCRIBE = 22"
definition WS_DISP_TYPE_UNSUBSCRIBE :: ulong where "WS_DISP_TYPE_UNSUBSCRIBE = 23"
definition WS_DISP_TYPE_RENEW :: ulong where "WS_DISP_TYPE_RENEW = 24"
definition WS_DISP_TYPE_PRIVATE :: ulong where "WS_DISP_TYPE_PRIVATE = 0xfffe"

lemmas disp_type_defs =
  WS_DISP_TYPE_MASK_def WS_DISP_TYPE_RAW_DOC_def WS_DISP_TYPE_GET_def WS_DISP_TYPE_PUT_def WS_DISP_TYPE_DELETE_def
  WS_DISP_TYPE_ENUMERATE_def WS_DISP_TYPE_PULL_def WS_DISP_TYPE_RELEASE_def WS_DISP_TYPE_DIRECT_PULL_def
  WS_DISP_TYPE_DIRECT_GET_def WS_DISP_TYPE_CUSTOM_METHOD_def WS_DISP_TYPE_DIRECT_PUT_def WS_DISP_TYPE_IDENTIFY_def
  WS_DISP_TYPE_DIRECT_CREATE_def WS_DISP_TYPE_DIRECT_DELETE_def WS_DISP_TYPE_SUBSCRIBE_def WS_DISP_TYPE_UNSUBSCRIBE_def
  WS_DISP_TYPE_RENEW_def WS_DISP_TYPE_PRIVATE_def

definition SOAP_SKIP_DEF_FILTERS :: ulong where "SOAP_SKIP_DEF_FILTERS = 0x01"
definition SOAP_CUSTOM_DISPATCHER :: ulong where "SOAP_CUSTOM_DISPATCHER = 0x40"

text \<open>\<open>ep_at\<close> is the address of the structure itself.\<close>

record WsDispatchEndPointInfo =
  ep_at :: addr
  ep_flags :: ulong
  respName :: "string option"
  inAction :: "string option"
  serviceEndPoint :: "addr option"
  ep_data :: "string option"

record WsSupportedNamespaces =
  sns_ns :: "string option"
  class_prefix :: "string option"

record WsDispatchInterfaceInfo =
  wsmanResourceUri :: "string option"
  namespaces :: "WsSupportedNamespaces list option"
  endPoints :: "WsDispatchEndPointInfo list"

section \<open>Dispatch entries\<close>

text \<open>A \<open>SoapServiceCallback\<close>: a stub of the program, or the function of an endpoint.\<close>

datatype SoapServiceCallback =
    wsman_identify_cb | wsenum_enumerate_cb | wsenum_release_cb | ws_transfer_delete_cb | wsenum_pull_cb
  | wsenum_pull_direct_cb | ws_transfer_get_cb | ws_transfer_put_cb | wse_subscribe_cb | wse_unsubscribe_cb
  | wse_renew_cb | endpoint_cb addr

record dispatch_t =
  usageCount :: int
  inboundAction :: "string option"
  outboundAction :: "string option"
  d_flags :: ulong
  serviceCallback :: "SoapServiceCallback option"
  serviceData :: addr

record WsManDispatcherInfo =
  interfaceCount :: nat
  mapCount :: nat
  interfaces :: "WsDispatchInterfaceInfo list"
  dmap :: "(addr \<times> addr) list"
  di_size :: int

record soap_t =
  disps :: "addr \<rightharpoonup> dispatch_t"
  dispatcherData :: "WsManDispatcherInfo option"
  data_freed :: bool

definition create_dispatch_entry ::
  "addr option \<Rightarrow> soap_t \<Rightarrow> string option \<Rightarrow> string option \<Rightarrow> SoapServiceCallback option \<Rightarrow> addr \<Rightarrow> ulong \<Rightarrow> addr option \<times> soap_t" where
  "create_dispatch_entry entry soap inAct outAct cb data flags =
     (case entry of
        None \<Rightarrow> (None, soap)
      | Some a \<Rightarrow>
          (Some a, soap\<lparr>disps := (disps soap)(a \<mapsto>
             \<lparr>usageCount = 1, inboundAction = inAct, outboundAction = outAct, d_flags = flags,
              serviceCallback = cb, serviceData = data\<rparr>)\<rparr>))"

definition wsman_dispatch_create ::
  "addr option \<Rightarrow> soap_t \<Rightarrow> string option \<Rightarrow> string option \<Rightarrow> string option \<Rightarrow> SoapServiceCallback option \<Rightarrow> addr \<Rightarrow>
   ulong \<Rightarrow> addr option \<times> soap_t" where
  "wsman_dispatch_create entry soap inAct outAct role cb data flags =
     (if role = None then create_dispatch_entry entry soap inAct outAct cb data flags else (None, soap))"

text \<open>\<open>destroy_dispatch_entry\<close>: \<open>soap->dispatchList\<close> stays \<open>NULL\<close>, since \<open>wsman_dispatch_start\<close> keeps the
  list it creates to itself.  An entry that is not in the store any more is a use after free.\<close>

definition destroy_dispatch_entry :: "soap_t \<Rightarrow> addr option \<Rightarrow> soap_t option" where
  "destroy_dispatch_entry soap entry =
     (case entry of
        None \<Rightarrow> Some soap
      | Some a \<Rightarrow> do {
          d \<leftarrow> disps soap a;
          let n = usageCount d - 1;
          Some (soap\<lparr>disps := (if n = 0 then (disps soap)(a := None) else (disps soap)(a \<mapsto> d\<lparr>usageCount := n\<rparr>))\<rparr>)
        })"

section \<open>Registration\<close>

definition callback_of :: "WsDispatchEndPointInfo \<Rightarrow> SoapServiceCallback option" where
  "callback_of ep =
     (let t = ep_flags ep AND WS_DISP_TYPE_MASK; own = map_option endpoint_cb (serviceEndPoint ep) in
      if t = WS_DISP_TYPE_IDENTIFY then Some wsman_identify_cb
      else if t = WS_DISP_TYPE_ENUMERATE then Some wsenum_enumerate_cb
      else if t = WS_DISP_TYPE_RELEASE then Some wsenum_release_cb
      else if t = WS_DISP_TYPE_DELETE then Some ws_transfer_delete_cb
      else if t = WS_DISP_TYPE_PULL then Some wsenum_pull_cb
      else if t = WS_DISP_TYPE_DIRECT_PULL then Some wsenum_pull_direct_cb
      else if t = WS_DISP_TYPE_GET then Some ws_transfer_get_cb
      else if t = WS_DISP_TYPE_DIRECT_GET then own
      else if t = WS_DISP_TYPE_DIRECT_DELETE then own
      else if t = WS_DISP_TYPE_DIRECT_PUT then own
      else if t = WS_DISP_TYPE_DIRECT_CREATE then own
      else if t = WS_DISP_TYPE_PUT then Some ws_transfer_put_cb
      else if t = WS_DISP_TYPE_SUBSCRIBE then Some wse_subscribe_cb
      else if t = WS_DISP_TYPE_UNSUBSCRIBE then Some wse_unsubscribe_cb
      else if t = WS_DISP_TYPE_RENEW then Some wse_renew_cb
      else if t = WS_DISP_TYPE_RAW_DOC then own
      else if t = WS_DISP_TYPE_CUSTOM_METHOD then own
      else if t = WS_DISP_TYPE_PRIVATE then own
      else None)"

text \<open>The layout of \<open>WsManDispatcherInfo\<close>: a header of 16 bytes (two \<open>int\<close>s and a pointer), then the
  elements of \<open>map\<close> with 16 bytes each; \<open>sizeof\<close> counts one element.\<close>

definition sizeof_DispatchToEpMap :: nat where
  "sizeof_DispatchToEpMap = 16"

definition sizeof_WsManDispatcherInfo :: nat where
  "sizeof_WsManDispatcherInfo = 32"

definition map_offset :: nat where
  "map_offset = 16"

text \<open>Storing into \<open>dispInfo->map[dispInfo->mapCount]\<close>.\<close>

definition map_store :: "WsManDispatcherInfo \<Rightarrow> addr \<Rightarrow> addr \<Rightarrow> WsManDispatcherInfo option" where
  "map_store di ep disp = do {
     c_assert (int (map_offset + (mapCount di + 1) * sizeof_DispatchToEpMap) \<le> di_size di);
     Some (di\<lparr>dmap := take (mapCount di) (dmap di) @ [(ep, disp)], mapCount := mapCount di + 1\<rparr>)
   }"

text \<open>\<open>al\<close> is what the allocator returns for the entry with a number.\<close>

definition wsman_register_endpoint ::
  "(nat \<Rightarrow> addr option) \<Rightarrow> WsDispatchEndPointInfo \<Rightarrow> soap_t \<Rightarrow> WsManDispatcherInfo \<Rightarrow> (bool \<times> soap_t \<times> WsManDispatcherInfo) option" where
  "wsman_register_endpoint al ep soap di =
     (case callback_of ep of
        None \<Rightarrow> Some (True, soap, di)
      | Some cb \<Rightarrow>
          (case wsman_dispatch_create (al (mapCount di)) soap (inAction ep) None None (Some cb) (ep_at ep) SOAP_CUSTOM_DISPATCHER of
             (None, soap) \<Rightarrow> Some (True, soap, di)
           | (Some disp, soap) \<Rightarrow> do {
               di \<leftarrow> map_store di (ep_at ep) disp;
               Some (False, soap, di)
             }))"

fun wsman_register_interface ::
  "(nat \<Rightarrow> addr option) \<Rightarrow> WsDispatchEndPointInfo list \<Rightarrow> soap_t \<Rightarrow> WsManDispatcherInfo \<Rightarrow> (bool \<times> soap_t \<times> WsManDispatcherInfo) option" where
  "wsman_register_interface al [] soap di = None"
| "wsman_register_interface al (ep # eps) soap di =
     (if serviceEndPoint ep = None then Some (False, soap, di)
      else do {
        (failed, soap, di) \<leftarrow> wsman_register_endpoint al ep soap di;
        if failed then Some (True, soap, di) else wsman_register_interface al eps soap di
      })"

fun register_interfaces ::
  "(nat \<Rightarrow> addr option) \<Rightarrow> WsDispatchInterfaceInfo list \<Rightarrow> soap_t \<Rightarrow> WsManDispatcherInfo \<Rightarrow> (bool \<times> soap_t \<times> WsManDispatcherInfo) option" where
  "register_interfaces al [] soap di = Some (False, soap, di)"
| "register_interfaces al (ifc # ifcs) soap di = do {
     (failed, soap, di) \<leftarrow> wsman_register_interface al (endPoints ifc) soap di;
     if failed then Some (True, soap, di) else register_interfaces al ifcs soap di
   }"

fun count_endpoints :: "WsDispatchEndPointInfo list \<Rightarrow> int option" where
  "count_endpoints [] = None"
| "count_endpoints (ep # eps) = (if serviceEndPoint ep = None then Some 0 else map_option (\<lambda>n. n + 1) (count_endpoints eps))"

fun count_all :: "WsDispatchInterfaceInfo list \<Rightarrow> int option" where
  "count_all [] = Some 0"
| "count_all (ifc # ifcs) = do { n \<leftarrow> count_endpoints (endPoints ifc); m \<leftarrow> count_all ifcs; Some (n + m) }"

text \<open>The size is computed as \<open>size_t\<close> and returned as \<open>int\<close>.\<close>

definition calculate_map_count :: "WsDispatchInterfaceInfo list \<Rightarrow> int option" where
  "calculate_map_count ifcs = do {
     count \<leftarrow> count_all ifcs;
     Some (sint (word_of_int (int (length ifcs) * int sizeof_WsManDispatcherInfo + count * int sizeof_DispatchToEpMap) :: 32 word))
   }"

text \<open>\<open>ws_create_runtime\<close> after the \<open>soap\<close> object exists.  \<open>mem\<close>: whether the block can be allocated.  The
  inner \<open>None\<close> is the \<open>NULL\<close> that the function returns after destroying the object.\<close>

definition ws_create_runtime ::
  "bool \<Rightarrow> (nat \<Rightarrow> addr option) \<Rightarrow> WsDispatchInterfaceInfo list option \<Rightarrow> soap_t \<Rightarrow> soap_t option option" where
  "ws_create_runtime mem al ifcs soap =
     (case ifcs of
        None \<Rightarrow> Some (Some soap)
      | Some l \<Rightarrow> do {
          size \<leftarrow> calculate_map_count l;
          if \<not> mem then Some None
          else do {
            c_assert (int map_offset \<le> size);
            let di = \<lparr>interfaceCount = length l, mapCount = 0, interfaces = l, dmap = [], di_size = size\<rparr>;
            (failed, soap, di) \<leftarrow> register_interfaces al l soap di;
            if failed then Some None else Some (Some (soap\<lparr>dispatcherData := Some di, data_freed := False\<rparr>))
          }
        })"

section \<open>The dispatcher\<close>

fun match_ns_loop :: "WsSupportedNamespaces list \<Rightarrow> string \<Rightarrow> string option" where
  "match_ns_loop [] uri = None"
| "match_ns_loop (sns # l) uri =
     (case sns_ns sns of
        Some ns \<Rightarrow> if strstr uri ns \<noteq> None then Some ns else match_ns_loop l uri
      | None \<Rightarrow> match_ns_loop l uri)"

definition wsman_dispatcher_match_ns :: "WsDispatchInterfaceInfo \<Rightarrow> string option \<Rightarrow> string option" where
  "wsman_dispatcher_match_ns r uri =
     (case (namespaces r, uri) of
        (Some l, Some u) \<Rightarrow> match_ns_loop l u
      | _ \<Rightarrow> None)"

text \<open>The loop over the interfaces: the first that matches, and the namespace by which it matched.\<close>

fun find_interface :: "string option \<Rightarrow> WsDispatchInterfaceInfo list \<Rightarrow> (WsDispatchInterfaceInfo \<times> string option) option" where
  "find_interface uri [] = None"
| "find_interface uri (ifc # ifcs) =
     (let ns = (if wsmanResourceUri ifc = None then wsman_dispatcher_match_ns ifc uri else None) in
      if ns \<noteq> None then Some (ifc, ns)
      else if uri \<noteq> None \<and> wsmanResourceUri ifc \<noteq> None \<and> strcmp (the uri) (the (wsmanResourceUri ifc)) = 0
      then Some (ifc, None)
      else find_interface uri ifcs)"

text \<open>A custom action: what follows the namespace and a slash.\<close>

definition strip_ns :: "string \<Rightarrow> string option \<Rightarrow> string" where
  "strip_ns action ns =
     (case ns of
        None \<Rightarrow> action
      | Some n \<Rightarrow>
          if take (length n) action = n \<and> drop (length n) action \<noteq> [] \<and> hd (drop (length n) action) = CHR ''/''
          then drop (length n + 1) action else action)"

fun find_endpoint :: "string \<Rightarrow> WsDispatchEndPointInfo list \<Rightarrow> WsDispatchEndPointInfo option option" where
  "find_endpoint ptr [] = None"
| "find_endpoint ptr (ep # eps) =
     (if serviceEndPoint ep = None then Some None
      else if inAction ep = Some ptr then Some (Some ep)
      else find_endpoint ptr eps)"

definition wsman_get_release_endpoint :: "xmllib \<Rightarrow> WsManDispatcherInfo \<Rightarrow> xdoc \<Rightarrow> xdoc \<Rightarrow> addr option option" where
  "wsman_get_release_endpoint L di cdoc doc =
     (case find_interface (wsman_get_resource_uri L cdoc doc) (interfaces di) of
        None \<Rightarrow> Some None
      | Some (r, ns) \<Rightarrow> do {
          ep \<leftarrow> find_endpoint (strip_ns ENUM_ACTION_RELEASE ns) (endPoints r);
          Some (case ep of None \<Rightarrow> None | Some e \<Rightarrow> serviceEndPoint e)
        })"

text \<open>The resource of a request about a subscription is that of the subscription: one of those in
  memory, or else the one the repository has saved.  \<open>uuid+5\<close> skips the prefix of the id and reads
  outside the text when it is shorter.  \<open>saved\<close> is the document that the repository returns for an id.\<close>

definition subscription_uri ::
  "xmllib \<Rightarrow> WsSubscribeInfo list \<Rightarrow> (string \<Rightarrow> xdoc) \<Rightarrow> xdoc \<Rightarrow> string option \<Rightarrow> string option option" where
  "subscription_uri L subs saved doc uri =
     (if \<not> wsman_is_event_related_request L doc then Some uri
      else case ws_xml_get_node_text L (ws_xml_get_child (ws_xml_get_soap_header doc) 0 (Some XML_NS_EVENTING) (Some WSEVENT_IDENTIFIER)) of
        None \<Rightarrow> Some uri
      | Some uuid \<Rightarrow> do {
          c_assert (subs = [] \<or> 5 \<le> length uuid);
          case find (\<lambda>s. strcmp (drop 5 uuid) (subsId s) = 0) subs of
            Some s \<Rightarrow> Some (si_uri s)
          | None \<Rightarrow> do {
              c_assert (5 \<le> length uuid);
              case ws_xml_get_child (ws_xml_get_soap_header (saved (drop 5 uuid))) 0 (Some XML_NS_WS_MAN) (Some WSM_RESOURCE_URI) of
                None \<Rightarrow> Some uri
              | Some n \<Rightarrow> Some (ws_xml_get_node_text L (Some n))
            }
        })"

text \<open>The loop over the endpoints: the one with the action, and the last one before it without an action.\<close>

fun select_endpoint ::
  "string \<Rightarrow> WsDispatchEndPointInfo list \<Rightarrow> WsDispatchEndPointInfo option \<Rightarrow>
   (WsDispatchEndPointInfo option \<times> WsDispatchEndPointInfo option) option" where
  "select_endpoint ptr [] custom = None"
| "select_endpoint ptr (ep # eps) custom =
     (if serviceEndPoint ep = None then Some (None, custom)
      else if inAction ep = Some ptr then Some (Some ep, custom)
      else select_endpoint ptr eps (if inAction ep = None then Some ep else custom))"

definition find_disp :: "WsManDispatcherInfo \<Rightarrow> WsDispatchEndPointInfo \<Rightarrow> addr option" where
  "find_disp di ep = map_option snd (find (\<lambda>m. fst m = ep_at ep) (take (mapCount di) (dmap di)))"

fun find_identify :: "WsDispatchInterfaceInfo list \<Rightarrow> WsDispatchInterfaceInfo option" where
  "find_identify [] = None"
| "find_identify (ifc # ifcs) =
     (if wsman_dispatcher_match_ns ifc (Some XML_NS_WSMAN_ID) \<noteq> None then Some ifc else find_identify ifcs)"

definition wsman_dispatcher ::
  "xmllib \<Rightarrow> bool \<Rightarrow> (string \<Rightarrow> xdoc) \<Rightarrow> WS_CONTEXT \<Rightarrow> WsManDispatcherInfo \<Rightarrow> xdoc \<Rightarrow> (addr option \<times> WS_CONTEXT) option" where
  "wsman_dispatcher L mem saved cntx di doc =
     (if doc = None then Some (None, cntx)
      else do {
        let action = wsman_get_action L (indoc cntx) doc;
        uri \<leftarrow> subscription_uri L (subscriptionMemList cntx) saved doc (wsman_get_resource_uri L (indoc cntx) doc);
        let identify = wsman_is_identify_request doc;
        if (uri = None \<or> action = None) \<and> \<not> identify then Some (None, cntx)
        else do {
          (ep, ep_custom) \<leftarrow>
            (if identify then
               (case find_identify (interfaces di) of
                  None \<Rightarrow> Some (None, None)
                | Some r \<Rightarrow> if endPoints r = [] then None else Some (Some (hd (endPoints r)), None))
             else
               (case find_interface uri (interfaces di) of
                  None \<Rightarrow> Some (None, None)
                | Some (r, ns) \<Rightarrow> select_endpoint (strip_ns (the action) ns) (endPoints r) None));
          (rv, cntx) \<leftarrow> ws_remove_context_val mem cntx (Some WSM_RESOURCE_URI);
          Some (case ep of
                  Some e \<Rightarrow> find_disp di e
                | None \<Rightarrow> (case ep_custom of Some e \<Rightarrow> find_disp di e | None \<Rightarrow> None), cntx)
        }
      })"

text \<open>Called without a document, the dispatcher frees the block \<open>data\<close>, which \<open>soap->dispatcherData\<close> still
  points to (\<open>data_freed\<close>): any later request uses freed memory.\<close>

definition get_dispatch_entry ::
  "xmllib \<Rightarrow> bool \<Rightarrow> (string \<Rightarrow> xdoc) \<Rightarrow> WS_CONTEXT \<Rightarrow> soap_t \<Rightarrow> xdoc \<Rightarrow> (addr option \<times> WS_CONTEXT \<times> soap_t) option" where
  "get_dispatch_entry L mem saved cntx soap doc =
     (case dispatcherData soap of
        None \<Rightarrow> Some (None, cntx, soap)
      | Some di \<Rightarrow> do {
          c_assert (\<not> data_freed soap);
          let soap = (if doc = None then soap\<lparr>data_freed := True\<rparr> else soap);
          (disp, cntx) \<leftarrow> wsman_dispatcher L mem saved cntx di doc;
          case disp of
            None \<Rightarrow> Some (None, cntx, soap)
          | Some a \<Rightarrow> do {
              d \<leftarrow> disps soap a;
              Some (Some a, cntx, soap\<lparr>disps := (disps soap)(a \<mapsto> d\<lparr>usageCount := usageCount d + 1\<rparr>)\<rparr>)
            }
        })"

section \<open>Registration enters every endpoint\<close>

definition live :: "WsDispatchEndPointInfo list \<Rightarrow> WsDispatchEndPointInfo list" where
  "live eps = takeWhile (\<lambda>e. serviceEndPoint e \<noteq> None) eps"

definition all_endpoints :: "WsDispatchInterfaceInfo list \<Rightarrow> WsDispatchEndPointInfo list" where
  "all_endpoints ifcs = concat (map (live \<circ> endPoints) ifcs)"

text \<open>What a plugin must hand over: arrays that end, and endpoints of a known type.\<close>

definition ifc_ok :: "WsDispatchInterfaceInfo \<Rightarrow> bool" where
  "ifc_ok ifc \<longleftrightarrow> list_ex (\<lambda>e. serviceEndPoint e = None) (endPoints ifc) \<and>
     list_all (\<lambda>e. callback_of e \<noteq> None) (live (endPoints ifc))"

definition entry_of :: "WsDispatchEndPointInfo \<Rightarrow> dispatch_t" where
  "entry_of ep = \<lparr>usageCount = 1, inboundAction = inAction ep, outboundAction = None, d_flags = SOAP_CUSTOM_DISPATCHER,
     serviceCallback = callback_of ep, serviceData = ep_at ep\<rparr>"

definition disp_alloc :: "(nat \<Rightarrow> addr option) \<Rightarrow> bool" where
  "disp_alloc al \<longleftrightarrow> inj al \<and> (\<forall>i. al i \<noteq> None)"

text \<open>The endpoints \<open>eps\<close> have been entered.\<close>

definition registered :: "(nat \<Rightarrow> addr option) \<Rightarrow> WsDispatchEndPointInfo list \<Rightarrow> soap_t \<Rightarrow> WsManDispatcherInfo \<Rightarrow> bool" where
  "registered al eps soap di \<longleftrightarrow> mapCount di = length eps \<and>
     dmap di = map (\<lambda>i. (ep_at (eps ! i), the (al i))) [0..<length eps] \<and>
     (\<forall>i < length eps. disps soap (the (al i)) = Some (entry_of (eps ! i)))"

lemma register_endpoint_step:
  assumes al: "disp_alloc al" and reg: "registered al eps soap di" and cb: "callback_of ep \<noteq> None"
    and room: "int (map_offset + (length eps + 1) * sizeof_DispatchToEpMap) \<le> di_size di"
  shows "\<exists>soap' di'. wsman_register_endpoint al ep soap di = Some (False, soap', di') \<and>
    registered al (eps @ [ep]) soap' di' \<and> di_size di' = di_size di \<and> interfaces di' = interfaces di"
proof -
  obtain cbk where cbk: "callback_of ep = Some cbk"
    using cb by auto
  obtain a where a: "al (length eps) = Some a"
    using al by (auto simp: disp_alloc_def)
  have n: "mapCount di = length eps" "length (dmap di) = length eps"
    using reg by (simp_all add: registered_def)
  let ?soap = "soap\<lparr>disps := (disps soap)(a \<mapsto> entry_of ep)\<rparr>"
  let ?di = "di\<lparr>dmap := dmap di @ [(ep_at ep, a)], mapCount := Suc (length eps)\<rparr>"
  have "wsman_register_endpoint al ep soap di = Some (False, ?soap, ?di)"
    using cbk a n room
    by (simp add: wsman_register_endpoint_def wsman_dispatch_create_def create_dispatch_entry_def map_store_def entry_of_def)
  moreover have other: "the (al i) \<noteq> a" if "i < length eps" for i
  proof
    assume "the (al i) = a"
    then have "al i = al (length eps)"
      using al a by (metis disp_alloc_def option.collapse)
    then show False
      using al that by (auto simp: disp_alloc_def inj_def)
  qed
  have "registered al (eps @ [ep]) ?soap ?di"
    using reg a other by (auto simp: registered_def nth_append less_Suc_eq)
  ultimately show ?thesis
    by auto
qed

lemma register_interface_ok:
  assumes "disp_alloc al" "registered al eps soap di"
    and "list_ex (\<lambda>e. serviceEndPoint e = None) new" "list_all (\<lambda>e. callback_of e \<noteq> None) (live new)"
    and "int (map_offset + (length eps + length (live new)) * sizeof_DispatchToEpMap) \<le> di_size di"
  shows "\<exists>soap' di'. wsman_register_interface al new soap di = Some (False, soap', di') \<and>
    registered al (eps @ live new) soap' di' \<and> di_size di' = di_size di \<and> interfaces di' = interfaces di"
  using assms(2-)
proof (induction new arbitrary: eps soap di)
  case (Cons ep new)
  show ?case
  proof (cases "serviceEndPoint ep = None")
    case True
    then show ?thesis
      using Cons.prems by (simp add: live_def)
  next
    case False
    then have l: "live (ep # new) = ep # live new"
      by (simp add: live_def)
    have "int (map_offset + (length eps + 1) * sizeof_DispatchToEpMap) \<le> di_size di"
      using Cons.prems(4) unfolding l by (simp add: sizeof_DispatchToEpMap_def)
    with assms(1) Cons.prems l obtain soap' di' where s: "wsman_register_endpoint al ep soap di = Some (False, soap', di')"
      "registered al (eps @ [ep]) soap' di'" "di_size di' = di_size di" "interfaces di' = interfaces di"
      using register_endpoint_step [of al eps soap di ep] by auto
    moreover have "int (map_offset + (length (eps @ [ep]) + length (live new)) * sizeof_DispatchToEpMap) \<le> di_size di'"
      using Cons.prems(4) s(3) unfolding l by (simp add: sizeof_DispatchToEpMap_def)
    ultimately show ?thesis
      using Cons.IH [of "eps @ [ep]" soap' di'] Cons.prems False l by auto
  qed
qed simp

lemma register_interfaces_ok:
  assumes "disp_alloc al" "registered al eps soap di" "list_all ifc_ok ifcs"
    and "int (map_offset + (length eps + length (all_endpoints ifcs)) * sizeof_DispatchToEpMap) \<le> di_size di"
  shows "\<exists>soap' di'. register_interfaces al ifcs soap di = Some (False, soap', di') \<and>
    registered al (eps @ all_endpoints ifcs) soap' di' \<and> interfaces di' = interfaces di"
  using assms(2-)
proof (induction ifcs arbitrary: eps soap di)
  case (Cons ifc ifcs)
  have len: "length (all_endpoints (ifc # ifcs)) = length (live (endPoints ifc)) + length (all_endpoints ifcs)"
    by (simp add: all_endpoints_def)
  have "int (map_offset + (length eps + length (live (endPoints ifc))) * sizeof_DispatchToEpMap) \<le> di_size di"
    using Cons.prems(3) unfolding len by (simp add: sizeof_DispatchToEpMap_def)
  then obtain soap' di' where s: "wsman_register_interface al (endPoints ifc) soap di = Some (False, soap', di')"
    "registered al (eps @ live (endPoints ifc)) soap' di'" "di_size di' = di_size di" "interfaces di' = interfaces di"
    using register_interface_ok [OF assms(1) Cons.prems(1), of "endPoints ifc"] Cons.prems(2) by (auto simp: ifc_ok_def)
  moreover have "int (map_offset + (length (eps @ live (endPoints ifc)) + length (all_endpoints ifcs)) * sizeof_DispatchToEpMap) \<le> di_size di'"
    using Cons.prems(3) s(3) unfolding len by (simp add: sizeof_DispatchToEpMap_def)
  ultimately show ?case
    using Cons.IH [of "eps @ live (endPoints ifc)" soap' di'] Cons.prems(2) by (auto simp: all_endpoints_def)
qed (simp add: all_endpoints_def)

lemma count_endpoints_live: "list_ex (\<lambda>e. serviceEndPoint e = None) eps \<Longrightarrow> count_endpoints eps = Some (int (length (live eps)))"
  by (induction eps) (auto simp: live_def)

lemma count_all_live: "list_all ifc_ok ifcs \<Longrightarrow> count_all ifcs = Some (int (length (all_endpoints ifcs)))"
  by (induction ifcs) (auto simp: all_endpoints_def ifc_ok_def count_endpoints_live)

lemma create_runtime_ok:
  assumes al: "disp_alloc al" and ne: "ifcs \<noteq> []" and ok: "list_all ifc_ok ifcs"
    and small: "length ifcs * sizeof_WsManDispatcherInfo + length (all_endpoints ifcs) * sizeof_DispatchToEpMap < 2 ^ 31"
  shows "\<exists>soap' di. ws_create_runtime True al (Some ifcs) soap = Some (Some soap') \<and> dispatcherData soap' = Some di \<and> \<not> data_freed soap' \<and>
    interfaces di = ifcs \<and> registered al (all_endpoints ifcs) soap' di"
proof -
  define k where "k = length ifcs * sizeof_WsManDispatcherInfo + length (all_endpoints ifcs) * sizeof_DispatchToEpMap"
  have "k < 2 ^ 31"
    using small by (simp only: k_def)
  then have "int k < 2 ^ 31"
    by simp
  then have "sint (word_of_int (int k) :: 32 word) = int k"
    by (subst signed_of_int) (simp add: signed_take_bit_int_eq_self)
  then have size: "calculate_map_count ifcs = Some (int k)"
    using count_all_live [OF ok] by (simp add: calculate_map_count_def k_def)
  have "sizeof_WsManDispatcherInfo \<le> length ifcs * sizeof_WsManDispatcherInfo"
    using ne by (cases ifcs) simp_all
  then have room: "int (map_offset + (length ([] :: WsDispatchEndPointInfo list) + length (all_endpoints ifcs)) * sizeof_DispatchToEpMap) \<le> int k"
    by (simp add: k_def map_offset_def sizeof_WsManDispatcherInfo_def)
  let ?di = "\<lparr>interfaceCount = length ifcs, mapCount = 0, interfaces = ifcs, dmap = [], di_size = int k\<rparr>"
  have "registered al [] soap ?di"
    by (simp add: registered_def)
  then obtain soap' di' where r: "register_interfaces al ifcs soap ?di = Some (False, soap', di')"
    "registered al (all_endpoints ifcs) soap' di'" "interfaces di' = ifcs"
    using register_interfaces_ok [OF al _ ok, of "[]" soap ?di] room by auto
  moreover have "int map_offset \<le> int k"
    using room by (simp add: sizeof_DispatchToEpMap_def)
  ultimately show ?thesis
    using size by (auto simp: ws_create_runtime_def registered_def)
qed

section \<open>Which endpoint is selected\<close>

definition serves :: "WsDispatchInterfaceInfo \<Rightarrow> string \<Rightarrow> bool" where
  "serves ifc u \<longleftrightarrow> wsmanResourceUri ifc = Some u \<or>
     wsmanResourceUri ifc = None \<and> (\<exists>l sns n. namespaces ifc = Some l \<and> sns \<in> set l \<and> sns_ns sns = Some n \<and> strstr u n \<noteq> None)"

definition chosen :: "string \<Rightarrow> WsDispatchEndPointInfo list \<Rightarrow> WsDispatchEndPointInfo option" where
  "chosen act eps =
     (case find (\<lambda>e. inAction e = Some act) eps of
        Some e \<Rightarrow> Some e
      | None \<Rightarrow> find (\<lambda>e. inAction e = None) (rev eps))"

text \<open>The endpoint that ought to handle a request for the resource \<open>u\<close> with the action \<open>a\<close>.\<close>

definition target :: "WsDispatchInterfaceInfo list \<Rightarrow> string \<Rightarrow> string \<Rightarrow> WsDispatchEndPointInfo option" where
  "target ifcs u a =
     (case find (\<lambda>i. serves i u) ifcs of
        None \<Rightarrow> None
      | Some r \<Rightarrow>
          chosen (strip_ns a (if wsmanResourceUri r = None then wsman_dispatcher_match_ns r (Some u) else None)) (live (endPoints r)))"

lemma match_ns_loop_None: "match_ns_loop l u = None \<longleftrightarrow> (\<forall>sns \<in> set l. \<forall>n. sns_ns sns = Some n \<longrightarrow> strstr u n = None)"
  by (induction l) (auto split: option.splits)

lemma find_interface_serves:
  "find_interface (Some u) ifcs =
     map_option (\<lambda>r. (r, if wsmanResourceUri r = None then wsman_dispatcher_match_ns r (Some u) else None))
       (find (\<lambda>i. serves i u) ifcs)"
proof (induction ifcs)
  case (Cons ifc ifcs)
  have "serves ifc u \<longleftrightarrow> (case wsmanResourceUri ifc of None \<Rightarrow> wsman_dispatcher_match_ns ifc (Some u) \<noteq> None | Some v \<Rightarrow> v = u)"
    by (cases "namespaces ifc")
      (auto simp: serves_def wsman_dispatcher_match_ns_def match_ns_loop_None split: option.splits)
  then show ?case
    using Cons by (auto split: option.splits)
qed simp

lemma select_endpoint_spec:
  assumes "list_ex (\<lambda>e. serviceEndPoint e = None) eps"
  shows "\<exists>c. select_endpoint ptr eps custom = Some (find (\<lambda>e. inAction e = Some ptr) (live eps), c) \<and>
    (find (\<lambda>e. inAction e = Some ptr) (live eps) = None \<longrightarrow>
       c = (case find (\<lambda>e. inAction e = None) (rev (live eps)) of None \<Rightarrow> custom | Some e \<Rightarrow> Some e))"
  using assms
proof (induction eps arbitrary: custom)
  case (Cons ep eps)
  show ?case
  proof (cases "serviceEndPoint ep = None")
    case False
    then have l: "live (ep # eps) = ep # live eps"
      by (simp add: live_def)
    have snoc: "find P (xs @ [x]) = (case find P xs of None \<Rightarrow> if P x then Some x else None | Some y \<Rightarrow> Some y)" for P xs and x :: WsDispatchEndPointInfo
      by (induction xs) auto
    show ?thesis
    proof (cases "inAction ep = Some ptr")
      case True
      then show ?thesis
        using False l by simp
    next
      case no: False
      obtain c where "select_endpoint ptr eps (if inAction ep = None then Some ep else custom) =
          Some (find (\<lambda>e. inAction e = Some ptr) (live eps), c)"
        "find (\<lambda>e. inAction e = Some ptr) (live eps) = None \<longrightarrow>
          c = (case find (\<lambda>e. inAction e = None) (rev (live eps)) of
                 None \<Rightarrow> if inAction ep = None then Some ep else custom | Some e \<Rightarrow> Some e)"
        using Cons.IH [of "if inAction ep = None then Some ep else custom"] Cons.prems False by auto
      then show ?thesis
        using False no l by (auto simp: snoc split: option.splits)
    qed
  qed (simp add: live_def)
qed simp

lemma find_disp_registered:
  assumes "registered al eps soap di" "distinct (map ep_at eps)" "ep \<in> set eps"
  obtains i where "i < length eps" "eps ! i = ep" "find_disp di ep = Some (the (al i))"
proof -
  obtain i where i: "i < length eps" "eps ! i = ep"
    using assms(3) by (auto simp: in_set_conv_nth)
  have uniq: "j = i" if "j < length eps" "ep_at (eps ! j) = ep_at ep" for j
    using that i nth_eq_iff_index_eq [OF assms(2), of j i] by simp
  have "find (\<lambda>m. fst m = ep_at ep) (map (\<lambda>i. (ep_at (eps ! i), the (al i))) [0..<length eps]) = Some (ep_at ep, the (al i))"
  proof -
    let ?xs = "map (\<lambda>i. (ep_at (eps ! i), the (al i))) [0..<length eps]"
    have nth: "?xs ! j = (ep_at (eps ! j), the (al j))" if "j < length eps" for j
      using that by simp
    have "\<forall>j < i. fst (?xs ! j) \<noteq> ep_at ep"
    proof (intro allI impI)
      fix j assume "j < i"
      then show "fst (?xs ! j) \<noteq> ep_at ep"
        using nth [of j] uniq [of j] i(1) by auto
    qed
    then show ?thesis
      unfolding find_Some_iff using nth [OF i(1)] i by (intro exI [of _ i] conjI) simp_all
  qed
  then have "find_disp di ep = Some (the (al i))"
    using assms(1) by (simp add: find_disp_def registered_def)
  then show thesis
    using that i by blast
qed

text \<open>The dispatcher on a request that is neither an identify request nor about a subscription.\<close>

lemma target_endpoint: "target ifcs u a = Some ep \<Longrightarrow> ep \<in> set (all_endpoints ifcs)"
  by (auto simp: target_def chosen_def all_endpoints_def find_Some_iff split: option.splits)
    (metis length_rev nth_mem set_rev)+

lemma wsman_dispatcher_target:
  assumes ctx: "ctx_ok cntx" and ok: "list_all ifc_ok ifcs" and di: "interfaces di = ifcs"
    and req: "doc \<noteq> None" "\<not> wsman_is_identify_request doc" "\<not> wsman_is_event_related_request L doc"
    and u: "wsman_get_resource_uri L (indoc cntx) doc = Some u" and a: "wsman_get_action L (indoc cntx) doc = Some a"
  shows "\<exists>cntx'. wsman_dispatcher L mem saved cntx di doc = Some (Option.bind (target ifcs u a) (find_disp di), cntx') \<and> ctx_ok cntx'"
proof -
  obtain h where h: "entries cntx = Some h" "hash_ok h"
    using ctx by (auto simp: ctx_ok_def)
  obtain r h' where rm: "ws_remove_context_val mem cntx (Some WSM_RESOURCE_URI) = Some (r, cntx\<lparr>entries := Some h'\<rparr>)" "hash_ok h'"
    using ws_remove_context_val_ok [OF h] by blast
  have sub: "subscription_uri L (subscriptionMemList cntx) saved doc (Some u) = Some (Some u)"
    using req(3) by (simp add: subscription_uri_def)
  obtain ep c where sel: "(case find_interface (Some u) (interfaces di) of
        None \<Rightarrow> Some (None, None)
      | Some (r, ns) \<Rightarrow> select_endpoint (strip_ns a ns) (endPoints r) None) = Some (ep, c)"
    and tgt: "(case ep of Some e \<Rightarrow> Some e | None \<Rightarrow> c) = target ifcs u a"
  proof (cases "find (\<lambda>i. serves i u) ifcs")
    case None
    then show thesis
      using that [of None None] di by (simp add: find_interface_serves target_def)
  next
    case (Some ifc)
    then have "ifc \<in> set ifcs"
      by (auto simp: find_Some_iff)
    then have "list_ex (\<lambda>e. serviceEndPoint e = None) (endPoints ifc)"
      using ok by (auto simp: list_all_iff ifc_ok_def)
    let ?act = "strip_ns a (if wsmanResourceUri ifc = None then wsman_dispatcher_match_ns ifc (Some u) else None)"
    let ?m = "find (\<lambda>e. inAction e = Some ?act) (live (endPoints ifc))"
    obtain c where c: "select_endpoint ?act (endPoints ifc) None = Some (?m, c)"
      "?m = None \<longrightarrow> c = find (\<lambda>e. inAction e = None) (rev (live (endPoints ifc)))"
      using select_endpoint_spec [OF \<open>list_ex _ _\<close>, of ?act None] by (auto split: option.splits)
    have "target ifcs u a = chosen ?act (live (endPoints ifc))"
      using Some by (simp add: target_def)
    also have "\<dots> = (case ?m of Some e \<Rightarrow> Some e | None \<Rightarrow> c)"
      using c(2) by (simp add: chosen_def split: option.split)
    finally show thesis
      using that [of ?m c] c(1) Some di by (simp add: find_interface_serves)
  qed
  have "wsman_dispatcher L mem saved cntx di doc =
      Some (case ep of Some e \<Rightarrow> find_disp di e | None \<Rightarrow> (case c of Some e \<Rightarrow> find_disp di e | None \<Rightarrow> None), cntx\<lparr>entries := Some h'\<rparr>)"
    unfolding wsman_dispatcher_def Let_def u a sub bind.bind_lunit
    by (simp only: req simp_thms if_False option.simps option.sel sel rm(1) bind.bind_lunit prod.case)
  moreover have "(case ep of Some e \<Rightarrow> find_disp di e | None \<Rightarrow> (case c of Some e \<Rightarrow> find_disp di e | None \<Rightarrow> None)) =
      Option.bind (target ifcs u a) (find_disp di)"
    using tgt by (cases ep; cases c) (auto dest: sym)
  ultimately show ?thesis
    using rm(2) by (auto simp: ctx_ok_def)
qed

section \<open>Properties\<close>

text \<open>C36: Creating the runtime for a non-empty list of plugin interfaces never writes outside the
  block that \<open>calculate_map_count\<close> sizes, and enters every endpoint: when the arrays of endpoints end,
  the endpoints have known types, the dispatch entries can be allocated and the size fits an \<open>int\<close>,
  the runtime is created, its map lists the endpoints of all interfaces in order, and the dispatch
  entry of each carries the endpoint and the stub for its type, with a usage count of one.\<close>

theorem runtime_registers_endpoints:
  assumes "disp_alloc al" "ifcs \<noteq> []" "list_all ifc_ok ifcs"
    and "length ifcs * sizeof_WsManDispatcherInfo + length (all_endpoints ifcs) * sizeof_DispatchToEpMap < 2 ^ 31"
  shows "\<exists>rt di. ws_create_runtime True al (Some ifcs) soap = Some (Some rt) \<and> dispatcherData rt = Some di \<and>
    interfaces di = ifcs \<and> map fst (dmap di) = map ep_at (all_endpoints ifcs) \<and>
    map (disps rt \<circ> snd) (dmap di) = map (Some \<circ> entry_of) (all_endpoints ifcs)"
proof -
  obtain rt di where r: "ws_create_runtime True al (Some ifcs) soap = Some (Some rt)" "dispatcherData rt = Some di"
    "interfaces di = ifcs" "registered al (all_endpoints ifcs) rt di"
    using create_runtime_ok [OF assms, of soap] by blast
  have "map fst (dmap di) = map ep_at (all_endpoints ifcs)"
    using r(4) by (auto simp: registered_def intro!: nth_equalityI)
  moreover have "map (disps rt \<circ> snd) (dmap di) = map (Some \<circ> entry_of) (all_endpoints ifcs)"
    using r(4) by (auto simp: registered_def intro!: nth_equalityI)
  ultimately show ?thesis
    using r by blast
qed

definition sample_ep :: "addr \<Rightarrow> ulong \<Rightarrow> string option \<Rightarrow> addr option \<Rightarrow> WsDispatchEndPointInfo" where
  "sample_ep a flags act f = \<lparr>ep_at = a, ep_flags = flags, respName = None, inAction = act, serviceEndPoint = f, ep_data = None\<rparr>"

definition sample_ifcs :: "WsDispatchInterfaceInfo list" where
  "sample_ifcs =
     [\<lparr>wsmanResourceUri = Some ''urn:a'', namespaces = None,
       endPoints = [sample_ep 1 WS_DISP_TYPE_GET (Some ''get'') (Some 100), sample_ep 2 0 None None]\<rparr>,
      \<lparr>wsmanResourceUri = None, namespaces = Some [\<lparr>sns_ns = Some ''urn:b'', class_prefix = None\<rparr>],
       endPoints = [sample_ep 3 WS_DISP_TYPE_ENUMERATE (Some ''enum'') (Some 101),
                    sample_ep 4 WS_DISP_TYPE_CUSTOM_METHOD None (Some 102), sample_ep 5 0 None None]\<rparr>]"

definition sample_soap :: soap_t where
  "sample_soap = \<lparr>disps = Map.empty, dispatcherData = None, data_freed = False\<rparr>"

lemma disp_alloc_Some: "disp_alloc Some"
  by (simp add: disp_alloc_def)

lemma sample_ifcs_ok:
  "sample_ifcs \<noteq> []" "list_all ifc_ok sample_ifcs" "distinct (map ep_at (all_endpoints sample_ifcs))"
  "length sample_ifcs * sizeof_WsManDispatcherInfo + length (all_endpoints sample_ifcs) * sizeof_DispatchToEpMap < 2 ^ 31"
  by (simp_all add: sample_ifcs_def sample_ep_def ifc_ok_def live_def all_endpoints_def callback_of_def disp_type_defs
      sizeof_WsManDispatcherInfo_def sizeof_DispatchToEpMap_def)

theorem runtime_registers_endpoints_witness:
  "\<exists>rt di. ws_create_runtime True Some (Some sample_ifcs) sample_soap = Some (Some rt) \<and> dispatcherData rt = Some di \<and>
    interfaces di = sample_ifcs \<and> map fst (dmap di) = [1, 3, 4] \<and>
    map (disps rt \<circ> snd) (dmap di) = map (Some \<circ> entry_of) (all_endpoints sample_ifcs)"
proof -
  have "map ep_at (all_endpoints sample_ifcs) = [1, 3, 4]"
    by (simp add: sample_ifcs_def sample_ep_def live_def all_endpoints_def)
  then show ?thesis
    using runtime_registers_endpoints [OF disp_alloc_Some sample_ifcs_ok(1,2,4), of sample_soap] by metis
qed

text \<open>C5: For a request that names a resource and an action (and is neither an identify request nor
  about a subscription) the dispatcher agrees with the specification \<open>target\<close>: the first interface that
  serves the resource, by its URI or by one of its namespaces; in it the first endpoint with the action,
  with the namespace taken off, or else the last endpoint without an action.  The request gets the dispatch entry
  of that endpoint or none, and destroying the entry afterwards restores the usage counts.\<close>

theorem dispatcher_selects_target:
  assumes al: "disp_alloc al" and ifcs: "ifcs \<noteq> []" "list_all ifc_ok ifcs" "distinct (map ep_at (all_endpoints ifcs))"
    and small: "length ifcs * sizeof_WsManDispatcherInfo + length (all_endpoints ifcs) * sizeof_DispatchToEpMap < 2 ^ 31"
    and ctx: "ctx_ok cntx"
    and req: "doc \<noteq> None" "\<not> wsman_is_identify_request doc" "\<not> wsman_is_event_related_request L doc"
    and u: "wsman_get_resource_uri L (indoc cntx) doc = Some u" and a: "wsman_get_action L (indoc cntx) doc = Some a"
  shows "\<exists>rt disp cntx' rt'. ws_create_runtime True al (Some ifcs) soap = Some (Some rt) \<and>
    get_dispatch_entry L mem saved cntx rt doc = Some (disp, cntx', rt') \<and> destroy_dispatch_entry rt' disp = Some rt \<and>
    map_option (\<lambda>d. map_option (\<lambda>e. (serviceData e, serviceCallback e, usageCount e)) (disps rt' d)) disp =
      map_option (\<lambda>ep. Some (ep_at ep, callback_of ep, 2)) (target ifcs u a)"
proof -
  obtain rt di where r: "ws_create_runtime True al (Some ifcs) soap = Some (Some rt)" "dispatcherData rt = Some di"
    "interfaces di = ifcs" "registered al (all_endpoints ifcs) rt di" "\<not> data_freed rt"
    using create_runtime_ok [OF al ifcs(1,2) small, of soap] by blast
  obtain cntx' where d: "wsman_dispatcher L mem saved cntx di doc = Some (Option.bind (target ifcs u a) (find_disp di), cntx')"
    using wsman_dispatcher_target [OF ctx ifcs(2) r(3) req u a] by blast
  show ?thesis
  proof (cases "target ifcs u a")
    case None
    then have "get_dispatch_entry L mem saved cntx rt doc = Some (None, cntx', rt)"
      using r(2,5) d req(1) by (simp add: get_dispatch_entry_def)
    then show ?thesis
      using r(1) None by (auto simp: destroy_dispatch_entry_def)
  next
    case (Some ep)
    have "ep \<in> set (all_endpoints ifcs)"
      using Some by (rule target_endpoint)
    then obtain i where i: "i < length (all_endpoints ifcs)" "all_endpoints ifcs ! i = ep" "find_disp di ep = Some (the (al i))"
      using find_disp_registered [OF r(4) ifcs(3)] by blast
    define b where "b = the (al i)"
    have e: "disps rt b = Some (entry_of ep)"
      using r(4) i by (auto simp: registered_def b_def)
    let ?rt = "rt\<lparr>disps := (disps rt)(b \<mapsto> (entry_of ep)\<lparr>usageCount := 2\<rparr>)\<rparr>"
    have "get_dispatch_entry L mem saved cntx rt doc = Some (Some b, cntx', ?rt)"
      using r(2,5) d req(1) Some i(3) e by (auto simp: get_dispatch_entry_def b_def entry_of_def)
    moreover have "destroy_dispatch_entry ?rt (Some b) = Some rt"
      using e by (simp add: destroy_dispatch_entry_def entry_of_def fun_upd_idem)
    ultimately show ?thesis
      using r(1) Some by (auto simp: entry_of_def)
  qed
qed

definition sample_request :: "string \<Rightarrow> string \<Rightarrow> xdoc" where
  "sample_request u a = Some (Elem (Some XML_NS_SOAP_1_2) SOAP_ENVELOPE []
     [Elem (Some XML_NS_SOAP_1_2) SOAP_HEADER []
        [Elem (Some XML_NS_WS_MAN) WSM_RESOURCE_URI [] [Text u], Elem (Some XML_NS_ADDRESSING) WSA_ACTION [] [Text a]],
      Elem (Some XML_NS_SOAP_1_2) SOAP_BODY [] []])"

definition sample_context :: WS_CONTEXT where
  "sample_context = \<lparr>enumIdleTimeout = 0, indoc = None, enuminfos = None, entries = the (context_table True),
     subscriptionMemList = [], owner = True\<rparr>"

lemma sample_context_ok: "ctx_ok sample_context"
  using context_table_ok [where 'v = "ctx_val option"] by (auto simp: ctx_ok_def sample_context_def)

theorem dispatcher_selects_target_witness:
  "\<exists>rt disp cntx' rt'. ws_create_runtime True Some (Some sample_ifcs) sample_soap = Some (Some rt) \<and>
    get_dispatch_entry plain_xmllib True (\<lambda>_. None) sample_context rt (sample_request ''urn:b/X'' ''urn:b/run'') = Some (disp, cntx', rt') \<and>
    destroy_dispatch_entry rt' disp = Some rt \<and>
    map_option (\<lambda>d. map_option (\<lambda>e. (serviceData e, serviceCallback e, usageCount e)) (disps rt' d)) disp =
      Some (Some (4, Some (endpoint_cb 102), 2))"
proof -
  let ?rq = "sample_request ''urn:b/X'' ''urn:b/run''"
  have cd: "indoc sample_context = None"
    by (simp add: sample_context_def)
  have req: "?rq \<noteq> None" "\<not> wsman_is_identify_request ?rq" "\<not> wsman_is_event_related_request plain_xmllib ?rq"
    "wsman_get_resource_uri plain_xmllib (indoc sample_context) ?rq = Some ''urn:b/X''"
    "wsman_get_action plain_xmllib (indoc sample_context) ?rq = Some ''urn:b/run''"
    unfolding cd by code_simp+
  have tgt: "map_option (\<lambda>ep. Some (ep_at ep, callback_of ep, 2 :: int)) (target sample_ifcs ''urn:b/X'' ''urn:b/run'') =
      Some (Some (4, Some (endpoint_cb 102), 2))"
    by (simp add: target_def sample_ifcs_def serves_def sample_ep_def chosen_def live_def strip_ns_def
        wsman_dispatcher_match_ns_def callback_of_def disp_type_defs)
  show ?thesis
    using dispatcher_selects_target [OF disp_alloc_Some sample_ifcs_ok(1,2,3,4) sample_context_ok req,
        of sample_soap True "\<lambda>_. None"] unfolding tgt .
qed

text \<open>The size of the block for an empty list is zero, so that its header does not fit in it.\<close>

lemma empty_runtime_overflows: "ws_create_runtime True al (Some []) soap = None"
  by (simp add: ws_create_runtime_def calculate_map_count_def map_offset_def)

end
