(* ===== verification/Ws_Enum.thy ===== *)
theory Ws_Enum
  imports Ws_Dispatch Ws_Envelope Ws_Event_Pool
begin

text \<open>
  Enumerations, from \<open>src/src/lib/wsman-soap.c\<close>: the contexts that an \<open>Enumerate\<close> request creates, the
  flag by which a \<open>Pull\<close> or \<open>Release\<close> request reserves one, the stubs of the three requests and the removal
  of contexts that have expired.

  The table of a context maps ids to pointers, so the structures live in a store (\<open>e_heap\<close>) that knows
  which of them are allocated: using or freeing one that is not is \<open>None\<close>.  The functions of the
  plugins are parameters; they get the structure and return it as they leave it.  Times, ids and the outcomes of allocations are
  arguments.
\<close>

section \<open>State\<close>

record ectx =
  e_table :: "addr hash_t"
  e_heap :: "addr \<rightharpoonup> WsEnumerateInfo"
  e_idle :: ulong
  e_indoc :: xdoc

definition e_get :: "ectx \<Rightarrow> addr \<Rightarrow> WsEnumerateInfo option" where
  "e_get c a = e_heap c a"

definition e_put :: "ectx \<Rightarrow> addr \<Rightarrow> WsEnumerateInfo \<Rightarrow> ectx" where
  "e_put c a e = c\<lparr>e_heap := (e_heap c)(a \<mapsto> e)\<rparr>"

text \<open>\<open>e_indoc\<close> is the document of the context of the runtime, which \<open>wsenum_release_stub\<close> sets.\<close>

text \<open>The function of a plugin for enumerations: the value it returns, the structure and the status it leaves.\<close>

type_synonym ep_fun = "WsEnumerateInfo \<Rightarrow> WsmanStatus \<Rightarrow> int \<times> WsEnumerateInfo \<times> WsmanStatus"

definition enuminfo_zero :: WsEnumerateInfo where
  "enuminfo_zero = \<lparr>ei_flags = 0, enumId = [], timeStamp = 0, ei_expires = 0, totalItems = 0, maxItems = 0, maxsize = 0,
     ei_index = 0, pullResultPtr = None, appEnumContext = None, ei_username = None, ei_password = None,
     releaseproc = None, epr_to = None, ei_epr_uri = None, ei_encoding = None, ei_filter = None\<rparr>"

section \<open>Creating a context\<close>

text \<open>\<open>Inl\<close> is the fault for which the caller gets a document, \<open>Inr\<close> the new structure.  \<open>mem\<close>: whether the
  structure can be allocated; \<open>op_maxsize\<close> is \<open>op->maxsize\<close>; \<open>uuid\<close> is the id that is generated.\<close>

definition create_enum_info ::
  "xmllib \<Rightarrow> clock \<Rightarrow> string \<Rightarrow> bool \<Rightarrow> ulong \<Rightarrow> WsmanMessage \<Rightarrow> WsManDispatcherInfo \<Rightarrow> xdoc \<Rightarrow> (fault + WsEnumerateInfo) option" where
  "create_enum_info L clk uuid mem op_maxsize msg di rq =
     (if \<not> mem then Some (Inl (WSMAN_INTERNAL_ERROR, WSMAN_DETAIL_OK))
      else do {
        let body = ws_xml_get_soap_body rq;
        let header = ws_xml_get_soap_header rq;
        let enumnode = ws_xml_get_child body 0 (Some XML_NS_ENUMERATION) (Some WSENUM_ENUMERATE);
        let e = enuminfo_zero\<lparr>ei_encoding := msg_charset msg, maxsize := ucast op_maxsize\<rparr>;
        let e = (if maxsize e = 0
                 then e\<lparr>maxsize := ucast (ws_deserialize_uint32 L enumnode 0 (Some XML_NS_ENUMERATION) (Some WSENUM_MAX_CHARACTERS))\<rparr>
                 else e);
        rel \<leftarrow> wsman_get_release_endpoint L di rq rq;
        let e = e\<lparr>releaseproc := rel\<rparr>;
        case ws_xml_get_node_text L (ws_xml_get_child header 0 (Some XML_NS_ADDRESSING) (Some WSA_TO)) of
          None \<Rightarrow> Some (Inl (WSMAN_INTERNAL_ERROR, WSMAN_DETAIL_OK))
        | Some to \<Rightarrow>
            (case ws_xml_get_node_text L (ws_xml_get_child header 0 (Some XML_NS_WS_MAN) (Some WSM_RESOURCE_URI)) of
               None \<Rightarrow> Some (Inl (WSMAN_INTERNAL_ERROR, WSMAN_DETAIL_OK))
             | Some uri \<Rightarrow>
                 (let e = e\<lparr>epr_to := Some to, ei_epr_uri := Some uri\<rparr>;
                      node = ws_xml_get_child enumnode 0 (Some XML_NS_ENUMERATION) (Some WSENUM_EXPIRES);
                      (ex, fc) = (if node = None then (0, WSMAN_RC_OK)
                                  else wsman_set_expiretime clk (ws_xml_get_node_text L node) (ei_expires e));
                      e = e\<lparr>ei_expires := ex\<rparr>
                  in if fc \<noteq> WSMAN_RC_OK then Some (Inl (fc, WSMAN_DETAIL_EXPIRATION_TIME))
                     else
                       let e = (if msg_username msg \<noteq> None
                                then e\<lparr>ei_username := msg_username msg, ei_password := msg_password msg\<rparr>
                                else e\<lparr>ei_username := None, ei_password := None\<rparr>)
                       in Some (Inr (e\<lparr>enumId := uuid\<rparr>))))
      })"

text \<open>\<open>m\<close>: the copy of the key, the node, the reallocations of the table.\<close>

definition insert_enum_info :: "ulong \<Rightarrow> ctx_mem \<Rightarrow> ectx \<Rightarrow> addr \<Rightarrow> (int \<times> ectx) option" where
  "insert_enum_info now m c a = do {
     e \<leftarrow> e_get c a;
     let c = e_put c a (e\<lparr>timeStamp := now\<rparr>);
     (hn, h) \<leftarrow> create_context_entry (cm_key m) (cm_node m) (cm_table m) (e_table c) (enumId e) a;
     Some (if hn \<noteq> None then 0 else 1, c\<lparr>e_table := h\<rparr>)
   }"

definition destroy_enuminfo :: "ectx \<Rightarrow> addr \<Rightarrow> ectx option" where
  "destroy_enuminfo c a = do {
     e \<leftarrow> e_get c a;
     Some (c\<lparr>e_heap := (e_heap c)(a := None)\<rparr>)
   }"

definition get_total_enum_context :: "ectx \<Rightarrow> ulong" where
  "get_total_enum_context c = h_nodecount (e_table c)"

section \<open>Reserving a context\<close>

text \<open>\<open>None\<close> is \<open>strcmp\<close> of a null pointer.\<close>

definition wsman_verify_enum_info ::
  "xmllib \<Rightarrow> WsmanMessage \<Rightarrow> WsEnumerateInfo \<Rightarrow> xdoc \<Rightarrow> WsmanStatus \<Rightarrow> (bool \<times> WsmanStatus) option" where
  "wsman_verify_enum_info L msg e rq status =
     (let header = ws_xml_get_soap_header rq in
      case (ws_xml_get_node_text L (ws_xml_get_child header 0 (Some XML_NS_ADDRESSING) (Some WSA_TO)),
            ws_xml_get_node_text L (ws_xml_get_child header 0 (Some XML_NS_WS_MAN) (Some WSM_RESOURCE_URI))) of
        (Some to, Some uri) \<Rightarrow> do {
          eto \<leftarrow> epr_to e;
          differ \<leftarrow> (if strcmp eto to \<noteq> 0 then Some True else do { euri \<leftarrow> ei_epr_uri e; Some (strcmp euri uri \<noteq> 0) });
          if differ then
            Some (False, status\<lparr>fault_code := WSA_MESSAGE_INFORMATION_HEADER_REQUIRED, fault_detail_code := WSMAN_DETAIL_OK\<rparr>)
          else
            (case (msg_username msg, msg_password msg) of
               (Some u, Some p) \<Rightarrow> do {
                 eu \<leftarrow> ei_username e;
                 denied \<leftarrow> (if strcmp u eu \<noteq> 0 then do { ep \<leftarrow> ei_password e; Some (strcmp p ep \<noteq> 0) } else Some False);
                 if denied then Some (False, status\<lparr>fault_code := WSMAN_ACCESS_DENIED, fault_detail_code := WSMAN_DETAIL_OK\<rparr>)
                 else Some (True, status)
               }
             | _ \<Rightarrow> Some (True, status))
        }
      | _ \<Rightarrow> Some (False, status\<lparr>fault_code := WSMAN_INTERNAL_ERROR, fault_detail_code := WSMAN_DETAIL_OK\<rparr>))"

definition in_work :: "WsEnumerateInfo \<Rightarrow> bool" where
  "in_work e \<longleftrightarrow> ei_flags e AND WSMAN_ENUMINFO_INWORK_FLAG \<noteq> 0"

text \<open>The id of the context that a request with the element \<open>action\<close> names.\<close>

definition requested_enumId :: "xmllib \<Rightarrow> xdoc \<Rightarrow> string \<Rightarrow> string option" where
  "requested_enumId L rq action =
     ws_xml_get_node_text L
       (ws_xml_get_child (ws_xml_get_child (ws_xml_get_soap_body rq) 0 (Some XML_NS_ENUMERATION) (Some action))
          0 (Some XML_NS_ENUMERATION) (Some WSENUM_ENUMERATION_CONTEXT))"

definition get_locked_enuminfo ::
  "xmllib \<Rightarrow> ectx \<Rightarrow> xdoc \<Rightarrow> WsmanMessage \<Rightarrow> string \<Rightarrow> WsmanStatus \<Rightarrow> (addr option \<times> WsmanStatus \<times> ectx) option" where
  "get_locked_enuminfo L c rq msg action status =
     (case requested_enumId L rq action of
        None \<Rightarrow> Some (None, status\<lparr>fault_code := WSEN_INVALID_ENUMERATION_CONTEXT\<rparr>, c)
      | Some eid \<Rightarrow> do {
          hn \<leftarrow> hash_lookup (e_table c) eid;
          case hn of
            None \<Rightarrow> Some (None, status\<lparr>fault_code := WSEN_INVALID_ENUMERATION_CONTEXT\<rparr>, c)
          | Some n \<Rightarrow> do {
              let a = hn_data n;
              e \<leftarrow> e_get c a;
              (status, c) \<leftarrow>
                (if strcmp (enumId e) eid \<noteq> 0 then Some (status\<lparr>fault_code := WSMAN_INTERNAL_ERROR\<rparr>, c)
                 else do {
                   (ok, status) \<leftarrow> wsman_verify_enum_info L msg e rq status;
                   if \<not> ok then Some (status, c)
                   else if in_work e then Some (status\<lparr>fault_code := WSMAN_CONCURRENCY\<rparr>, c)
                   else Some (status, e_put c a (e\<lparr>ei_flags := ei_flags e OR WSMAN_ENUMINFO_INWORK_FLAG\<rparr>))
                 });
              Some (if fault_code status \<noteq> WSMAN_RC_OK then None else Some a, status, c)
            }
        })"

definition unlock_enuminfo :: "ulong \<Rightarrow> ectx \<Rightarrow> addr \<Rightarrow> ectx option" where
  "unlock_enuminfo now c a = do {
     e \<leftarrow> e_get c a;
     if \<not> in_work e then Some c
     else Some (e_put c a (e\<lparr>ei_flags := ei_flags e AND NOT WSMAN_ENUMINFO_INWORK_FLAG, timeStamp := now\<rparr>))
   }"

definition remove_locked_enuminfo :: "bool \<Rightarrow> ectx \<Rightarrow> addr \<Rightarrow> ectx option" where
  "remove_locked_enuminfo mem c a = do {
     e \<leftarrow> e_get c a;
     if \<not> in_work e then Some c
     else do {
       hn \<leftarrow> hash_lookup (e_table c) (enumId e);
       (fs, h) \<leftarrow> hash_delete_free mem (e_table c) hn;
       Some (c\<lparr>e_table := h\<rparr>)
     }
   }"

section \<open>The stubs\<close>

text \<open>A document under construction: what a builder makes of the declarations \<open>nd\<close>.\<close>

definition built :: "nsdoc \<Rightarrow> (nsdoc, 'a) state \<Rightarrow> 'a" where
  "built nd m = fst (run_state m nd)"

subsection \<open>Enumerate\<close>

text \<open>\<open>mt\<close> and \<open>mc\<close> are the results of the two option functions of the daemon, \<open>None\<close> for an unresolved
  symbol.  The product is computed as \<open>int\<close> and compared as \<open>unsigned long\<close>.\<close>

definition enum_quota_full :: "int option \<Rightarrow> int option \<Rightarrow> ectx \<Rightarrow> bool option" where
  "enum_quota_full mt mc c =
     (let (max_threads, max_conn) = (case (mt, mc) of (Some t, Some k) \<Rightarrow> (t, k) | _ \<Rightarrow> (0, 0)) in
      if max_threads = 0 then Some False
      else do {
        c_assert (- (2 ^ 31) \<le> max_threads * max_conn \<and> max_threads * max_conn < 2 ^ 31);
        Some (get_total_enum_context c \<ge> of_int (max_threads * max_conn))
      })"

text \<open>The response: the document and whether the response element was reached.\<close>

definition enum_finished :: "WsEnumerateInfo \<Rightarrow> bool" where
  "enum_finished e \<longleftrightarrow> totalItems e = 0 \<or> ei_index e = totalItems e"

definition enumerate_elements :: "xmllib \<Rightarrow> WsEnumerateInfo \<Rightarrow> xnode \<Rightarrow> (nsdoc, xnode) state" where
  "enumerate_elements L e resp =
     (if ei_flags e AND WSMAN_ENUMINFO_OPT = WSMAN_ENUMINFO_OPT \<and> enum_finished e then do {
        resp \<leftarrow> ws_serialize_str L None resp None (Some XML_NS_ENUMERATION) WSENUM_ENUMERATION_CONTEXT False;
        ws_serialize_str L None resp None (Some XML_NS_WS_MAN) WSENUM_END_OF_SEQUENCE False
      }
      else ws_serialize_str L None resp (Some (enumId e)) (Some XML_NS_ENUMERATION) WSENUM_ENUMERATION_CONTEXT False)"

definition enumerate_response :: "xmllib \<Rightarrow> xdoc \<Rightarrow> WsEnumerateInfo \<Rightarrow> (nsdoc, xdoc \<times> bool) state" where
  "enumerate_response L rq e = do {
     d \<leftarrow> (if pullResultPtr e \<noteq> None then State_Monad.return (pullResultPtr e) else wsman_create_response_envelope L rq None);
     d \<leftarrow> wsman_set_estimated_total L rq d e;
     let body = ws_xml_get_soap_body d;
     if body = None then State_Monad.return (d, False)
     else if pullResultPtr e = None then do {
       d \<leftarrow> on_body (\<lambda>b. do {
              resp \<leftarrow> make_new_xml_node L (Some XML_NS_ENUMERATION) WSENUM_ENUMERATE_RESP None;
              resp \<leftarrow> enumerate_elements L e resp;
              State_Monad.return (add_kid b resp) }) (the d);
       State_Monad.return (Some d, True)
     }
     else if ws_xml_get_child body 0 (Some XML_NS_ENUMERATION) (Some WSENUM_ENUMERATE_RESP) = None
     then State_Monad.return (d, False)
     else do {
       d \<leftarrow> on_body (on_child (Some XML_NS_ENUMERATION) WSENUM_ENUMERATE_RESP (enumerate_elements L e)) (the d);
       State_Monad.return (Some d, True)
     }
   }"

text \<open>The outcome of a stub: the value returned and the document set as the answer, if any.\<close>

type_synonym reply = "int \<times> xdoc"

text \<open>The first part of the stub: the quota, the context of the endpoint (\<open>epmem\<close>) and the structure at \<open>ea\<close>.\<close>

definition enumerate_begin ::
  "xmllib \<Rightarrow> clock \<Rightarrow> string \<Rightarrow> string \<Rightarrow> bool \<Rightarrow> addr option \<Rightarrow> int option \<Rightarrow> int option \<Rightarrow> ulong \<Rightarrow> WsmanMessage \<Rightarrow>
   WsManDispatcherInfo \<Rightarrow> xdoc \<Rightarrow> nsdoc \<Rightarrow> ectx \<Rightarrow> (reply + addr \<times> ectx) option" where
  "enumerate_begin L clk uuid fuuid epmem ea mt mc op_maxsize msg di rq nd c = do {
     full \<leftarrow> enum_quota_full mt mc c;
     if full then
       Some (Inl (1, built nd (wsman_generate_fault L fuuid rq WSMAN_QUOTA_LIMIT OWSMAN_NO_DETAILS
                      (Some ''The service is busy servicing other requests. Try later.''))))
     else if \<not> epmem then Some (Inl (0, None))
     else do {
       r \<leftarrow> create_enum_info L clk uuid (ea \<noteq> None) op_maxsize msg di rq;
       case r of
         Inl (fc, fd) \<Rightarrow> Some (Inl (0, built nd (wsman_generate_fault L fuuid rq fc fd None)))
       | Inr e \<Rightarrow> Some (Inr (the ea, e_put c (the ea) e))
     }
   }"

text \<open>Calling the function of the plugin on the structure at \<open>a\<close>.\<close>

definition call_endpoint :: "ep_fun option \<Rightarrow> ectx \<Rightarrow> addr \<Rightarrow> (int \<times> WsmanStatus \<times> ectx) option" where
  "call_endpoint ep c a = do {
     e \<leftarrow> e_get c a;
     Some (case ep of
             None \<Rightarrow> (0, wsman_status_init, c)
           | Some f \<Rightarrow> (case f e wsman_status_init of (rv, e, st) \<Rightarrow> (rv, st, e_put c a e)))
   }"

text \<open>The last part: the answer, and whether the structure goes into the table or is destroyed.\<close>

definition enumerate_end ::
  "xmllib \<Rightarrow> ulong \<Rightarrow> ctx_mem \<Rightarrow> string \<Rightarrow> xdoc \<Rightarrow> nsdoc \<Rightarrow> int \<Rightarrow> WsmanStatus \<Rightarrow> ectx \<Rightarrow> addr \<Rightarrow> (reply \<times> ectx) option" where
  "enumerate_end L now m fuuid rq nd rv st c a = do {
     e \<leftarrow> e_get c a;
     if rv \<noteq> 0 then do {
       c \<leftarrow> destroy_enuminfo c a;
       Some ((rv, built nd (wsman_generate_fault L fuuid rq (fault_code st) (fault_detail_code st) (fault_msg st))), c)
     }
     else do {
       let e = (if pullResultPtr e \<noteq> None then e\<lparr>ei_index := ei_index e + 1\<rparr> else e);
       let c = e_put c a e;
       let (d, reached) = built nd (enumerate_response L rq e);
       if \<not> reached \<or> (ei_flags e AND WSMAN_ENUMINFO_OPT = WSMAN_ENUMINFO_OPT \<and> enum_finished e) then do {
         c \<leftarrow> destroy_enuminfo c a;
         Some ((0, d), c)
       }
       else do {
         (r, c) \<leftarrow> insert_enum_info now m c a;
         Some ((0, d), c)
       }
     }
   }"

definition wsenum_enumerate_stub ::
  "xmllib \<Rightarrow> clock \<Rightarrow> ulong \<Rightarrow> string \<Rightarrow> string \<Rightarrow> bool \<Rightarrow> addr option \<Rightarrow> ctx_mem \<Rightarrow> int option \<Rightarrow> int option \<Rightarrow> ulong \<Rightarrow> WsmanMessage \<Rightarrow>
   WsManDispatcherInfo \<Rightarrow> ep_fun option \<Rightarrow> xdoc \<Rightarrow> nsdoc \<Rightarrow> ectx \<Rightarrow> (reply \<times> ectx) option" where
  "wsenum_enumerate_stub L clk now uuid fuuid epmem ea m mt mc op_maxsize msg di ep rq nd c = do {
     r \<leftarrow> enumerate_begin L clk uuid fuuid epmem ea mt mc op_maxsize msg di rq nd c;
     case r of
       Inl rep \<Rightarrow> Some (rep, c)
     | Inr (a, c) \<Rightarrow> do {
         (rv, st, c) \<leftarrow> call_endpoint ep c a;
         enumerate_end L now m fuuid rq nd rv st c a
       }
   }"

subsection \<open>Release\<close>

definition release_end ::
  "xmllib \<Rightarrow> ulong \<Rightarrow> bool \<Rightarrow> string \<Rightarrow> xdoc \<Rightarrow> nsdoc \<Rightarrow> int \<Rightarrow> ectx \<Rightarrow> addr \<Rightarrow> (reply \<times> bool \<times> ectx) option" where
  "release_end L now mem fuuid rq nd rv c a =
     (if rv \<noteq> 0 then do {
        c \<leftarrow> unlock_enuminfo now c a;
        Some ((rv, built nd (wsman_generate_fault L fuuid rq WSMAN_INTERNAL_ERROR OWSMAN_DETAIL_ENDPOINT_ERROR None)), False, c)
      }
      else do {
        c \<leftarrow> remove_locked_enuminfo mem c a;
        Some ((0, built nd (wsman_create_response_envelope L rq None)), True, c)
      })"

definition wsenum_release_stub ::
  "xmllib \<Rightarrow> ulong \<Rightarrow> bool \<Rightarrow> string \<Rightarrow> WsmanMessage \<Rightarrow> ep_fun option \<Rightarrow> xdoc \<Rightarrow> nsdoc \<Rightarrow> ectx \<Rightarrow> (reply \<times> ectx) option" where
  "wsenum_release_stub L now mem fuuid msg ep rq nd c = do {
     (ei, st, c) \<leftarrow> get_locked_enuminfo L c rq msg WSENUM_RELEASE wsman_status_init;
     let c = c\<lparr>e_indoc := rq\<rparr>;
     case ei of
       None \<Rightarrow> Some ((0, built nd (wsman_generate_fault L fuuid rq (fault_code st) (fault_detail_code st) None)), c)
     | Some a \<Rightarrow> do {
         (rv, st, c) \<leftarrow> call_endpoint ep c a;
         (rep, removed, c) \<leftarrow> release_end L now mem fuuid rq nd rv c a;
         if removed then do { c \<leftarrow> destroy_enuminfo c a; Some (rep, c) } else Some (rep, c)
       }
   }"

subsection \<open>Pull\<close>

text \<open>Inserting an element before the first child with the given name.\<close>

fun insert_before :: "string option \<Rightarrow> string \<Rightarrow> xnode \<Rightarrow> xnode list \<Rightarrow> xnode list" where
  "insert_before ns name new [] = []"
| "insert_before ns name new (c # cs) =
     (if ws_xml_is_node_qname (Some c) ns (Some name) then new # c # cs else c # insert_before ns name new cs)"

text \<open>\<open>pull_end\<close>: what the stub does after the endpoint has been called: the answer, and whether the context
  was removed from the table and is to be destroyed.\<close>

definition pull_response :: "xmllib \<Rightarrow> WsEnumerateInfo \<Rightarrow> xnode \<Rightarrow> (nsdoc, xnode) state" where
  "pull_response L e d =
     on_body (on_child (Some XML_NS_ENUMERATION) WSENUM_PULL_RESP (\<lambda>resp.
       if enum_finished e then ws_serialize_str L None resp None (Some XML_NS_ENUMERATION) WSENUM_END_OF_SEQUENCE False
       else do {
         n \<leftarrow> make_new_xml_node L (Some XML_NS_ENUMERATION) WSENUM_ENUMERATION_CONTEXT (Some (enumId e));
         State_Monad.return (set_kids resp (insert_before (Some XML_NS_ENUMERATION) WSENUM_ITEMS n (kids resp)))
       })) d"

definition pull_end ::
  "xmllib \<Rightarrow> ulong \<Rightarrow> bool \<Rightarrow> string \<Rightarrow> xdoc \<Rightarrow> nsdoc \<Rightarrow> int \<Rightarrow> WsmanStatus \<Rightarrow> ectx \<Rightarrow> addr \<Rightarrow> (reply \<times> bool \<times> ectx) option" where
  "pull_end L now mem fuuid rq nd rv st c a = do {
     e \<leftarrow> e_get c a;
     if rv \<noteq> 0 then do {
       c \<leftarrow> unlock_enuminfo now c a;
       Some ((rv, built nd (wsman_generate_fault L fuuid rq (fault_code st) (fault_detail_code st) None)), False, c)
     }
     else do {
       let e = e\<lparr>ei_index := ei_index e + 1\<rparr>;
       let c = e_put c a e;
       case pullResultPtr e of
         None \<Rightarrow> do { c \<leftarrow> unlock_enuminfo now c a; Some ((0, None), False, c) }
       | Some d \<Rightarrow> do {
           let d = built nd (wsman_set_estimated_total L rq (Some d) e);
           let response = ws_xml_get_child (ws_xml_get_soap_body d) 0 (Some XML_NS_ENUMERATION) (Some WSENUM_PULL_RESP);
           if ws_xml_get_child response 0 (Some XML_NS_ENUMERATION) (Some WSENUM_ITEMS) = None then do {
             c \<leftarrow> unlock_enuminfo now c a;
             Some ((0, built nd (wsman_generate_fault L fuuid rq WSMAN_INTERNAL_ERROR WSMAN_DETAIL_INVALID None)), False, c)
           }
           else do {
             let d = Some (built nd (pull_response L e (the d)));
             if enum_finished e then do {
               c \<leftarrow> remove_locked_enuminfo mem c a;
               Some ((0, d), True, c)
             }
             else do {
               c \<leftarrow> unlock_enuminfo now c a;
               Some ((0, d), False, c)
             }
           }
         }
     }
   }"

text \<open>Pulling from a subscription.  \<open>None\<close> is reading \<open>uuid+5\<close> of a shorter text.\<close>

definition search_pull_subs_info :: "xmllib \<Rightarrow> WsSubscribeInfo list \<Rightarrow> xdoc \<Rightarrow> WsSubscribeInfo option option" where
  "search_pull_subs_info L subs rq =
     (case requested_enumId L rq WSENUM_PULL of
        None \<Rightarrow> Some None
      | Some uuid \<Rightarrow> do {
          c_assert (subs = [] \<or> 5 \<le> length uuid);
          Some (find (\<lambda>s. strcmp (subsId s) (drop 5 uuid) = 0) subs)
        })"

text \<open>The loop that takes at most \<open>n\<close> events: their actions go into the header, their contents into the body.\<close>

fun take_events :: "nat \<Rightarrow> string \<Rightarrow> event_pool \<Rightarrow> WsNotificationInfo list \<times> event_pool" where
  "take_events 0 u p = ([], p)"
| "take_events (Suc n) u p =
     (case MemEventPoolGetAndDeleteEvent u p of
        (r, ni, p) \<Rightarrow>
          if r \<noteq> 0 then ([], p)
          else case take_events n u p of (ns, p) \<Rightarrow> ((case ni of None \<Rightarrow> [] | Some i \<Rightarrow> [i]) @ ns, p))"

fun add_event_actions :: "xmllib \<Rightarrow> WsNotificationInfo list \<Rightarrow> xnode \<Rightarrow> (nsdoc, xnode) state" where
  "add_event_actions L [] h = State_Monad.return h"
| "add_event_actions L (n # ns) h = do {
     h \<leftarrow> ws_xml_add_child L h (Some XML_NS_ADDRESSING) WSA_ACTION (EventAction n);
     add_event_actions L ns h
   }"

fun add_event_contents :: "xmllib \<Rightarrow> WsNotificationInfo list \<Rightarrow> xnode \<Rightarrow> (nsdoc, xnode) state" where
  "add_event_contents L [] b = State_Monad.return b"
| "add_event_contents L (n # ns) b = do {
     b \<leftarrow> (case EventContent n of
             None \<Rightarrow> State_Monad.return b
           | Some root \<Rightarrow> do { c \<leftarrow> ws_xml_duplicate_tree L root; State_Monad.return (add_kid b c) });
     add_event_contents L ns b
   }"

text \<open>The limit is looked for in the header of the request; \<open>None\<close> is \<open>atoi\<close> of a null pointer.\<close>

definition pull_max_elements :: "xmllib \<Rightarrow> xdoc \<Rightarrow> int option" where
  "pull_max_elements L rq =
     (case ws_xml_get_child (ws_xml_get_soap_header rq) 0 (Some XML_NS_ENUMERATION) (Some WSENUM_MAX_ELEMENTS) of
        None \<Rightarrow> Some 1
      | Some n \<Rightarrow> map_option atoi (ws_xml_get_node_text L (Some n)))"

definition notification_doc :: "xmllib \<Rightarrow> xdoc \<Rightarrow> string \<Rightarrow> bool \<Rightarrow> WsNotificationInfo list \<Rightarrow> (nsdoc, xnode) state" where
  "notification_doc L rq sid items ns = do {
     d \<leftarrow> ws_xml_create_envelope L;
     d \<leftarrow> on_body (\<lambda>b. do {
            r \<leftarrow> make_new_xml_node L (Some XML_NS_ENUMERATION) WSENUM_PULL_RESP None;
            r \<leftarrow> ws_xml_add_child_format L r (Some XML_NS_ENUMERATION) WSENUM_ENUMERATION_CONTEXT (''uuid:'' @ sid);
            r \<leftarrow> (if items then do {
                    i \<leftarrow> make_new_xml_node L (Some XML_NS_ENUMERATION) WSENUM_ITEMS None;
                    i \<leftarrow> add_event_contents L ns i;
                    State_Monad.return (add_kid r i)
                  } else add_event_contents L ns r);
            State_Monad.return (add_kid b r) }) d;
     d \<leftarrow> (if ws_xml_get_child (ws_xml_get_soap_header rq) 0 (Some XML_NS_WS_MAN) (Some WSM_REQUEST_TOTAL) \<noteq> None
           then on_header (\<lambda>h. do {
                  t \<leftarrow> make_new_xml_node L (Some XML_NS_WS_MAN) WSM_TOTAL_ESTIMATE None;
                  State_Monad.return (add_kid h (add_attr t \<lparr>xa_ns = Some XML_NS_SCHEMA_INSTANCE, xa_name = XML_SCHEMA_NIL, xa_value = ''true''\<rparr>)) }) d
           else State_Monad.return d);
     on_header (add_event_actions L ns) d
   }"

definition pull_notifications ::
  "xmllib \<Rightarrow> string \<Rightarrow> xdoc \<Rightarrow> nsdoc \<Rightarrow> WsSubscribeInfo \<Rightarrow> event_pool \<Rightarrow> (xdoc \<times> event_pool) option" where
  "pull_notifications L fuuid rq nd s pool =
     (let count = MemEventPoolCount (subsId s) pool in
      if count > 0 then do {
        mx \<leftarrow> pull_max_elements L rq;
        let (ns, pool) = take_events (nat mx) (subsId s) pool;
        Some (Some (built nd (notification_doc L rq (subsId s) (mx > 1 \<and> count > 1) ns)), pool)
      }
      else Some (built nd (wsman_generate_fault L fuuid rq WSMAN_TIMED_OUT WSMAN_DETAIL_OK None), pool))"

definition wsenum_pull_direct_stub ::
  "xmllib \<Rightarrow> ulong \<Rightarrow> bool \<Rightarrow> string \<Rightarrow> WsmanMessage \<Rightarrow> ep_fun \<Rightarrow> WsSubscribeInfo list \<Rightarrow> xdoc \<Rightarrow> nsdoc \<Rightarrow> ectx \<times> event_pool \<Rightarrow>
   (reply \<times> ectx \<times> event_pool) option" where
  "wsenum_pull_direct_stub L now mem fuuid msg ep subs rq nd cp = do {
     let (c, pool) = cp;
     (ei, st, c) \<leftarrow> get_locked_enuminfo L c rq msg WSENUM_PULL wsman_status_init;
     case ei of
       Some a \<Rightarrow> do {
         (rv, st, c) \<leftarrow> call_endpoint (Some ep) c a;
         (rep, removed, c) \<leftarrow> pull_end L now mem fuuid rq nd rv st c a;
         if removed then do { c \<leftarrow> destroy_enuminfo c a; Some (rep, c, pool) } else Some (rep, c, pool)
       }
     | None \<Rightarrow> do {
         subs \<leftarrow> search_pull_subs_info L subs rq;
         case subs of
           None \<Rightarrow> Some ((0, built nd (wsman_generate_fault L fuuid rq (fault_code st) (fault_detail_code st) None)), c, pool)
         | Some s \<Rightarrow> do {
             (d, pool) \<leftarrow> pull_notifications L fuuid rq nd s pool;
             Some ((0, d), c, pool)
           }
       }
   }"

section \<open>Expiry\<close>

definition enum_expired :: "ulong \<Rightarrow> ulong \<Rightarrow> WsEnumerateInfo \<Rightarrow> bool" where
  "enum_expired aeit mytime e \<longleftrightarrow>
     \<not> (timeStamp e + aeit > mytime \<and> (ei_expires e = 0 \<or> ei_expires e > mytime))"

text \<open>The loop of \<open>wsman_get_expired_enuminfos\<close>.  \<open>lm\<close>: whether the list can be created; \<open>nm\<close>: whether a node for
  a structure can be.  The list is \<open>None\<close> until it is created; \<open>list_destroy\<close> aborts when it is not empty.  The
  inner \<open>None\<close> is the null pointer returned.\<close>

partial_function (option) expired_loop ::
  "bool \<Rightarrow> (addr \<Rightarrow> bool) \<Rightarrow> ulong \<Rightarrow> ulong \<Rightarrow> (addr \<rightharpoonup> WsEnumerateInfo) \<Rightarrow> addr hash_t \<Rightarrow> hscan_t \<Rightarrow> addr list option \<Rightarrow>
   (addr list option \<times> addr hash_t) option" where
  "expired_loop lm nm aeit mytime hp h scan lst = do {
     (nodep, scan) \<leftarrow> hash_scan_next h scan;
     case nodep of
       None \<Rightarrow> Some (lst, h)
     | Some hn \<Rightarrow> do {
         e \<leftarrow> hp (hn_data hn);
         if in_work e \<or> \<not> enum_expired aeit mytime e then expired_loop lm nm aeit mytime hp h scan lst
         else if lst = None \<and> \<not> lm then Some (None, h)
         else do {
           (fs, h) \<leftarrow> hash_scan_delfree h hn;
           let l = (case lst of None \<Rightarrow> [] | Some l \<Rightarrow> l);
           if \<not> nm (hn_data hn) then do { c_assert (l = []); Some (None, h) }
           else expired_loop lm nm aeit mytime hp h scan (Some (l @ [hn_data hn]))
         }
       }
   }"

definition wsman_get_expired_enuminfos ::
  "bool \<Rightarrow> (addr \<Rightarrow> bool) \<Rightarrow> ulong \<Rightarrow> ectx \<Rightarrow> (addr list option \<times> ectx) option" where
  "wsman_get_expired_enuminfos lm nm mytime c =
     (if e_idle c = 0 then Some (None, c)
      else if ow_hash_isempty (e_table c) then Some (None, c)
      else do {
        (l, h) \<leftarrow> expired_loop lm nm (e_idle c) mytime (e_heap c) (e_table c)
                    (hash_scan_begin (e_table c) \<lparr>sc_chain = 0, sc_next = None\<rparr>) None;
        Some (l, c\<lparr>e_table := h\<rparr>)
      })"

text \<open>Releasing one structure: \<open>rel\<close> stands for the release functions of the plugins.\<close>

definition expire_one :: "(addr \<Rightarrow> ep_fun) \<Rightarrow> ectx \<Rightarrow> addr \<Rightarrow> ectx option" where
  "expire_one rel c a = do {
     e \<leftarrow> e_get c a;
     (rv, st, c) \<leftarrow> (case releaseproc e of None \<Rightarrow> Some (0, wsman_status_init, c) | Some f \<Rightarrow> call_endpoint (Some (rel f)) c a);
     destroy_enuminfo c a
   }"

fun expire_list :: "(addr \<Rightarrow> ep_fun) \<Rightarrow> addr list \<Rightarrow> ectx \<Rightarrow> ectx option" where
  "expire_list rel [] c = Some c"
| "expire_list rel (a # as) c = do { c \<leftarrow> expire_one rel c a; expire_list rel as c }"

definition wsman_timeouts_manager :: "bool \<Rightarrow> (addr \<Rightarrow> bool) \<Rightarrow> (addr \<Rightarrow> ep_fun) \<Rightarrow> ulong \<Rightarrow> ectx \<Rightarrow> ectx option" where
  "wsman_timeouts_manager lm nm rel mytime c = do {
     (l, c) \<leftarrow> wsman_get_expired_enuminfos lm nm mytime c;
     case l of None \<Rightarrow> Some c | Some as \<Rightarrow> expire_list rel as c
   }"

section \<open>Well-formed tables\<close>

text \<open>What is asked of a message and of a context on a server that authenticates its clients, or does not.\<close>

definition msg_ok :: "bool \<Rightarrow> WsmanMessage \<Rightarrow> bool" where
  "msg_ok auth msg \<longleftrightarrow> (msg_username msg \<noteq> None \<longleftrightarrow> auth) \<and> (msg_password msg \<noteq> None \<longleftrightarrow> auth)"

definition info_ok :: "bool \<Rightarrow> WsEnumerateInfo \<Rightarrow> bool" where
  "info_ok auth e \<longleftrightarrow> epr_to e \<noteq> None \<and> ei_epr_uri e \<noteq> None \<and> (auth \<longrightarrow> ei_username e \<noteq> None \<and> ei_password e \<noteq> None)"

text \<open>Every entry of the table points to an allocated structure with the id it is entered under, and no
  two structures have the same id.\<close>

definition einv :: "bool \<Rightarrow> ectx \<Rightarrow> bool" where
  "einv auth c \<longleftrightarrow> hash_ok (e_table c) \<and>
     (\<forall>k a. hash_map (e_table c) k = Some a \<longrightarrow> (\<exists>e. e_heap c a = Some e \<and> enumId e = k)) \<and>
     (\<forall>a e. e_heap c a = Some e \<longrightarrow> info_ok auth e) \<and>
     (\<forall>a b e f. e_heap c a = Some e \<longrightarrow> e_heap c b = Some f \<longrightarrow> enumId e = enumId f \<longrightarrow> a = b)"

definition in_table :: "ectx \<Rightarrow> addr \<Rightarrow> bool" where
  "in_table c a \<longleftrightarrow> a \<in> ran (hash_map (e_table c))"

lemma einvI:
  assumes "hash_ok (e_table c)" "\<And>k a. hash_map (e_table c) k = Some a \<Longrightarrow> \<exists>e. e_heap c a = Some e \<and> enumId e = k"
    and "\<And>a e. e_heap c a = Some e \<Longrightarrow> info_ok auth e"
    and "\<And>a b e f. e_heap c a = Some e \<Longrightarrow> e_heap c b = Some f \<Longrightarrow> enumId e = enumId f \<Longrightarrow> a = b"
  shows "einv auth c"
  using assms unfolding einv_def by blast

lemma einvD:
  assumes "einv auth c"
  shows "hash_ok (e_table c)" "hash_map (e_table c) k = Some a \<Longrightarrow> \<exists>e. e_heap c a = Some e \<and> enumId e = k"
    and "e_heap c a = Some e \<Longrightarrow> info_ok auth e"
    and "e_heap c a = Some e \<Longrightarrow> e_heap c b = Some f \<Longrightarrow> enumId e = enumId f \<Longrightarrow> a = b"
  using assms unfolding einv_def by blast+

lemma in_table_iff:
  assumes "einv auth c" "e_heap c a = Some e"
  shows "in_table c a \<longleftrightarrow> hash_map (e_table c) (enumId e) = Some a"
proof
  assume "in_table c a"
  then obtain k where "hash_map (e_table c) k = Some a"
    by (auto simp: in_table_def ran_def)
  then show "hash_map (e_table c) (enumId e) = Some a"
    using einvD(2) [OF assms(1)] assms(2) by fastforce
qed (auto simp: in_table_def ran_def)

lemma in_table_alloc: "einv auth c \<Longrightarrow> in_table c a \<Longrightarrow> e_heap c a \<noteq> None"
  using einvD(2) by (fastforce simp: in_table_def ran_def)

text \<open>Changing a structure without its id.\<close>

lemma einv_put:
  assumes inv: "einv auth c" and e: "e_heap c a = Some e" "enumId e' = enumId e" "info_ok auth e'"
  shows "einv auth (e_put c a e')" "in_table (e_put c a e') b \<longleftrightarrow> in_table c b"
proof -
  have same: "\<exists>g. e_heap c x = Some g \<and> enumId g = enumId f" if "e_heap (e_put c a e') x = Some f" for x f
    using that e(1,2) by (auto simp: e_put_def split: if_splits)
  show "einv auth (e_put c a e')"
  proof (rule einvI)
    show "hash_ok (e_table (e_put c a e'))"
      using einvD(1) [OF inv] by (simp add: e_put_def)
    show "\<exists>f. e_heap (e_put c a e') x = Some f \<and> enumId f = k" if m: "hash_map (e_table (e_put c a e')) k = Some x" for k x
    proof -
      obtain g where "e_heap c x = Some g" "enumId g = k"
        using einvD(2) [OF inv, of k x] m by (auto simp: e_put_def)
      then show ?thesis
        using e(1,2) by (auto simp: e_put_def)
    qed
    show "info_ok auth f" if "e_heap (e_put c a e') x = Some f" for x f
      using that einvD(3) [OF inv] e(3) by (auto simp: e_put_def split: if_splits)
    show "x = y" if h: "e_heap (e_put c a e') x = Some f" "e_heap (e_put c a e') y = Some g" "enumId f = enumId g" for x y f g
    proof -
      obtain f' g' where "e_heap c x = Some f'" "enumId f' = enumId f" "e_heap c y = Some g'" "enumId g' = enumId g"
        using same [OF h(1)] same [OF h(2)] by blast
      then show ?thesis
        using einvD(4) [OF inv] h(3) by metis
    qed
  qed
  show "in_table (e_put c a e') b \<longleftrightarrow> in_table c b"
    by (simp add: in_table_def e_put_def)
qed

text \<open>Releasing a structure that is not in the table.\<close>

lemma destroy_ok:
  assumes "einv auth c" "e_heap c a \<noteq> None" "\<not> in_table c a"
  shows "\<exists>c'. destroy_enuminfo c a = Some c' \<and> einv auth c' \<and> e_table c' = e_table c \<and>
    e_heap c' = (e_heap c)(a := None) \<and> e_idle c' = e_idle c"
proof -
  obtain e where e: "e_heap c a = Some e"
    using assms(2) by blast
  let ?c = "c\<lparr>e_heap := (e_heap c)(a := None)\<rparr>"
  have "einv auth ?c"
  proof (rule einvI)
    show "\<exists>f. e_heap ?c x = Some f \<and> enumId f = k" if "hash_map (e_table ?c) k = Some x" for k x
    proof -
      have "x \<noteq> a"
        using that assms(3) by (auto simp: in_table_def ran_def)
      then show ?thesis
        using that einvD(2) [OF assms(1), of k x] by simp
    qed
  qed (use einvD [OF assms(1)] in \<open>auto split: if_splits\<close>)
  then show ?thesis
    using e by (simp add: destroy_enuminfo_def e_get_def)
qed

section \<open>Reserving\<close>

lemma in_work_set: "in_work (e\<lparr>ei_flags := ei_flags e OR WSMAN_ENUMINFO_INWORK_FLAG\<rparr>)"
proof -
  have "(ei_flags e OR WSMAN_ENUMINFO_INWORK_FLAG) AND WSMAN_ENUMINFO_INWORK_FLAG = WSMAN_ENUMINFO_INWORK_FLAG"
    by (rule bit_eqI) (auto simp: bit_simps)
  then show ?thesis
    by (simp add: in_work_def WSMAN_ENUMINFO_INWORK_FLAG_def)
qed

lemma in_work_clear: "\<not> in_work (e\<lparr>ei_flags := ei_flags e AND NOT WSMAN_ENUMINFO_INWORK_FLAG, timeStamp := now\<rparr>)"
proof -
  have "(ei_flags e AND NOT WSMAN_ENUMINFO_INWORK_FLAG) AND WSMAN_ENUMINFO_INWORK_FLAG = 0"
    by (rule bit_eqI) (auto simp: bit_simps)
  then show ?thesis
    by (simp add: in_work_def)
qed

lemma verify_total:
  assumes "info_ok auth e" "msg_ok auth msg"
  shows "\<exists>ok st'. wsman_verify_enum_info L msg e rq st = Some (ok, st') \<and> (ok \<longrightarrow> st' = st) \<and> (\<not> ok \<longrightarrow> fault_code st' \<noteq> WSMAN_RC_OK)"
proof -
  have codes: "WSA_MESSAGE_INFORMATION_HEADER_REQUIRED \<noteq> WSMAN_RC_OK" "WSMAN_ACCESS_DENIED \<noteq> WSMAN_RC_OK" "WSMAN_INTERNAL_ERROR \<noteq> WSMAN_RC_OK"
    by simp_all
  show ?thesis
    using assms codes
    by (cases auth) (auto simp: wsman_verify_enum_info_def info_ok_def msg_ok_def Let_def split: option.splits)
qed

lemma get_locked_ok:
  assumes inv: "einv auth c" and msg: "msg_ok auth msg" and st: "fault_code st = WSMAN_RC_OK"
  shows "\<exists>r st' c'. get_locked_enuminfo L c rq msg action st = Some (r, st', c') \<and>
    (case r of
       None \<Rightarrow> c' = c \<and> fault_code st' \<noteq> WSMAN_RC_OK
     | Some a \<Rightarrow> \<exists>e. e_heap c a = Some e \<and> requested_enumId L rq action = Some (enumId e) \<and> in_table c a \<and> \<not> in_work e \<and>
                 c' = e_put c a (e\<lparr>ei_flags := ei_flags e OR WSMAN_ENUMINFO_INWORK_FLAG\<rparr>) \<and> st' = st)"
proof (cases "requested_enumId L rq action")
  case None
  then show ?thesis
    by (simp add: get_locked_enuminfo_def)
next
  case (Some eid)
  obtain hn where hn: "hash_lookup (e_table c) eid = Some hn" "map_option hn_data hn = hash_map (e_table c) eid"
    using hash_lookup_map [OF einvD(1) [OF inv], of eid] by auto
  show ?thesis
  proof (cases hn)
    case None
    then show ?thesis
      using Some hn by (simp add: get_locked_enuminfo_def)
  next
    case hnode: (Some n)
    then have map: "hash_map (e_table c) eid = Some (hn_data n)"
      using hn by simp
    then obtain e where e: "e_heap c (hn_data n) = Some e" "enumId e = eid"
      using einvD(2) [OF inv] by blast
    obtain ok st' where v: "wsman_verify_enum_info L msg e rq st = Some (ok, st')" "ok \<longrightarrow> st' = st" "\<not> ok \<longrightarrow> fault_code st' \<noteq> WSMAN_RC_OK"
      using verify_total [OF einvD(3) [OF inv e(1)] msg] by blast
    have tab: "in_table c (hn_data n)"
      using map by (auto simp: in_table_def ran_def)
    have conc: "WSMAN_CONCURRENCY \<noteq> WSMAN_RC_OK"
      by simp
    show ?thesis
    proof (cases "ok \<and> \<not> in_work e")
      case True
      then show ?thesis
        using Some hn(1) hnode e v st tab by (simp add: get_locked_enuminfo_def e_get_def Let_def)
    next
      case False
      then show ?thesis
        using Some hn(1) hnode e v st conc by (cases ok) (simp_all add: get_locked_enuminfo_def e_get_def Let_def)
    qed
  qed
qed

lemma unlock_ok:
  assumes inv: "einv auth c" and e: "e_heap c a = Some e"
  shows "\<exists>c' e'. unlock_enuminfo now c a = Some c' \<and> einv auth c' \<and> e_table c' = e_table c \<and> e_idle c' = e_idle c \<and>
    e_heap c' = (e_heap c)(a \<mapsto> e') \<and> enumId e' = enumId e \<and> \<not> in_work e'"
proof (cases "in_work e")
  case True
  let ?e = "e\<lparr>ei_flags := ei_flags e AND NOT WSMAN_ENUMINFO_INWORK_FLAG, timeStamp := now\<rparr>"
  have "info_ok auth ?e"
    using einvD(3) [OF inv e] by (simp add: info_ok_def)
  then have "einv auth (e_put c a ?e)"
    using einv_put(1) [OF inv e] by simp
  then show ?thesis
    using True e in_work_clear by (intro exI [of _ "e_put c a ?e"] exI [of _ ?e]) (simp add: unlock_enuminfo_def e_get_def e_put_def)
next
  case False
  then show ?thesis
    using inv e by (intro exI [of _ c] exI [of _ e]) (auto simp: unlock_enuminfo_def e_get_def)
qed

lemma remove_locked_ok:
  assumes inv: "einv auth c" and e: "e_heap c a = Some e" "in_work e" and tab: "in_table c a"
  shows "\<exists>c'. remove_locked_enuminfo mem c a = Some c' \<and> einv auth c' \<and> e_heap c' = e_heap c \<and> e_idle c' = e_idle c \<and>
    hash_map (e_table c') = (hash_map (e_table c))(enumId e := None) \<and> (\<forall>b. in_table c' b \<longleftrightarrow> in_table c b \<and> b \<noteq> a)"
proof -
  have map: "hash_map (e_table c) (enumId e) = Some a"
    using in_table_iff [OF inv e(1)] tab by simp
  obtain h where h: "hash_remove (0, mem) (e_table c) (enumId e) = Some h" "hash_ok h"
    "hash_map h = (hash_map (e_table c))(enumId e := None)"
    using hash_remove_ok [OF einvD(1) [OF inv], of "(0, mem)" "enumId e"] by blast
  then obtain hn fs where hn: "hash_lookup (e_table c) (enumId e) = Some hn" "hash_delete_free mem (e_table c) hn = Some (fs, h)"
    by (auto simp: hash_remove_def split: bind_splits)
  let ?c = "c\<lparr>e_table := h\<rparr>"
  have "einv auth ?c"
  proof (rule einvI)
    show "\<exists>f. e_heap ?c x = Some f \<and> enumId f = k" if "hash_map (e_table ?c) k = Some x" for k x
      using that h(3) einvD(2) [OF inv, of k x] by (simp split: if_splits)
    show "x = y" if "e_heap ?c x = Some f" "e_heap ?c y = Some g" "enumId f = enumId g" for x y f g
      using that einvD(4) [OF inv, of x f y g] by simp
  qed (use h(2) einvD(3) [OF inv] in simp_all)
  moreover have "in_table ?c b \<longleftrightarrow> in_table c b \<and> b \<noteq> a" for b
  proof -
    have key: "k = enumId e" if "hash_map (e_table c) k = Some a" for k
      using einvD(2) [OF inv that] e(1) by auto
    have "in_table ?c b \<longleftrightarrow> (\<exists>k. k \<noteq> enumId e \<and> hash_map (e_table c) k = Some b)"
      using h(3) by (auto simp: in_table_def ran_def)
    also have "\<dots> \<longleftrightarrow> (\<exists>k. hash_map (e_table c) k = Some b) \<and> b \<noteq> a"
      using key map by (metis option.inject)
    finally show ?thesis
      by (auto simp: in_table_def ran_def)
  qed
  moreover have "remove_locked_enuminfo mem c a = Some ?c"
    using e hn by (simp add: remove_locked_enuminfo_def e_get_def)
  ultimately show ?thesis
    using h(3) by auto
qed

text \<open>Inserting: the node and the key may fail to be allocated, then the table stays as it is.\<close>

definition entry_mem :: "ctx_mem \<Rightarrow> ectx \<Rightarrow> bool" where
  "entry_mem m c \<longleftrightarrow> cm_key m = False \<or> cm_node m = None \<or> hash_avail (the (cm_node m), cm_table m) (e_table c)"

lemma insert_ok:
  assumes inv: "einv auth c" and e: "e_heap c a = Some e" and new: "\<not> in_table c a" and mem: "entry_mem m c"
  shows "\<exists>r c'. insert_enum_info now m c a = Some (r, c') \<and> einv auth c' \<and> e_heap c' = (e_heap c)(a \<mapsto> e\<lparr>timeStamp := now\<rparr>) \<and>
    e_idle c' = e_idle c \<and> (\<forall>b. in_table c' b \<longleftrightarrow> in_table c b \<or> b = a \<and> r = 0) \<and>
    (cm_key m \<and> cm_node m \<noteq> None \<longrightarrow> r = 0)"
proof -
  let ?c = "e_put c a (e\<lparr>timeStamp := now\<rparr>)"
  have info: "info_ok auth (e\<lparr>timeStamp := now\<rparr>)"
    using einvD(3) [OF inv e] by (simp add: info_ok_def)
  have inv': "einv auth ?c"
    using einv_put(1) [OF inv e _ info] by simp
  have t: "e_table ?c = e_table c" "e_heap ?c = (e_heap c)(a \<mapsto> e\<lparr>timeStamp := now\<rparr>)" "e_idle ?c = e_idle c"
    by (simp_all add: e_put_def)
  have free: "hash_map (e_table c) (enumId e) = None"
  proof (cases "hash_map (e_table c) (enumId e)")
    case (Some b)
    then obtain f where "e_heap c b = Some f" "enumId f = enumId e"
      using einvD(2) [OF inv] by blast
    then have "b = a"
      using einvD(4) [OF inv _ e] by blast
    then show ?thesis
      using Some new by (auto simp: in_table_def ran_def)
  qed
  show ?thesis
  proof (cases "cm_key m \<and> cm_node m \<noteq> None")
    case False
    then have "create_context_entry (cm_key m) (cm_node m) (cm_table m) (e_table c) (enumId e) a = Some (None, e_table c)"
      by (auto simp: create_context_entry_def split: option.splits)
    then have "insert_enum_info now m c a = Some (1, ?c)"
      using e t(1) by (simp add: insert_enum_info_def e_get_def)
    then show ?thesis
      using inv' t False by (auto simp: in_table_def)
  next
    case True
    then obtain x where x: "cm_node m = Some x" "cm_key m" "hash_avail (x, cm_table m) (e_table c)"
      using mem by (auto simp: entry_mem_def)
    obtain h where h: "create_context_entry True (Some x) (cm_table m) (e_table c) (enumId e) a = Some (Some x, h)"
      "hash_ok h" "hash_map h = (hash_map (e_table c))(enumId e \<mapsto> a)"
      using create_context_entry_ok [OF einvD(1) [OF inv] x(3) free] by blast
    have "insert_enum_info now m c a = Some (0, ?c\<lparr>e_table := h\<rparr>)"
      using e t(1) x h(1) by (simp add: insert_enum_info_def e_get_def)
    moreover have "einv auth (?c\<lparr>e_table := h\<rparr>)"
    proof (rule einvI)
      show "\<exists>f. e_heap (?c\<lparr>e_table := h\<rparr>) b = Some f \<and> enumId f = k" if "hash_map (e_table (?c\<lparr>e_table := h\<rparr>)) k = Some b" for k b
        using that h(3) einvD(2) [OF inv', of k b] t by (auto split: if_splits)
      show "hash_ok (e_table (?c\<lparr>e_table := h\<rparr>))"
        using h(2) by simp
      show "info_ok auth f" if "e_heap (?c\<lparr>e_table := h\<rparr>) b = Some f" for b f
        using that einvD(3) [OF inv', of b f] by simp
      show "x = y" if "e_heap (?c\<lparr>e_table := h\<rparr>) x = Some f" "e_heap (?c\<lparr>e_table := h\<rparr>) y = Some g" "enumId f = enumId g" for x y f g
        using that einvD(4) [OF inv', of x f y g] by simp
    qed
    moreover have "in_table (?c\<lparr>e_table := h\<rparr>) b \<longleftrightarrow> in_table c b \<or> b = a" for b
      using h(3) free ran_map_upd [of "hash_map (e_table c)" "enumId e" a] by (auto simp: in_table_def)
    ultimately show ?thesis
      using t by auto
  qed
qed

text \<open>What is asked of the functions of the plugins: they leave alone the id, the flag, the addresses and
  the credentials.\<close>

definition ep_ok :: "ep_fun \<Rightarrow> bool" where
  "ep_ok f \<longleftrightarrow> (\<forall>e st rv e' st'. f e st = (rv, e', st') \<longrightarrow> enumId e' = enumId e \<and> in_work e' = in_work e \<and>
     epr_to e' = epr_to e \<and> ei_epr_uri e' = ei_epr_uri e \<and> ei_username e' = ei_username e \<and> ei_password e' = ei_password e)"

lemma call_endpoint_ok:
  assumes inv: "einv auth c" and e: "e_heap c a = Some e" and ep: "\<And>f. ep = Some f \<Longrightarrow> ep_ok f"
  shows "\<exists>rv st c' e'. call_endpoint ep c a = Some (rv, st, c') \<and> einv auth c' \<and> e_table c' = e_table c \<and> e_idle c' = e_idle c \<and>
    e_heap c' = (e_heap c)(a \<mapsto> e') \<and> enumId e' = enumId e \<and> in_work e' = in_work e"
proof (cases ep)
  case None
  then show ?thesis
    using inv e by (intro exI [of _ 0] exI [of _ wsman_status_init] exI [of _ c] exI [of _ e])
      (auto simp: call_endpoint_def e_get_def)
next
  case (Some f)
  obtain rv e' st where f: "f e wsman_status_init = (rv, e', st)"
    by (cases "f e wsman_status_init")
  have keep: "enumId e' = enumId e" "in_work e' = in_work e" "epr_to e' = epr_to e" "ei_epr_uri e' = ei_epr_uri e"
    "ei_username e' = ei_username e" "ei_password e' = ei_password e"
    using ep [OF Some] f unfolding ep_ok_def by blast+
  then have k: "enumId e' = enumId e" "in_work e' = in_work e" "info_ok auth e'"
    using einvD(3) [OF inv e] by (simp_all add: info_ok_def)
  have "einv auth (e_put c a e')"
    using einv_put(1) [OF inv e k(1,3)] .
  then show ?thesis
    using Some f e k by (intro exI [of _ rv] exI [of _ st] exI [of _ "e_put c a e'"] exI [of _ e'])
      (simp add: call_endpoint_def e_get_def e_put_def)
qed

section \<open>Expiry removes what has expired\<close>

definition node_expired :: "ulong \<Rightarrow> ulong \<Rightarrow> (addr \<rightharpoonup> WsEnumerateInfo) \<Rightarrow> addr hnode \<Rightarrow> bool" where
  "node_expired aeit now hp n = (case hp (hn_data n) of None \<Rightarrow> False | Some e \<Rightarrow> \<not> in_work e \<and> enum_expired aeit now e)"

lemma expired_loop_at:
  assumes "hash_ok h" "scan_at h scan rem" "set rem \<subseteq> set (hash_nodes h)" "distinct rem"
    and "\<forall>n \<in> set rem. hp (hn_data n) \<noteq> None"
  shows "\<exists>h'. expired_loop True (\<lambda>_. True) aeit now hp h scan lst =
      Some (if filter (node_expired aeit now hp) rem = [] then lst
            else Some ((case lst of None \<Rightarrow> [] | Some l \<Rightarrow> l) @ map hn_data (filter (node_expired aeit now hp) rem)), h') \<and>
    hash_ok h' \<and> mset (hash_nodes h) = mset (hash_nodes h') + mset (filter (node_expired aeit now hp) rem)"
  using assms
proof (induction rem arbitrary: h scan lst)
  case Nil
  then show ?case
    by (subst expired_loop.simps) (simp add: hash_scan_next_def)
next
  case (Cons n rem)
  obtain scan' where s: "hash_scan_next h scan = Some (Some n, scan')" "scan_at h scan' rem"
    using hash_scan_next_at [OF Cons.prems(1,2)] by blast
  obtain e where e: "hp (hn_data n) = Some e"
    using Cons.prems(5) by auto
  have rest: "set rem \<subseteq> set (hash_nodes h)" "distinct rem" "\<forall>n \<in> set rem. hp (hn_data n) \<noteq> None"
    using Cons.prems by auto
  show ?case
  proof (cases "in_work e \<or> \<not> enum_expired aeit now e")
    case True
    then have "\<not> node_expired aeit now hp n"
      using e by (auto simp: node_expired_def)
    moreover from this have "filter (node_expired aeit now hp) (n # rem) = filter (node_expired aeit now hp) rem"
      by simp
    moreover have "expired_loop True (\<lambda>_. True) aeit now hp h scan lst = expired_loop True (\<lambda>_. True) aeit now hp h scan' lst"
      using s(1) e True by (subst expired_loop.simps) simp
    ultimately show ?thesis
      using Cons.IH [OF Cons.prems(1) s(2) rest, of lst] by (simp only:)
  next
    case False
    then have x: "node_expired aeit now hp n"
      using e by (simp add: node_expired_def)
    have n: "n \<in> set (hash_nodes h)" "n \<notin> set rem"
      using Cons.prems by auto
    obtain h1 where h1: "hash_scan_delete h n = Some h1" "hash_ok h1" "mset (hash_nodes h) = add_mset n (mset (hash_nodes h1))"
      using hash_scan_delete_ok [OF Cons.prems(1) n(1)] by blast
    have "set (hash_nodes h) = insert n (set (hash_nodes h1))"
      using arg_cong [OF h1(3), of set_mset] by simp
    then have sub: "set rem \<subseteq> set (hash_nodes h1)"
      using rest(1) n(2) by auto
    have step: "expired_loop True (\<lambda>_. True) aeit now hp h scan lst =
        expired_loop True (\<lambda>_. True) aeit now hp h1 scan' (Some ((case lst of None \<Rightarrow> [] | Some l \<Rightarrow> l) @ [hn_data n]))"
      using s(1) e False h1(1) by (subst expired_loop.simps) (simp add: hash_scan_delfree_def)
    show ?thesis
      using Cons.IH [OF h1(2) scan_at_delete [OF Cons.prems(1) n h1(1) s(2)] sub rest(2,3),
          of "Some ((case lst of None \<Rightarrow> [] | Some l \<Rightarrow> l) @ [hn_data n])"] x h1(3)
      unfolding step by auto
  qed
qed

lemma in_table_nodes: "hash_ok (e_table c) \<Longrightarrow> in_table c a \<longleftrightarrow> a \<in> hn_data ` set (hash_nodes (e_table c))"
  using hash_map_Some [of "e_table c"] by (auto simp: in_table_def ran_def hash_ok_def)

lemma nodes_alloc:
  assumes inv: "einv auth c" and n: "n \<in> set (hash_nodes (e_table c))"
  shows "\<exists>e. e_heap c (hn_data n) = Some e \<and> enumId e = hn_key n"
proof (rule einvD(2) [OF inv])
  show "hash_map (e_table c) (hn_key n) = Some (hn_data n)"
    using hash_map_Some [of "e_table c"] einvD(1) [OF inv] n by (auto simp: hash_ok_def)
qed

lemma nodes_distinct:
  assumes inv: "einv auth c"
  shows "distinct (map hn_data (hash_nodes (e_table c)))" "distinct (hash_nodes (e_table c))"
proof -
  have d: "distinct (map hn_key (hash_nodes (e_table c)))"
    using einvD(1) [OF inv] by (simp add: hash_ok_def hash_content_def)
  then show "distinct (hash_nodes (e_table c))"
    by (simp add: distinct_map)
  moreover have "inj_on hn_data (set (hash_nodes (e_table c)))"
  proof (rule inj_onI)
    fix m n
    assume mn: "m \<in> set (hash_nodes (e_table c))" "n \<in> set (hash_nodes (e_table c))" "hn_data m = hn_data n"
    then have "hn_key m = hn_key n"
      using nodes_alloc [OF inv mn(1)] nodes_alloc [OF inv mn(2)] by auto
    then show "m = n"
      using d mn(1,2) by (simp add: distinct_map inj_on_def)
  qed
  ultimately show "distinct (map hn_data (hash_nodes (e_table c)))"
    by (simp add: distinct_map)
qed

lemma expired_loop_nolist:
  assumes "hash_ok h" "scan_at h scan rem" "\<forall>n \<in> set rem. hp (hn_data n) \<noteq> None"
  shows "expired_loop False nm aeit now hp h scan None = Some (None, h)"
  using assms
proof (induction rem arbitrary: scan)
  case Nil
  then show ?case
    by (subst expired_loop.simps) (simp add: hash_scan_next_def)
next
  case (Cons n rem)
  obtain scan' where s: "hash_scan_next h scan = Some (Some n, scan')" "scan_at h scan' rem"
    using hash_scan_next_at [OF Cons.prems(1,2)] by blast
  obtain e where e: "hp (hn_data n) = Some e"
    using Cons.prems(3) by auto
  show ?case
    using Cons.IH [OF Cons.prems(1) s(2)] Cons.prems(3) s(1) e by (subst expired_loop.simps) simp
qed

definition expired_in :: "ulong \<Rightarrow> ectx \<Rightarrow> addr \<Rightarrow> bool" where
  "expired_in now c a \<longleftrightarrow> in_table c a \<and> (\<exists>e. e_heap c a = Some e \<and> \<not> in_work e \<and> enum_expired (e_idle c) now e)"

lemma get_expired_ok:
  assumes inv: "einv auth c"
  shows "\<exists>l c'. wsman_get_expired_enuminfos lm (\<lambda>_. True) now c = Some (l, c') \<and> einv auth c' \<and> e_heap c' = e_heap c \<and>
    e_idle c' = e_idle c \<and> distinct (case l of None \<Rightarrow> [] | Some as \<Rightarrow> as) \<and>
    (\<forall>a. a \<in> set (case l of None \<Rightarrow> [] | Some as \<Rightarrow> as) \<longleftrightarrow> lm \<and> e_idle c \<noteq> 0 \<and> expired_in now c a) \<and>
    (\<forall>b. in_table c' b \<longleftrightarrow> in_table c b \<and> b \<notin> set (case l of None \<Rightarrow> [] | Some as \<Rightarrow> as))"
proof -
  let ?h = "e_table c" and ?ns = "hash_nodes (e_table c)"
  let ?x = "node_expired (e_idle c) now (e_heap c)"
  have ok: "hash_ok ?h"
    by (rule einvD(1) [OF inv])
  have alloc: "\<forall>n \<in> set ?ns. e_heap c (hn_data n) \<noteq> None"
    using nodes_alloc [OF inv] by auto
  have exp: "expired_in now c a \<longleftrightarrow> a \<in> hn_data ` set (filter ?x ?ns)" for a
    using in_table_nodes [OF ok] by (auto simp: expired_in_def node_expired_def split: option.splits)
  let ?scan = "hash_scan_begin ?h \<lparr>sc_chain = 0, sc_next = None\<rparr>"
  consider "e_idle c = 0" | "e_idle c \<noteq> 0" "ow_hash_isempty ?h" | "e_idle c \<noteq> 0" "\<not> ow_hash_isempty ?h" "\<not> lm"
    | "e_idle c \<noteq> 0" "\<not> ow_hash_isempty ?h" lm
    by blast
  then show ?thesis
  proof cases
    case 1
    then show ?thesis
      using inv by (simp add: wsman_get_expired_enuminfos_def)
  next
    case 2
    then have "?ns = []"
      using ok by (simp add: ow_hash_isempty_def hash_ok_def hash_content_def)
    then show ?thesis
      using 2 inv exp by (simp add: wsman_get_expired_enuminfos_def)
  next
    case 3
    then have "expired_loop lm (\<lambda>_. True) (e_idle c) now (e_heap c) ?h ?scan None = Some (None, ?h)"
      using expired_loop_nolist [OF ok hash_scan_begin_at alloc] by simp
    then show ?thesis
      using 3 inv by (simp add: wsman_get_expired_enuminfos_def)
  next
    case 4
    obtain h' where h': "expired_loop True (\<lambda>_. True) (e_idle c) now (e_heap c) ?h ?scan None =
        Some (if filter ?x ?ns = [] then None else Some (map hn_data (filter ?x ?ns)), h')" "hash_ok h'"
        "mset ?ns = mset (hash_nodes h') + mset (filter ?x ?ns)"
      using expired_loop_at [OF ok hash_scan_begin_at order_refl nodes_distinct(2) [OF inv] alloc, of "e_idle c" now "\<lparr>sc_chain = 0, sc_next = None\<rparr>" None]
      by auto
    define l where "l = (if filter ?x ?ns = [] then None else Some (map hn_data (filter ?x ?ns)))"
    have l: "(case l of None \<Rightarrow> [] | Some as \<Rightarrow> as) = map hn_data (filter ?x ?ns)"
      by (simp add: l_def)
    let ?c = "c\<lparr>e_table := h'\<rparr>"
    have "mset ?ns = mset (filter (\<lambda>n. \<not> ?x n) ?ns) + mset (filter ?x ?ns)"
      using multiset_partition [of "mset ?ns" ?x] unfolding mset_filter [symmetric] by (simp only: add.commute)
    then have "mset (hash_nodes h') = mset (filter (\<lambda>n. \<not> ?x n) ?ns)"
      using h'(3) by (metis add_right_cancel)
    then have rest: "set (hash_nodes h') = {n \<in> set ?ns. \<not> ?x n}"
      by (metis mset_eq_setD set_filter)
    have "einv auth ?c"
    proof (rule einvI)
      show "\<exists>e. e_heap ?c a = Some e \<and> enumId e = k" if "hash_map (e_table ?c) k = Some a" for k a
      proof -
        obtain n where "n \<in> set ?ns" "hn_key n = k" "hn_data n = a"
          using \<open>hash_map (e_table ?c) k = Some a\<close> hash_map_Some [of h'] h'(2) rest by (auto simp: hash_ok_def)
        then show ?thesis
          using nodes_alloc [OF inv] by auto
      qed
    qed (use h'(2) einvD(3,4) [OF inv] in simp_all)
    moreover have "in_table ?c b \<longleftrightarrow> in_table c b \<and> b \<notin> hn_data ` set (filter ?x ?ns)" for b
    proof -
      have inj: "m = n" if "m \<in> set ?ns" "n \<in> set ?ns" "hn_data m = hn_data n" for m n
        using that nodes_distinct(1) [OF inv] by (auto simp: distinct_map inj_on_def)
      have "in_table ?c b \<longleftrightarrow> (\<exists>n \<in> set ?ns. hn_data n = b \<and> \<not> ?x n)"
        using in_table_nodes [of ?c b] h'(2) rest by auto
      also have "\<dots> \<longleftrightarrow> (\<exists>n \<in> set ?ns. hn_data n = b) \<and> \<not> (\<exists>n \<in> set ?ns. hn_data n = b \<and> ?x n)"
        using inj by metis
      also have "(\<exists>n \<in> set ?ns. hn_data n = b) \<longleftrightarrow> in_table c b"
        using in_table_nodes [OF ok, of b] by blast
      also have "(\<exists>n \<in> set ?ns. hn_data n = b \<and> ?x n) \<longleftrightarrow> b \<in> hn_data ` set (filter ?x ?ns)"
        by auto
      finally show ?thesis .
    qed
    moreover have "distinct (map hn_data (filter ?x ?ns))"
      using nodes_distinct(1) [OF inv] by (simp add: distinct_map_filter)
    moreover have "wsman_get_expired_enuminfos lm (\<lambda>_. True) now c = Some (l, ?c)"
      using 4 h'(1) by (simp add: wsman_get_expired_enuminfos_def l_def)
    ultimately show ?thesis
      using 4 exp l by (intro exI [of _ l] exI [of _ ?c]) simp
  qed
qed

lemma expire_one_ok:
  assumes inv: "einv auth c" and e: "e_heap c a \<noteq> None" and tab: "\<not> in_table c a" and rel: "\<forall>f. ep_ok (rel f)"
  shows "\<exists>c'. expire_one rel c a = Some c' \<and> einv auth c' \<and> e_table c' = e_table c \<and> e_heap c' = (e_heap c)(a := None) \<and>
    e_idle c' = e_idle c"
proof -
  obtain e where e: "e_heap c a = Some e"
    using e by blast
  obtain rv st c1 e' where c1: "(case releaseproc e of None \<Rightarrow> Some (0, wsman_status_init, c)
      | Some f \<Rightarrow> call_endpoint (Some (rel f)) c a) = Some (rv, st, c1)"
    "einv auth c1" "e_table c1 = e_table c" "e_idle c1 = e_idle c" "e_heap c1 = (e_heap c)(a \<mapsto> e')"
  proof (cases "releaseproc e")
    case None
    then show thesis
      using that [of 0 wsman_status_init c e] inv e by (simp add: fun_upd_idem)
  next
    case (Some f)
    then show thesis
      using call_endpoint_ok [OF inv e, of "Some (rel f)"] rel that by auto
  qed
  then obtain c' where "destroy_enuminfo c1 a = Some c'" "einv auth c'" "e_table c' = e_table c1" "e_heap c' = (e_heap c1)(a := None)"
    "e_idle c' = e_idle c1"
    using destroy_ok [OF c1(2), of a] tab by (auto simp: in_table_def)
  then show ?thesis
    using e c1 by (auto simp: expire_one_def e_get_def)
qed

lemma expire_list_ok:
  assumes "einv auth c" "distinct as" "\<forall>a \<in> set as. e_heap c a \<noteq> None \<and> \<not> in_table c a" "\<forall>f. ep_ok (rel f)"
  shows "\<exists>c'. expire_list rel as c = Some c' \<and> einv auth c' \<and> e_table c' = e_table c \<and> e_heap c' = e_heap c |` (- set as) \<and>
    e_idle c' = e_idle c"
  using assms(1-3)
proof (induction as arbitrary: c)
  case Nil
  then show ?case
    by simp
next
  case (Cons a as)
  obtain c1 where c1: "expire_one rel c a = Some c1" "einv auth c1" "e_table c1 = e_table c" "e_heap c1 = (e_heap c)(a := None)"
    "e_idle c1 = e_idle c"
    using expire_one_ok [OF Cons.prems(1) _ _ assms(4), of a] Cons.prems(3) by auto
  have "\<forall>b \<in> set as. e_heap c1 b \<noteq> None \<and> \<not> in_table c1 b"
    using Cons.prems(2,3) c1(3,4) by (auto simp: in_table_def)
  from Cons.IH [OF c1(2) _ this] Cons.prems(2) obtain c' where
    "expire_list rel as c1 = Some c'" "einv auth c'" "e_table c' = e_table c1" "e_heap c' = e_heap c1 |` (- set as)" "e_idle c' = e_idle c1"
    by auto
  moreover have "(e_heap c)(a := None) |` (- set as) = e_heap c |` (- set (a # as))"
    by (auto simp: restrict_map_def)
  ultimately show ?case
    using c1 by auto
qed

section \<open>Pulling to the end\<close>

text \<open>The same pull request, sent \<open>n\<close> times.\<close>

fun pull_times ::
  "nat \<Rightarrow> xmllib \<Rightarrow> ulong \<Rightarrow> bool \<Rightarrow> string \<Rightarrow> WsmanMessage \<Rightarrow> ep_fun \<Rightarrow> WsSubscribeInfo list \<Rightarrow> xdoc \<Rightarrow> nsdoc \<Rightarrow> ectx \<times> event_pool \<Rightarrow>
   (reply list \<times> ectx \<times> event_pool) option" where
  "pull_times 0 L now mem fuuid msg ep subs rq nd cp = Some ([], cp)"
| "pull_times (Suc n) L now mem fuuid msg ep subs rq nd cp = do {
     (rep, cp) \<leftarrow> wsenum_pull_direct_stub L now mem fuuid msg ep subs rq nd cp;
     (reps, cp) \<leftarrow> pull_times n L now mem fuuid msg ep subs rq nd cp;
     Some (rep # reps, cp)
   }"

text \<open>A plugin that has a page of results for every pull: a document with a \<open>PullResponse\<close> that has \<open>Items\<close>.\<close>

definition has_items :: "xnode \<Rightarrow> bool" where
  "has_items d \<longleftrightarrow>
     ws_xml_get_child (ws_xml_get_child (ws_xml_get_soap_body (Some d)) 0 (Some XML_NS_ENUMERATION) (Some WSENUM_PULL_RESP))
       0 (Some XML_NS_ENUMERATION) (Some WSENUM_ITEMS) \<noteq> None"

definition pages_ep :: "(WsEnumerateInfo \<Rightarrow> xnode) \<Rightarrow> ep_fun" where
  "pages_ep page e st = (0, e\<lparr>pullResultPtr := Some (page e)\<rparr>, st)"

lemma ep_ok_pages: "ep_ok (pages_ep page)"
  by (simp add: ep_ok_def pages_ep_def in_work_def)

text \<open>The context \<open>e\<close> at \<open>a\<close> may be pulled by the request.\<close>

definition pullable :: "xmllib \<Rightarrow> bool \<Rightarrow> WsmanMessage \<Rightarrow> xdoc \<Rightarrow> ectx \<Rightarrow> addr \<Rightarrow> WsEnumerateInfo \<Rightarrow> bool" where
  "pullable L auth msg rq c a e \<longleftrightarrow> einv auth c \<and> in_table c a \<and> e_heap c a = Some e \<and> \<not> in_work e \<and>
     requested_enumId L rq WSENUM_PULL = Some (enumId e) \<and>
     wsman_verify_enum_info L msg e rq wsman_status_init = Some (True, wsman_status_init)"

lemma verify_cong:
  assumes "epr_to e' = epr_to e" "ei_epr_uri e' = ei_epr_uri e" "ei_username e' = ei_username e" "ei_password e' = ei_password e"
  shows "wsman_verify_enum_info L msg e' rq st = wsman_verify_enum_info L msg e rq st"
  unfolding wsman_verify_enum_info_def assms ..

lemma pull_once:
  assumes pl: "pullable L auth msg rq c a e" and page: "\<And>e. has_items (page e)"
    and tot: "ws_xml_get_child (ws_xml_get_soap_header rq) 0 (Some XML_NS_WS_MAN) (Some WSM_REQUEST_TOTAL) = None"
  shows "\<exists>d c' e'. wsenum_pull_direct_stub L now mem fuuid msg (pages_ep page) subs rq nd (c, pool) = Some ((0, Some d), c', pool) \<and>
    einv auth c' \<and>
    (if enum_finished (e\<lparr>ei_index := ei_index e + 1\<rparr>) then
       hash_map (e_table c') = (hash_map (e_table c))(enumId e := None) \<and> e_heap c' = (e_heap c)(a := None)
     else e_table c' = e_table c \<and> e_heap c' = (e_heap c)(a \<mapsto> e') \<and> pullable L auth msg rq c' a e' \<and>
       totalItems e' = totalItems e \<and> ei_index e' = ei_index e + 1 \<and> enumId e' = enumId e)"
proof -
  have inv: "einv auth c" and tab: "in_table c a" and e: "e_heap c a = Some e" and nw: "\<not> in_work e"
    and req: "requested_enumId L rq WSENUM_PULL = Some (enumId e)"
    and ver: "wsman_verify_enum_info L msg e rq wsman_status_init = Some (True, wsman_status_init)"
    using pl by (simp_all add: pullable_def)
  have map: "hash_map (e_table c) (enumId e) = Some a"
    using in_table_iff [OF inv e] tab by simp
  then obtain n where n: "hash_lookup (e_table c) (enumId e) = Some (Some n)" "hn_data n = a"
    using hash_lookup_map [OF einvD(1) [OF inv], of "enumId e"] by auto
  let ?e1 = "e\<lparr>ei_flags := ei_flags e OR WSMAN_ENUMINFO_INWORK_FLAG\<rparr>"
  have st: "fault_code wsman_status_init = WSMAN_RC_OK"
    by (simp add: wsman_status_init_def)
  have lock: "get_locked_enuminfo L c rq msg WSENUM_PULL wsman_status_init = Some (Some a, wsman_status_init, e_put c a ?e1)"
    using req n e nw ver st by (simp add: get_locked_enuminfo_def e_get_def Let_def)
  define e2 where "e2 = ?e1\<lparr>pullResultPtr := Some (page ?e1), ei_index := ei_index e + 1\<rparr>"
  have e2: "enumId e2 = enumId e" "info_ok auth e2" "in_work e2" "pullResultPtr e2 = Some (page ?e1)" "ei_index e2 = ei_index e + 1"
    "totalItems e2 = totalItems e"
    using einvD(3) [OF inv e] in_work_set [of e] by (simp_all add: e2_def info_ok_def in_work_def)
  define c2 where "c2 = e_put c a e2"
  have c2: "einv auth c2" "e_heap c2 a = Some e2" "in_table c2 a" "e_table c2 = e_table c"
    using einv_put [OF inv e e2(1,2)] tab by (simp_all add: c2_def e_put_def)
  have fin: "enum_finished e2 \<longleftrightarrow> enum_finished (e\<lparr>ei_index := ei_index e + 1\<rparr>)"
    using e2 by (simp add: enum_finished_def)
  have call: "call_endpoint (Some (pages_ep page)) (e_put c a ?e1) a = Some (0, wsman_status_init, e_put c a (?e1\<lparr>pullResultPtr := Some (page ?e1)\<rparr>))"
    by (simp add: call_endpoint_def e_get_def e_put_def pages_ep_def)
  have put: "e_put (e_put c a (?e1\<lparr>pullResultPtr := Some (page ?e1)\<rparr>)) a e2 = c2"
    by (simp add: c2_def e_put_def)
  have total: "built nd (wsman_set_estimated_total L rq (Some (page ?e1)) e2) = Some (page ?e1)"
    using tot by (simp add: built_def wsman_set_estimated_total_def)
  obtain it where items: "ws_xml_get_child (ws_xml_get_child (ws_xml_get_soap_body (Some (page ?e1))) 0
      (Some XML_NS_ENUMERATION) (Some WSENUM_PULL_RESP)) 0 (Some XML_NS_ENUMERATION) (Some WSENUM_ITEMS) = Some it"
    using page [of ?e1] by (auto simp: has_items_def)
  let ?d = "built nd (pull_response L e2 (page ?e1))"
  let ?fin = "if enum_finished e2 then do { c \<leftarrow> remove_locked_enuminfo mem c2 a; Some ((0, Some ?d), True, c) }
      else do { c \<leftarrow> unlock_enuminfo now c2 a; Some ((0, Some ?d), False, c) }"
  have pend: "pull_end L now mem fuuid rq nd 0 wsman_status_init (e_put c a (?e1\<lparr>pullResultPtr := Some (page ?e1)\<rparr>)) a = ?fin"
  proof -
    have "e_get (e_put c a (?e1\<lparr>pullResultPtr := Some (page ?e1)\<rparr>)) a = Some (?e1\<lparr>pullResultPtr := Some (page ?e1)\<rparr>)"
      by (simp add: e_get_def e_put_def)
    moreover have "?e1\<lparr>pullResultPtr := Some (page ?e1), ei_index := ei_index (?e1\<lparr>pullResultPtr := Some (page ?e1)\<rparr>) + 1\<rparr> = e2"
      by (simp add: e2_def)
    ultimately show ?thesis
      using put total items e2(4) by (simp add: pull_end_def Let_def)
  qed
  show ?thesis
  proof (cases "enum_finished e2")
    case True
    obtain c3 where c3: "remove_locked_enuminfo mem c2 a = Some c3" "einv auth c3" "e_heap c3 = e_heap c2"
      "hash_map (e_table c3) = (hash_map (e_table c2))(enumId e2 := None)" "\<forall>b. in_table c3 b \<longleftrightarrow> in_table c2 b \<and> b \<noteq> a"
      using remove_locked_ok [OF c2(1,2) e2(3) c2(3), of mem] by blast
    obtain c4 where c4: "destroy_enuminfo c3 a = Some c4" "einv auth c4" "e_table c4 = e_table c3" "e_heap c4 = (e_heap c3)(a := None)"
      using destroy_ok [OF c3(2), of a] c3(3,5) c2(2) by auto
    have "e_heap c4 = (e_heap c)(a := None)"
      using c4(4) c3(3) by (simp add: c2_def e_put_def)
    then show ?thesis
      using lock call pend True c3 c4 c2(4) e2(1) fin
      by (simp add: wsenum_pull_direct_stub_def)
  next
    case False
    let ?e3 = "e2\<lparr>ei_flags := ei_flags e2 AND NOT WSMAN_ENUMINFO_INWORK_FLAG, timeStamp := now\<rparr>"
    have i3: "info_ok auth ?e3"
      using e2(2) by (simp add: info_ok_def)
    have unl: "unlock_enuminfo now c2 a = Some (e_put c2 a ?e3)"
      using c2(2) e2(3) by (simp add: unlock_enuminfo_def e_get_def)
    have c3: "einv auth (e_put c2 a ?e3)" "in_table (e_put c2 a ?e3) a" "e_heap (e_put c2 a ?e3) = (e_heap c)(a \<mapsto> ?e3)"
      "e_table (e_put c2 a ?e3) = e_table c"
      using einv_put [OF c2(1,2) _ i3] c2 by (simp_all add: e_put_def c2_def)
    have "wsman_verify_enum_info L msg ?e3 rq wsman_status_init = Some (True, wsman_status_init)"
      using ver by (subst verify_cong [of _ e]) (simp_all add: e2_def)
    then have "pullable L auth msg rq (e_put c2 a ?e3) a ?e3"
      using c3 req e2(1) in_work_clear [where e = e2 and now = now] by (simp add: pullable_def)
    then show ?thesis
      using lock call pend False unl c3 e2 fin
      by (intro exI [of _ ?d] exI [of _ "e_put c2 a ?e3"] exI [of _ ?e3]) (simp add: wsenum_pull_direct_stub_def)
  qed
qed

lemma word_less_2p: "unat (w :: 32 word) < 2 ^ 32"
  using unsigned_less [of w, where ?'a = nat] by simp

lemma pull_many:
  assumes "pullable L auth msg rq c a e" and page: "\<And>e. has_items (page e)"
    and tot: "ws_xml_get_child (ws_xml_get_soap_header rq) 0 (Some XML_NS_WS_MAN) (Some WSM_REQUEST_TOTAL) = None"
    and "unat (ei_index e) + Suc n = unat (totalItems e)"
  shows "\<exists>reps c'. pull_times (Suc n) L now mem fuuid msg (pages_ep page) subs rq nd (c, pool) = Some (reps, c', pool) \<and>
    length reps = Suc n \<and> (\<forall>r \<in> set reps. fst r = 0 \<and> snd r \<noteq> None) \<and> einv auth c' \<and>
    hash_map (e_table c') = (hash_map (e_table c))(enumId e := None) \<and> e_heap c' = (e_heap c)(a := None)"
  using assms(1,4)
proof (induction n arbitrary: c e)
  case 0
  have "unat (ei_index e) + 1 < 2 ^ 32"
    using 0(2) word_less_2p [of "totalItems e"] by simp
  then have "unat (ei_index e + 1) = unat (totalItems e)"
    using 0(2) by (simp add: unat_word_Suc)
  then have "enum_finished (e\<lparr>ei_index := ei_index e + 1\<rparr>)"
    by (simp add: enum_finished_def word_unat_eq_iff)
  then obtain d c' where "wsenum_pull_direct_stub L now mem fuuid msg (pages_ep page) subs rq nd (c, pool) = Some ((0, Some d), c', pool)"
    "einv auth c'" "hash_map (e_table c') = (hash_map (e_table c))(enumId e := None)" "e_heap c' = (e_heap c)(a := None)"
    using pull_once [where page = page, OF 0(1) page tot, where now = now and mem = mem and fuuid = fuuid and subs = subs and nd = nd and pool = pool]
    by auto
  then show ?case
    by (simp add: fun_upd_def)
next
  case (Suc n)
  have "unat (ei_index e) + 1 < 2 ^ 32"
    using Suc.prems(2) word_less_2p [of "totalItems e"] by simp
  then have u: "unat (ei_index e + 1) = unat (ei_index e) + 1"
    by (simp add: unat_word_Suc)
  then have "\<not> enum_finished (e\<lparr>ei_index := ei_index e + 1\<rparr>)"
    using Suc.prems(2) by (auto simp: enum_finished_def)
  then obtain d c' e' where s: "wsenum_pull_direct_stub L now mem fuuid msg (pages_ep page) subs rq nd (c, pool) = Some ((0, Some d), c', pool)"
    "e_table c' = e_table c" "e_heap c' = (e_heap c)(a \<mapsto> e')" "pullable L auth msg rq c' a e'"
    "totalItems e' = totalItems e" "ei_index e' = ei_index e + 1" "enumId e' = enumId e"
    using pull_once [where page = page, OF Suc.prems(1) page tot, where now = now and mem = mem and fuuid = fuuid and subs = subs and nd = nd and pool = pool] by auto
  have "unat (ei_index e') + Suc n = unat (totalItems e')"
    using Suc.prems(2) s(5,6) u by simp
  from Suc.IH [OF s(4) this] obtain reps c'' where
    r: "pull_times (Suc n) L now mem fuuid msg (pages_ep page) subs rq nd (c', pool) = Some (reps, c'', pool)"
    and r': "length reps = Suc n" "\<forall>r \<in> set reps. fst r = 0 \<and> snd r \<noteq> None" "einv auth c''"
      "hash_map (e_table c'') = (hash_map (e_table c'))(enumId e' := None)" "e_heap c'' = (e_heap c')(a := None)"
    by blast
  have "pull_times (Suc (Suc n)) L now mem fuuid msg (pages_ep page) subs rq nd (c, pool) = Some ((0, Some d) # reps, c'', pool)"
    by (subst pull_times.simps(2)) (simp only: s(1) r bind.bind_lunit prod.case)
  then show ?case
    using s r' by (intro exI [of _ "(0, Some d) # reps"] exI [of _ c'']) (simp add: fun_upd_def fun_eq_iff)
qed

section \<open>Properties\<close>

lemma one_context:
  assumes "info_ok auth e"
  shows "\<exists>c. einv auth c \<and> in_table c a \<and> e_heap c = [a \<mapsto> e] \<and> e_idle c = idle"
proof -
  obtain h :: "addr hash_t" where h: "hash_ok h" "hash_map h = Map.empty" "h_nodecount h = 0" "h_maxcount h = HASHCOUNT_T_MAX" "hash_nodes h = []"
    using context_table_ok [where 'v = addr] by blast
  define c where "c = \<lparr>e_table = h, e_heap = [a \<mapsto> e], e_idle = idle, e_indoc = None\<rparr>"
  let ?m = "\<lparr>cm_copy = True, cm_key = True, cm_node = Some 0, cm_table = True\<rparr>"
  have inv: "einv auth c"
    using h assms by (intro einvI) (auto simp: c_def split: if_splits)
  have "entry_mem ?m c"
    using h by (simp add: entry_mem_def hash_avail_def c_def HASHCOUNT_T_MAX_def)
  moreover have "\<not> in_table c a" "e_heap c a = Some e"
    using h by (simp_all add: in_table_def c_def)
  ultimately show ?thesis
    using insert_ok [OF inv, of a e ?m "timeStamp e"] by (auto simp: c_def)
qed

text \<open>C35: A run of the timeout manager always ends, whatever the table holds, and does exactly what it should: the
  contexts that nobody works on and that have been idle too long or are past their expiry time leave
  the table and are released and freed; every other context stays in the table and keeps its
  contents.\<close>

theorem timeouts_remove_expired:
  assumes inv: "einv auth c" and rel: "\<forall>f. ep_ok (rel f)" and idle: "e_idle c \<noteq> 0"
  shows "\<exists>c'. wsman_timeouts_manager True (\<lambda>_. True) rel now c = Some c' \<and> einv auth c' \<and>
    (\<forall>a. in_table c' a \<longleftrightarrow> in_table c a \<and> \<not> expired_in now c a) \<and> e_heap c' = e_heap c |` {a. \<not> expired_in now c a}"
proof -
  obtain l c1 where c1: "wsman_get_expired_enuminfos True (\<lambda>_. True) now c = Some (l, c1)" "einv auth c1" "e_heap c1 = e_heap c"
    "distinct (case l of None \<Rightarrow> [] | Some as \<Rightarrow> as)"
    "\<forall>a. a \<in> set (case l of None \<Rightarrow> [] | Some as \<Rightarrow> as) \<longleftrightarrow> expired_in now c a"
    "\<forall>b. in_table c1 b \<longleftrightarrow> in_table c b \<and> b \<notin> set (case l of None \<Rightarrow> [] | Some as \<Rightarrow> as)"
    using get_expired_ok [OF inv, of True now] idle by (simp only: simp_thms) blast
  define as where "as = (case l of None \<Rightarrow> [] | Some as \<Rightarrow> as)"
  have as: "distinct as" "\<And>a. a \<in> set as \<longleftrightarrow> expired_in now c a" "\<And>b. in_table c1 b \<longleftrightarrow> in_table c b \<and> b \<notin> set as"
    using c1(4-6) by (simp_all add: as_def)
  have "\<forall>a \<in> set as. e_heap c1 a \<noteq> None \<and> \<not> in_table c1 a"
    using as(2,3) c1(3) by (auto simp: expired_in_def)
  from expire_list_ok [OF c1(2) as(1) this rel] obtain c' where
    c': "expire_list rel as c1 = Some c'" "einv auth c'" "e_table c' = e_table c1" "e_heap c' = e_heap c1 |` (- set as)"
    by blast
  have "wsman_timeouts_manager True (\<lambda>_. True) rel now c = Some c'"
    using c1(1) c'(1) by (cases l) (simp_all add: wsman_timeouts_manager_def as_def)
  moreover have "in_table c' a \<longleftrightarrow> in_table c a \<and> \<not> expired_in now c a" for a
    using as(2,3) c'(3) by (simp add: in_table_def)
  moreover have "- set as = {a. \<not> expired_in now c a}"
    using as(2) by auto
  ultimately show ?thesis
    using c'(2,4) c1(3) by auto
qed

definition sample_info :: WsEnumerateInfo where
  "sample_info = enuminfo_zero\<lparr>enumId := ''id'', totalItems := 2, timeStamp := 1000, epr_to := Some ''to'', ei_epr_uri := Some ''urn:a''\<rparr>"

lemma ep_ok_id: "ep_ok (\<lambda>e st. (0, e, st))"
  by (simp add: ep_ok_def)

theorem timeouts_remove_expired_witness:
  "\<exists>c c'. in_table c 7 \<and> wsman_timeouts_manager True (\<lambda>_. True) (\<lambda>_ e st. (0, e, st)) 2000 c = Some c' \<and>
    (\<forall>a. \<not> in_table c' a) \<and> e_heap c' = Map.empty"
proof -
  have "info_ok False sample_info"
    by (simp add: info_ok_def sample_info_def)
  then obtain c where c: "einv False c" "in_table c 7" "e_heap c = [7 \<mapsto> sample_info]" "e_idle c = 60"
    using one_context [of False sample_info 7 60] by blast
  have "\<not> in_work sample_info" "enum_expired 60 2000 sample_info"
    by (simp_all add: in_work_def enum_expired_def sample_info_def enuminfo_zero_def)
  then have exp: "expired_in 2000 c 7"
    using c by (simp add: expired_in_def)
  have only: "a = 7" if "in_table c a" for a
    using in_table_alloc [OF c(1) that] c(3) by (auto split: if_splits)
  obtain c' where c': "wsman_timeouts_manager True (\<lambda>_. True) (\<lambda>_ e st. (0, e, st)) 2000 c = Some c'"
    "\<forall>a. in_table c' a \<longleftrightarrow> in_table c a \<and> \<not> expired_in 2000 c a" "e_heap c' = e_heap c |` {a. \<not> expired_in 2000 c a}"
    using timeouts_remove_expired [OF c(1), of "\<lambda>_ e st. (0, e, st)" 2000] ep_ok_id c(4) by auto
  have "\<forall>a. \<not> in_table c' a"
    using c'(2) only exp by blast
  moreover have "e_heap c' = Map.empty"
    using c'(3) c(3) exp by (auto simp: restrict_map_def fun_eq_iff)
  ultimately show ?thesis
    using c(2) c'(1) by blast
qed


definition sample_pull :: xdoc where
  "sample_pull = Some (envelope
     [Elem (Some XML_NS_ADDRESSING) WSA_TO [] [Text ''to''], Elem (Some XML_NS_WS_MAN) WSM_RESOURCE_URI [] [Text ''urn:a'']]
     [Elem (Some XML_NS_ENUMERATION) WSENUM_PULL []
        [Elem (Some XML_NS_ENUMERATION) WSENUM_ENUMERATION_CONTEXT [] [Text ''id'']]])"

definition sample_page :: "WsEnumerateInfo \<Rightarrow> xnode" where
  "sample_page e = envelope [] [Elem (Some XML_NS_ENUMERATION) WSENUM_PULL_RESP []
     [Elem (Some XML_NS_ENUMERATION) WSENUM_ITEMS [] []]]"


end
