(* ===== verification/Ws_Enum_Threads.thy ===== *)
theory Ws_Enum_Threads
  imports Ws_Enum
begin

text \<open>
  The server handles requests in several threads that share the table of enumerations.  The lock of
  \<open>src/src/lib/wsman-soap.c\<close> (\<open>u_lock(cntx->soap)\<close>) protects single accesses to the table only: while the
  function of a plugin runs, the lock is free, and it is the flag \<open>WSMAN_ENUMINFO_INWORK_FLAG\<close> that keeps
  other threads away from a context.

  A step of a thread is what it does between two points at which another thread can come in: it
  reserves a context, calls the function of the plugin, gives the context back or takes it out of the table, frees
  it.  The steps are those from which \<open>Ws_Enum\<close> composes the stubs.  A step that fails (use of a structure that has
  been freed, a failed assertion) leads to the state \<open>None\<close>.

  The lemmas show that \<open>None\<close> cannot be reached, that no two threads ever work on the same context, and that
  from every state that can be reached the table can be emptied.
\<close>

section \<open>Steps\<close>

datatype thr =
    Idle
  | Enumerating addr
  | Enumerated addr int WsmanStatus
  | Pulling addr
  | Pulled addr int WsmanStatus
  | Releasing addr
  | Released addr int
  | Destroying addr
  | Expiring "addr list"

type_synonym server = "ectx \<times> (nat \<Rightarrow> thr)"

text \<open>A new id is not in use; a new structure does not overlap one that is.\<close>

definition fresh_id :: "ectx \<Rightarrow> string \<Rightarrow> bool" where
  "fresh_id c uuid \<longleftrightarrow> (\<forall>a e. e_heap c a = Some e \<longrightarrow> enumId e \<noteq> uuid)"

definition fresh_addr :: "ectx \<Rightarrow> addr option \<Rightarrow> bool" where
  "fresh_addr c ea \<longleftrightarrow> (\<forall>a. ea = Some a \<longrightarrow> e_heap c a = None)"

definition quota_ok :: "int option \<Rightarrow> int option \<Rightarrow> bool" where
  "quota_ok mt mc \<longleftrightarrow> (\<forall>t k. mt = Some t \<longrightarrow> mc = Some k \<longrightarrow> - (2 ^ 31) \<le> t * k \<and> t * k < 2 ^ 31)"

text \<open>The thread after its context was given back, or taken out of the table.\<close>

definition given_back :: "bool \<Rightarrow> addr \<Rightarrow> thr" where
  "given_back removed a = (if removed then Destroying a else Idle)"

inductive estep :: "bool \<Rightarrow> server option \<Rightarrow> server option \<Rightarrow> bool" for auth where
  enumerate: "ts t = Idle \<Longrightarrow> msg_ok auth msg \<Longrightarrow> fresh_id c uuid \<Longrightarrow> fresh_addr c ea \<Longrightarrow> quota_ok mt mc \<Longrightarrow>
    list_all ifc_ok (interfaces di) \<Longrightarrow>
    estep auth (Some (c, ts))
      (map_option (\<lambda>r. case r of Inl rep \<Rightarrow> (c, ts) | Inr (a, c') \<Rightarrow> (c', ts(t := Enumerating a)))
        (enumerate_begin L clk uuid fuuid epmem ea mt mc mx msg di rq nd c))"
| enumerate_call: "ts t = Enumerating a \<Longrightarrow> (\<And>f. ep = Some f \<Longrightarrow> ep_ok f) \<Longrightarrow>
    estep auth (Some (c, ts)) (map_option (\<lambda>(rv, st, c'). (c', ts(t := Enumerated a rv st))) (call_endpoint ep c a))"
| enumerate_end: "ts t = Enumerated a rv st \<Longrightarrow> entry_mem m c \<Longrightarrow>
    estep auth (Some (c, ts)) (map_option (\<lambda>(rep, c'). (c', ts(t := Idle))) (enumerate_end L now m fuuid rq nd rv st c a))"
| pull: "ts t = Idle \<Longrightarrow> msg_ok auth msg \<Longrightarrow>
    estep auth (Some (c, ts))
      (map_option (\<lambda>(ei, st, c'). (c', ts(t := (case ei of None \<Rightarrow> Idle | Some a \<Rightarrow> Pulling a))))
        (get_locked_enuminfo L c rq msg WSENUM_PULL wsman_status_init))"
| pull_call: "ts t = Pulling a \<Longrightarrow> ep_ok ep \<Longrightarrow>
    estep auth (Some (c, ts)) (map_option (\<lambda>(rv, st, c'). (c', ts(t := Pulled a rv st))) (call_endpoint (Some ep) c a))"
| pull_end: "ts t = Pulled a rv st \<Longrightarrow>
    estep auth (Some (c, ts))
      (map_option (\<lambda>(rep, removed, c'). (c', ts(t := given_back removed a))) (pull_end L now mem fuuid rq nd rv st c a))"
| release: "ts t = Idle \<Longrightarrow> msg_ok auth msg \<Longrightarrow>
    estep auth (Some (c, ts))
      (map_option (\<lambda>(ei, st, c'). (c'\<lparr>e_indoc := rq\<rparr>, ts(t := (case ei of None \<Rightarrow> Idle | Some a \<Rightarrow> Releasing a))))
        (get_locked_enuminfo L c rq msg WSENUM_RELEASE wsman_status_init))"
| release_call: "ts t = Releasing a \<Longrightarrow> (\<And>f. ep = Some f \<Longrightarrow> ep_ok f) \<Longrightarrow>
    estep auth (Some (c, ts)) (map_option (\<lambda>(rv, st, c'). (c', ts(t := Released a rv))) (call_endpoint ep c a))"
| release_end: "ts t = Released a rv \<Longrightarrow>
    estep auth (Some (c, ts))
      (map_option (\<lambda>(rep, removed, c'). (c', ts(t := given_back removed a))) (release_end L now mem fuuid rq nd rv c a))"
| destroy: "ts t = Destroying a \<Longrightarrow>
    estep auth (Some (c, ts)) (map_option (\<lambda>c'. (c', ts(t := Idle))) (destroy_enuminfo c a))"
| expire: "ts t = Idle \<Longrightarrow>
    estep auth (Some (c, ts))
      (map_option (\<lambda>(l, c'). (c', ts(t := (case l of None \<Rightarrow> Idle | Some as \<Rightarrow> Expiring as))))
        (wsman_get_expired_enuminfos lm (\<lambda>_. True) now c))"
| expire_next: "ts t = Expiring (a # as) \<Longrightarrow> \<forall>f. ep_ok (rel f) \<Longrightarrow>
    estep auth (Some (c, ts)) (map_option (\<lambda>c'. (c', ts(t := Expiring as))) (expire_one rel c a))"
| expire_done: "ts t = Expiring [] \<Longrightarrow> estep auth (Some (c, ts)) (Some (c, ts(t := Idle)))"

section \<open>Invariant\<close>

text \<open>The structures a thread holds, and those of them that are in the table.\<close>

fun holds :: "thr \<Rightarrow> addr set" where
  "holds Idle = {}"
| "holds (Enumerating a) = {a}"
| "holds (Enumerated a rv st) = {a}"
| "holds (Pulling a) = {a}"
| "holds (Pulled a rv st) = {a}"
| "holds (Releasing a) = {a}"
| "holds (Released a rv) = {a}"
| "holds (Destroying a) = {a}"
| "holds (Expiring as) = set as"

fun works_on :: "thr \<Rightarrow> addr \<Rightarrow> bool" where
  "works_on (Pulling a) b = (a = b)"
| "works_on (Pulled a rv st) b = (a = b)"
| "works_on (Releasing a) b = (a = b)"
| "works_on (Released a rv) b = (a = b)"
| "works_on _ b = False"

text \<open>The contexts whose flag a thread has set and not cleared again.\<close>

fun reserves :: "thr \<Rightarrow> addr \<Rightarrow> bool" where
  "reserves (Destroying a) b = (a = b)"
| "reserves th b = works_on th b"

fun thr_ok :: "thr \<Rightarrow> bool" where
  "thr_ok (Expiring as) = distinct as"
| "thr_ok _ = True"

definition sinv :: "bool \<Rightarrow> server \<Rightarrow> bool" where
  "sinv auth s \<longleftrightarrow> (case s of (c, ts) \<Rightarrow>
     einv auth c \<and>
     (\<forall>t. thr_ok (ts t)) \<and>
     (\<forall>t a. a \<in> holds (ts t) \<longrightarrow> e_heap c a \<noteq> None) \<and>
     (\<forall>t u a. a \<in> holds (ts t) \<longrightarrow> a \<in> holds (ts u) \<longrightarrow> t = u) \<and>
     (\<forall>t a. a \<in> holds (ts t) \<longrightarrow> (in_table c a \<longleftrightarrow> works_on (ts t) a)) \<and>
     (\<forall>a e. e_heap c a = Some e \<longrightarrow> (in_work e \<longrightarrow> (\<exists>t. reserves (ts t) a)) \<and> (\<forall>t. works_on (ts t) a \<longrightarrow> in_work e)))"

lemma works_on_holds: "works_on th a \<Longrightarrow> a \<in> holds th"
  by (cases th) auto

lemma reserves_holds: "reserves th a \<Longrightarrow> a \<in> holds th"
  by (cases th) auto

lemma sinvD:
  assumes "sinv auth (c, ts)"
  shows "einv auth c" "thr_ok (ts t)" "a \<in> holds (ts t) \<Longrightarrow> e_heap c a \<noteq> None"
    and "a \<in> holds (ts t) \<Longrightarrow> a \<in> holds (ts u) \<Longrightarrow> t = u"
    and "a \<in> holds (ts t) \<Longrightarrow> in_table c a \<longleftrightarrow> works_on (ts t) a"
    and "e_heap c a = Some e \<Longrightarrow> in_work e \<Longrightarrow> \<exists>t. reserves (ts t) a"
    and "e_heap c a = Some e \<Longrightarrow> works_on (ts t) a \<Longrightarrow> in_work e"
  using assms unfolding sinv_def prod.case by blast+

text \<open>A step of the thread \<open>t\<close> that touches only what the thread holds before or after it keeps the invariant.\<close>

lemma sinv_step:
  assumes inv: "sinv auth (c, ts)" and inv': "einv auth c'" and th: "thr_ok th"
    and heap: "\<And>b. b \<notin> holds (ts t) \<Longrightarrow> b \<notin> holds th \<Longrightarrow> e_heap c' b = e_heap c b"
    and alloc: "\<And>b. b \<in> holds th \<Longrightarrow> e_heap c' b \<noteq> None"
    and mine: "\<And>b u. b \<in> holds th \<Longrightarrow> u \<noteq> t \<Longrightarrow> b \<notin> holds (ts u)"
    and tab: "\<And>b. b \<notin> holds (ts t) \<Longrightarrow> b \<notin> holds th \<Longrightarrow> in_table c' b \<longleftrightarrow> in_table c b"
    and own: "\<And>b. b \<in> holds th \<Longrightarrow> in_table c' b \<longleftrightarrow> works_on th b"
    and flag: "\<And>b e. b \<in> holds (ts t) \<union> holds th \<Longrightarrow> e_heap c' b = Some e \<Longrightarrow> (in_work e \<longrightarrow> reserves th b) \<and> (works_on th b \<longrightarrow> in_work e)"
  shows "sinv auth (c', ts(t := th))"
proof -
  have other: "b \<notin> holds (ts t)" "b \<notin> holds th" if "b \<in> holds (ts u)" "u \<noteq> t" for b u
    using that mine sinvD(4) [OF inv, of b u t] by blast+
  show ?thesis
    unfolding sinv_def prod.case
  proof (intro conjI allI impI)
    show "einv auth c'"
      by (rule inv')
    show "thr_ok ((ts(t := th)) u)" for u
      using th sinvD(2) [OF inv] by simp
    show "e_heap c' a \<noteq> None" if "a \<in> holds ((ts(t := th)) u)" for u a
      using that alloc [of a] heap [of a] other [of a u] sinvD(3) [OF inv, of a u] by (cases "u = t") simp_all
    show "u = v" if "a \<in> holds ((ts(t := th)) u)" "a \<in> holds ((ts(t := th)) v)" for u v a
      using that mine [of a] sinvD(4) [OF inv, of a u v] by (cases "u = t"; cases "v = t") auto
    show "in_table c' a = works_on ((ts(t := th)) u) a" if "a \<in> holds ((ts(t := th)) u)" for u a
      using that own [of a] tab [of a] other [of a u] sinvD(5) [OF inv, of a u] by (cases "u = t") simp_all
    show "\<exists>u. reserves ((ts(t := th)) u) a" if h: "e_heap c' a = Some e" "in_work e" for a e
    proof (cases "a \<in> holds (ts t) \<union> holds th")
      case True
      then show ?thesis
        using flag [of a e] h by (intro exI [of _ t]) simp
    next
      case False
      then obtain u where "reserves (ts u) a"
        using h heap [of a] sinvD(6) [OF inv, of a e] by auto
      then show ?thesis
        using False reserves_holds [of "ts u" a] by (intro exI [of _ u]) auto
    qed
    show "in_work e" if "e_heap c' a = Some e" "works_on ((ts(t := th)) u) a" for a e u
    proof (cases "u = t")
      case True
      then show ?thesis
        using flag [of a e] that works_on_holds [of th a] by simp
    next
      case False
      then have "works_on (ts u) a"
        using that(2) by simp
      then show ?thesis
        using that(1) heap [of a] other [of a u] False works_on_holds [of "ts u" a] sinvD(7) [OF inv, of a e u] by simp
    qed
  qed
qed

text \<open>The step of a thread that holds the structure \<open>a\<close> before and after it.\<close>

lemma sinv_keep:
  assumes inv: "sinv auth (c, ts)" and inv': "einv auth c'" and hold: "holds (ts t) = {a}" "holds th = {a}"
    and heap: "e_heap c' = (e_heap c)(a \<mapsto> e')" and tab: "\<And>b. b \<noteq> a \<Longrightarrow> in_table c' b \<longleftrightarrow> in_table c b"
    and own: "in_table c' a \<longleftrightarrow> works_on th a" and flag: "works_on th a \<Longrightarrow> in_work e'" "in_work e' \<Longrightarrow> reserves th a" and th: "thr_ok th"
  shows "sinv auth (c', ts(t := th))"
proof (rule sinv_step [OF inv inv' th])
  show "b \<notin> holds (ts u)" if "b \<in> holds th" "u \<noteq> t" for b u
    using that hold sinvD(4) [OF inv, of b u t] by auto
qed (use hold heap tab own flag in auto)

text \<open>The step of a thread that gives up the structure \<open>a\<close>.\<close>

lemma sinv_drop:
  assumes inv: "sinv auth (c, ts)" and inv': "einv auth c'" and hold: "holds (ts t) = {a}"
    and heap: "\<And>b. b \<noteq> a \<Longrightarrow> e_heap c' b = e_heap c b" "\<And>e. e_heap c' a = Some e \<Longrightarrow> \<not> in_work e"
    and tab: "\<And>b. b \<noteq> a \<Longrightarrow> in_table c' b \<longleftrightarrow> in_table c b"
  shows "sinv auth (c', ts(t := Idle))"
  by (rule sinv_step [OF inv inv']) (use hold heap tab in auto)

section \<open>Every step keeps the invariant\<close>

lemma find_endpoint_total: "list_ex (\<lambda>e. serviceEndPoint e = None) eps \<Longrightarrow> find_endpoint ptr eps \<noteq> None"
  by (induction eps) auto

lemma release_endpoint_total: "list_all ifc_ok (interfaces di) \<Longrightarrow> \<exists>r. wsman_get_release_endpoint L di cd rq = Some r"
proof -
  assume ok: "list_all ifc_ok (interfaces di)"
  have in_list: "r \<in> set ifcs" if "find_interface uri ifcs = Some (r, ns)" for uri ifcs r ns
    using that by (induction ifcs) (auto simp: Let_def split: if_splits)
  show ?thesis
  proof (cases "find_interface (wsman_get_resource_uri L cd rq) (interfaces di)")
    case None
    then show ?thesis
      by (simp add: wsman_get_release_endpoint_def)
  next
    case (Some rn)
    then obtain r ns where rn: "find_interface (wsman_get_resource_uri L cd rq) (interfaces di) = Some (r, ns)"
      by (cases rn) simp
    then have "list_ex (\<lambda>e. serviceEndPoint e = None) (endPoints r)"
      using in_list [OF rn] ok by (auto simp: list_all_iff ifc_ok_def)
    then obtain ep where "find_endpoint (strip_ns ENUM_ACTION_RELEASE ns) (endPoints r) = Some ep"
      using find_endpoint_total by blast
    then show ?thesis
      using rn by (simp add: wsman_get_release_endpoint_def)
  qed
qed

lemma create_enum_info_ok:
  assumes "msg_ok auth msg" "list_all ifc_ok (interfaces di)"
  shows "\<exists>r. create_enum_info L clk uuid mem mx msg di rq = Some r \<and>
    (\<forall>e. r = Inr e \<longrightarrow> enumId e = uuid \<and> info_ok auth e \<and> \<not> in_work e)"
proof (cases mem)
  case True
  obtain rel where rel: "wsman_get_release_endpoint L di rq rq = Some rel"
    using release_endpoint_total [OF assms(2)] by blast
  show ?thesis
    using True assms(1) rel
    by (auto simp: create_enum_info_def Let_def enuminfo_zero_def info_ok_def msg_ok_def in_work_def split: option.splits prod.splits)
qed (simp add: create_enum_info_def)

lemma quota_total: "quota_ok mt mc \<Longrightarrow> \<exists>b. enum_quota_full mt mc c = Some b"
  by (auto simp: quota_ok_def enum_quota_full_def Let_def split: option.splits)

lemma e_put_simps [simp]:
  "e_heap (e_put c a e) = (e_heap c)(a \<mapsto> e)" "e_table (e_put c a e) = e_table c" "e_idle (e_put c a e) = e_idle c"
  by (simp_all add: e_put_def)

lemma in_table_cong: "e_table c' = e_table c \<Longrightarrow> in_table c' b \<longleftrightarrow> in_table c b"
  by (simp add: in_table_def)

lemma einv_new:
  assumes inv: "einv auth c" and a: "e_heap c a = None" and e: "info_ok auth e" "fresh_id c (enumId e)"
  shows "einv auth (e_put c a e)"
proof (rule einvI)
  show "\<exists>f. e_heap (e_put c a e) b = Some f \<and> enumId f = k" if "hash_map (e_table (e_put c a e)) k = Some b" for k b
    using einvD(2) [OF inv, of k b] that a by auto
  show "info_ok auth f" if "e_heap (e_put c a e) b = Some f" for b f
    using einvD(3) [OF inv, of b f] that e by (auto split: if_splits)
  show "b = d" if "e_heap (e_put c a e) b = Some f" "e_heap (e_put c a e) d = Some g" "enumId f = enumId g" for b d f g
    using einvD(4) [OF inv, of b f d g] that e(2) by (auto simp: fresh_id_def split: if_splits)
qed (simp add: einvD(1) [OF inv])

text \<open>A structure that a thread holds is allocated; the flag of one that no thread has reserved is clear.\<close>

lemma held_alloc: "sinv auth (c, ts) \<Longrightarrow> a \<in> holds (ts t) \<Longrightarrow> \<exists>e. e_heap c a = Some e"
  using sinvD(3) by blast

lemma held_flag:
  assumes "sinv auth (c, ts)" "a \<in> holds (ts t)" "e_heap c a = Some e" "in_work e"
  shows "reserves (ts t) a"
proof -
  obtain u where "reserves (ts u) a"
    using sinvD(6) [OF assms(1,3,4)] by blast
  then show ?thesis
    using sinvD(4) [OF assms(1,2), of u] reserves_holds [of "ts u" a] by blast
qed

definition step_ok :: "bool \<Rightarrow> server \<Rightarrow> server option \<Rightarrow> bool" where
  "step_ok auth s r \<longleftrightarrow> (\<exists>s'. r = Some s' \<and> sinv auth s' \<and> e_idle (fst s') = e_idle (fst s))"

lemma step_okI: "sinv auth (c', ts') \<Longrightarrow> e_idle c' = e_idle c \<Longrightarrow> step_ok auth (c, ts) (Some (c', ts'))"
  by (simp add: step_ok_def)

lemma enumerate_ok:
  assumes inv: "sinv auth (c, ts)" and t: "ts t = Idle" and msg: "msg_ok auth msg" and "fresh_id c uuid" "fresh_addr c ea"
    and "quota_ok mt mc" "list_all ifc_ok (interfaces di)"
  shows "step_ok auth (c, ts) (map_option (\<lambda>r. case r of Inl rep \<Rightarrow> (c, ts) | Inr (a, c') \<Rightarrow> (c', ts(t := Enumerating a)))
    (enumerate_begin L clk uuid fuuid epmem ea mt mc mx msg di rq nd c))"
proof -
  obtain full where full: "enum_quota_full mt mc c = Some full"
    using quota_total assms(6) by blast
  obtain r where r: "create_enum_info L clk uuid (ea \<noteq> None) mx msg di rq = Some r"
    "\<And>e. r = Inr e \<Longrightarrow> enumId e = uuid \<and> info_ok auth e \<and> \<not> in_work e"
    using create_enum_info_ok [OF msg assms(7), of L clk uuid "ea \<noteq> None" mx rq] by blast
  show ?thesis
  proof (cases "full \<or> \<not> epmem \<or> (\<exists>f. r = Inl f)")
    case True
    then obtain rep where "enumerate_begin L clk uuid fuuid epmem ea mt mc mx msg di rq nd c = Some (Inl rep)"
      using full r(1) by (cases full; cases epmem) (auto simp: enumerate_begin_def split: prod.splits)
    then show ?thesis
      using inv by (simp add: step_ok_def)
  next
    case False
    then obtain e where e: "r = Inr e"
      by (cases r) auto
    have "ea \<noteq> None"
    proof
      assume "ea = None"
      then show False
        using r(1) e by (simp add: create_enum_info_def)
    qed
    then obtain a where a: "ea = Some a" "e_heap c a = None"
      using assms(5) by (auto simp: fresh_addr_def)
    have ok: "enumId e = uuid" "info_ok auth e" "\<not> in_work e"
      using r(2) [OF e] by blast+
    have inv': "einv auth (e_put c a e)"
      using einv_new [OF sinvD(1) [OF inv] a(2) ok(2)] assms(4) ok(1) by simp
    have "\<not> in_table c a"
      using in_table_alloc [OF sinvD(1) [OF inv], of a] a(2) by blast
    then have "sinv auth (e_put c a e, ts(t := Enumerating a))"
      using a(2) ok(3) t sinvD(3) [OF inv, of a]
      by (intro sinv_step [OF inv inv']) (auto simp: in_table_cong [of "e_put c a e" c])
    moreover have "enumerate_begin L clk uuid fuuid epmem ea mt mc mx msg di rq nd c = Some (Inr (a, e_put c a e))"
      using False full r(1) e a(1) by (simp add: enumerate_begin_def)
    ultimately show ?thesis
      by (simp add: step_ok_def)
  qed
qed

lemma call_ok:
  assumes inv: "sinv auth (c, ts)" and t: "holds (ts t) = {a}" and ep: "\<And>f. ep = Some f \<Longrightarrow> ep_ok f"
    and th: "\<And>rv st. holds (th rv st) = {a}" "\<And>rv st b. works_on (th rv st) b \<longleftrightarrow> works_on (ts t) b" "\<And>rv st b. reserves (th rv st) b \<longleftrightarrow> reserves (ts t) b"
      "\<And>rv st. thr_ok (th rv st)"
  shows "step_ok auth (c, ts) (map_option (\<lambda>(rv, st, c'). (c', ts(t := th rv st))) (call_endpoint ep c a))"
proof -
  obtain e where e: "e_heap c a = Some e"
    using held_alloc [OF inv, of a t] t by auto
  obtain rv st c' e' where c': "call_endpoint ep c a = Some (rv, st, c')" "einv auth c'" "e_table c' = e_table c" "e_idle c' = e_idle c"
    "e_heap c' = (e_heap c)(a \<mapsto> e')" "in_work e' = in_work e"
    using call_endpoint_ok [OF sinvD(1) [OF inv] e, of ep] ep by blast
  have "sinv auth (c', ts(t := th rv st))"
    using c'(6) th t e held_flag [OF inv, of a t e] sinvD(7) [OF inv, of a e t] sinvD(5) [OF inv, of a t]
    by (intro sinv_keep [OF inv c'(2) t th(1) c'(5)]) (auto simp: in_table_cong [OF c'(3)])
  then show ?thesis
    using c'(1,4) by (simp add: step_ok_def)
qed

lemma enumerate_end_ok:
  assumes inv: "sinv auth (c, ts)" and t: "ts t = Enumerated a rv st" and mem: "entry_mem m c"
  shows "step_ok auth (c, ts) (map_option (\<lambda>(rep, c'). (c', ts(t := Idle))) (enumerate_end L now m fuuid rq nd rv st c a))"
proof -
  have hold: "holds (ts t) = {a}"
    using t by simp
  obtain e where e: "e_heap c a = Some e"
    using held_alloc [OF inv, of a t] hold by auto
  have tab: "\<not> in_table c a" and nw: "\<not> in_work e"
    using sinvD(5) [OF inv, of a t] held_flag [OF inv, of a t e] e t by auto
  have done_destroy: "\<exists>c'. destroy_enuminfo d a = Some c' \<and> e_idle c' = e_idle c \<and> sinv auth (c', ts(t := Idle))"
    if d: "einv auth d" "e_table d = e_table c" "e_idle d = e_idle c" "\<And>b. b \<noteq> a \<Longrightarrow> e_heap d b = e_heap c b" "e_heap d a \<noteq> None" for d
  proof -
    obtain c' where c': "destroy_enuminfo d a = Some c'" "einv auth c'" "e_table c' = e_table d" "e_heap c' = (e_heap d)(a := None)" "e_idle c' = e_idle d"
      using destroy_ok [OF d(1,5)] tab in_table_cong [OF d(2)] by blast
    have "sinv auth (c', ts(t := Idle))"
      by (rule sinv_drop [OF inv c'(2) hold]) (use c' d in \<open>auto simp: in_table_def\<close>)
    then show ?thesis
      using c' d by auto
  qed
  show ?thesis
  proof (cases "rv = 0")
    case False
    obtain c' where "destroy_enuminfo c a = Some c'" "e_idle c' = e_idle c" "sinv auth (c', ts(t := Idle))"
      using done_destroy [OF sinvD(1) [OF inv]] e by auto
    then show ?thesis
      using False e by (simp add: enumerate_end_def e_get_def step_ok_def)
  next
    case True
    define f where "f = (if pullResultPtr e \<noteq> None then e\<lparr>ei_index := ei_index e + 1\<rparr> else e)"
    define d where "d = e_put c a f"
    have f: "enumId f = enumId e" "in_work f = in_work e" "info_ok auth f"
      using einvD(3) [OF sinvD(1) [OF inv] e] by (simp_all add: f_def in_work_def info_ok_def)
    have d: "einv auth d" "e_table d = e_table c" "e_idle d = e_idle c" "e_heap d = (e_heap c)(a \<mapsto> f)"
      using einv_put(1) [OF sinvD(1) [OF inv] e f(1,3)] by (simp_all add: d_def)
    obtain out reached where out: "built nd (enumerate_response L rq f) = (out, reached)"
      by fastforce
    have eq: "enumerate_end L now m fuuid rq nd rv st c a =
      (if \<not> reached \<or> (ei_flags f AND WSMAN_ENUMINFO_OPT = WSMAN_ENUMINFO_OPT \<and> enum_finished f)
       then do { c \<leftarrow> destroy_enuminfo d a; Some ((0, out), c) }
       else do { (r, c) \<leftarrow> insert_enum_info now m d a; Some ((0, out), c) })"
      by (simp only: enumerate_end_def e_get_def e bind.bind_lunit Let_def True simp_thms if_False f_def [symmetric] d_def [symmetric]
          out prod.case)
    show ?thesis
    proof (cases "\<not> reached \<or> (ei_flags f AND WSMAN_ENUMINFO_OPT = WSMAN_ENUMINFO_OPT \<and> enum_finished f)")
      case destroyed: True
      obtain c' where c': "destroy_enuminfo d a = Some c'" "e_idle c' = e_idle c" "sinv auth (c', ts(t := Idle))"
        using done_destroy [OF d(1,2,3)] d(4) by auto
      have "enumerate_end L now m fuuid rq nd rv st c a = Some ((0, out), c')"
        by (simp only: eq if_P [OF destroyed] c'(1) bind.bind_lunit)
      then show ?thesis
        using c' by (simp add: step_ok_def)
    next
      case kept: False
      have mem': "entry_mem m d"
        using mem d(2) by (simp add: entry_mem_def)
      obtain r c' where c': "insert_enum_info now m d a = Some (r, c')" "einv auth c'" "e_heap c' = (e_heap d)(a \<mapsto> f\<lparr>timeStamp := now\<rparr>)"
        "e_idle c' = e_idle d" "\<And>b. in_table c' b \<longleftrightarrow> in_table d b \<or> b = a \<and> r = 0"
        using insert_ok [OF d(1) _ _ mem', of a f now] d(4) tab in_table_cong [OF d(2), of a] by auto
      have "sinv auth (c', ts(t := Idle))"
        by (rule sinv_drop [OF inv c'(2) hold])
          (use c'(3,5) d(4) f(2) nw in \<open>auto simp: in_table_cong [OF d(2)] in_work_def\<close>)
      moreover have "enumerate_end L now m fuuid rq nd rv st c a = Some ((0, out), c')"
        by (simp only: eq if_not_P [OF kept] c'(1) bind.bind_lunit prod.case)
      ultimately show ?thesis
        using c'(4) d(3) by (simp add: step_ok_def)
    qed
  qed
qed

text \<open>Reserving a context, giving it back, taking it out of the table.\<close>

lemma reserve_ok:
  assumes inv: "sinv auth (c, ts)" and t: "ts t = Idle" and msg: "msg_ok auth msg"
    and th: "\<And>a. holds (th a) = {a}" "\<And>a b. works_on (th a) b \<longleftrightarrow> a = b" "\<And>a b. reserves (th a) b \<longleftrightarrow> a = b" "\<And>a. thr_ok (th a)"
  shows "\<exists>ei st c'. get_locked_enuminfo L c rq msg action wsman_status_init = Some (ei, st, c') \<and> e_idle c' = e_idle c \<and>
    sinv auth (c', ts(t := (case ei of None \<Rightarrow> Idle | Some a \<Rightarrow> th a)))"
proof -
  obtain ei st c' where g: "get_locked_enuminfo L c rq msg action wsman_status_init = Some (ei, st, c')"
    "case ei of None \<Rightarrow> c' = c \<and> fault_code st \<noteq> WSMAN_RC_OK
     | Some a \<Rightarrow> \<exists>e. e_heap c a = Some e \<and> requested_enumId L rq action = Some (enumId e) \<and> in_table c a \<and> \<not> in_work e \<and>
                 c' = e_put c a (e\<lparr>ei_flags := ei_flags e OR WSMAN_ENUMINFO_INWORK_FLAG\<rparr>) \<and> st = wsman_status_init"
    using get_locked_ok [OF sinvD(1) [OF inv] msg, of wsman_status_init L rq action] by (auto simp: wsman_status_init_def)
  show ?thesis
  proof (cases ei)
    case None
    then show ?thesis
      using g inv t by (auto simp: fun_upd_idem)
  next
    case (Some a)
    then obtain e where e: "e_heap c a = Some e" "in_table c a" "\<not> in_work e"
      and c': "c' = e_put c a (e\<lparr>ei_flags := ei_flags e OR WSMAN_ENUMINFO_INWORK_FLAG\<rparr>)"
      using g(2) by auto
    have inv': "einv auth c'" "\<And>b. in_table c' b \<longleftrightarrow> in_table c b"
      using einv_put [OF sinvD(1) [OF inv] e(1), of "e\<lparr>ei_flags := ei_flags e OR WSMAN_ENUMINFO_INWORK_FLAG\<rparr>"]
        einvD(3) [OF sinvD(1) [OF inv] e(1)] by (simp_all add: c' info_ok_def)
    have free: "a \<notin> holds (ts u)" for u
      using sinvD(5,7) [OF inv, of a] e by blast
    have "sinv auth (c', ts(t := th a))"
      using th e(2) free t in_work_set [of e]
      by (intro sinv_step [OF inv inv'(1)]) (auto simp: c' in_table_cong [of "e_put c a _" c])
    then show ?thesis
      using g(1) Some c' by auto
  qed
qed

lemma unlock_step:
  assumes inv: "sinv auth (c, ts)" and hold: "holds (ts t) = {a}" and d: "einv auth d" "e_table d = e_table c" "e_idle d = e_idle c" "e_heap d = (e_heap c)(a \<mapsto> f)"
  shows "\<exists>c'. unlock_enuminfo now d a = Some c' \<and> e_idle c' = e_idle c \<and> sinv auth (c', ts(t := Idle))"
proof -
  obtain c' e' where c': "unlock_enuminfo now d a = Some c'" "einv auth c'" "e_table c' = e_table d" "e_idle c' = e_idle d"
    "e_heap c' = (e_heap d)(a \<mapsto> e')" "\<not> in_work e'"
    using unlock_ok [OF d(1), of a f now] d(4) by auto
  have "sinv auth (c', ts(t := Idle))"
    by (rule sinv_drop [OF inv c'(2) hold]) (use c' d in \<open>auto simp: in_table_def\<close>)
  then show ?thesis
    using c' d(3) by auto
qed

lemma remove_step:
  assumes inv: "sinv auth (c, ts)" and hold: "holds (ts t) = {a}" "works_on (ts t) a"
    and d: "einv auth d" "e_table d = e_table c" "e_idle d = e_idle c" "e_heap d = (e_heap c)(a \<mapsto> f)" "in_work f"
  shows "\<exists>c'. remove_locked_enuminfo mem d a = Some c' \<and> e_idle c' = e_idle c \<and> sinv auth (c', ts(t := Destroying a))"
proof -
  have "in_table d a"
    using sinvD(5) [OF inv, of a t] hold in_table_cong [OF d(2), of a] by simp
  then obtain c' where c': "remove_locked_enuminfo mem d a = Some c'" "einv auth c'" "e_heap c' = e_heap d" "e_idle c' = e_idle d"
    "\<And>b. in_table c' b \<longleftrightarrow> in_table d b \<and> b \<noteq> a"
    using remove_locked_ok [OF d(1) _ d(5), of a mem] d(4) by auto
  have "sinv auth (c', ts(t := Destroying a))"
    by (rule sinv_keep [OF inv c'(2) hold(1), of "Destroying a" f])
      (use c'(3,5) d(4) in \<open>auto simp: in_table_cong [OF d(2)]\<close>)
  then show ?thesis
    using c' d(3) by auto
qed

lemma pull_end_ok:
  assumes inv: "sinv auth (c, ts)" and t: "ts t = Pulled a rv st"
  shows "step_ok auth (c, ts) (map_option (\<lambda>(rep, removed, c'). (c', ts(t := given_back removed a))) (pull_end L now mem fuuid rq nd rv st c a))"
proof -
  have hold: "holds (ts t) = {a}" "works_on (ts t) a"
    using t by simp_all
  obtain e where e: "e_heap c a = Some e"
    using held_alloc [OF inv, of a t] hold by auto
  define f where "f = (if rv = 0 then e\<lparr>ei_index := ei_index e + 1\<rparr> else e)"
  define d where "d = (if rv = 0 then e_put c a f else c)"
  have f: "enumId f = enumId e" "in_work f" "info_ok auth f"
    using einvD(3) [OF sinvD(1) [OF inv] e] sinvD(7) [OF inv e hold(2)] by (simp_all add: f_def in_work_def info_ok_def)
  have d: "einv auth d" "e_table d = e_table c" "e_idle d = e_idle c" "e_heap d = (e_heap c)(a \<mapsto> f)"
    using einv_put(1) [OF sinvD(1) [OF inv] e f(1,3)] sinvD(1) [OF inv] e by (cases "rv = 0"; simp add: d_def f_def fun_upd_idem)+
  obtain u where u: "unlock_enuminfo now d a = Some u" "e_idle u = e_idle c" "sinv auth (u, ts(t := Idle))"
    using unlock_step [OF inv hold(1) d] by blast
  obtain v where v: "remove_locked_enuminfo mem d a = Some v" "e_idle v = e_idle c" "sinv auth (v, ts(t := Destroying a))"
    using remove_step [OF inv hold d f(2)] by blast
  have "\<exists>rep removed. pull_end L now mem fuuid rq nd rv st c a = Some (rep, removed, if removed then v else u)"
  proof (cases "rv = 0")
    case False
    then show ?thesis
      using e u(1) by (auto simp: pull_end_def e_get_def d_def)
  next
    case True
    then have fd: "e\<lparr>ei_index := ei_index e + 1\<rparr> = f" "e_put c a f = d"
      by (simp_all add: f_def d_def)
    show ?thesis
    proof (cases "pullResultPtr f")
      case None
      then show ?thesis
        unfolding pull_end_def e_get_def e bind.bind_lunit Let_def fd
        using True u(1) by auto
    next
      case (Some doc)
      then show ?thesis
        unfolding pull_end_def e_get_def e bind.bind_lunit Let_def fd
        using True u(1) v(1) by auto
    qed
  qed
  then obtain rep removed where "pull_end L now mem fuuid rq nd rv st c a = Some (rep, removed, if removed then v else u)"
    by blast
  then show ?thesis
    using u(2,3) v(2,3) by (cases removed) (simp_all add: step_ok_def given_back_def)
qed

lemma release_end_ok:
  assumes inv: "sinv auth (c, ts)" and t: "ts t = Released a rv"
  shows "step_ok auth (c, ts) (map_option (\<lambda>(rep, removed, c'). (c', ts(t := given_back removed a))) (release_end L now mem fuuid rq nd rv c a))"
proof -
  have hold: "holds (ts t) = {a}" "works_on (ts t) a"
    using t by simp_all
  obtain e where e: "e_heap c a = Some e"
    using held_alloc [OF inv, of a t] hold by auto
  have c: "einv auth c" "e_table c = e_table c" "e_idle c = e_idle c" "e_heap c = (e_heap c)(a \<mapsto> e)" "in_work e"
    using sinvD(1) [OF inv] sinvD(7) [OF inv e hold(2)] e by (simp_all add: fun_upd_idem)
  obtain u where "unlock_enuminfo now c a = Some u" "e_idle u = e_idle c" "sinv auth (u, ts(t := Idle))"
    using unlock_step [OF inv hold(1) c(1-4)] by blast
  moreover obtain v where "remove_locked_enuminfo mem c a = Some v" "e_idle v = e_idle c" "sinv auth (v, ts(t := Destroying a))"
    using remove_step [OF inv hold c] by blast
  ultimately show ?thesis
    by (cases "rv = 0") (simp_all add: release_end_def step_ok_def given_back_def)
qed

lemma destroy_step:
  assumes inv: "sinv auth (c, ts)" and t: "ts t = Destroying a"
  shows "step_ok auth (c, ts) (map_option (\<lambda>c'. (c', ts(t := Idle))) (destroy_enuminfo c a))"
proof -
  have hold: "holds (ts t) = {a}"
    using t by simp
  have "e_heap c a \<noteq> None" "\<not> in_table c a"
    using sinvD(3,5) [OF inv, of a t] t by simp_all
  then obtain c' where c': "destroy_enuminfo c a = Some c'" "einv auth c'" "e_table c' = e_table c"
    "e_heap c' = (e_heap c)(a := None)" "e_idle c' = e_idle c"
    using destroy_ok [OF sinvD(1) [OF inv]] by blast
  have "sinv auth (c', ts(t := Idle))"
    by (rule sinv_drop [OF inv c'(2) hold]) (use c' in \<open>auto simp: in_table_def\<close>)
  then show ?thesis
    using c' by (simp add: step_ok_def)
qed

lemma expire_step:
  assumes inv: "sinv auth (c, ts)" and t: "ts t = Idle"
  shows "\<exists>l c'. wsman_get_expired_enuminfos lm (\<lambda>_. True) now c = Some (l, c') \<and> e_idle c' = e_idle c \<and>
    sinv auth (c', ts(t := (case l of None \<Rightarrow> Idle | Some as \<Rightarrow> Expiring as))) \<and>
    set (case l of None \<Rightarrow> [] | Some as \<Rightarrow> as) = {a. lm \<and> e_idle c \<noteq> 0 \<and> expired_in now c a} \<and>
    (\<forall>b. in_table c' b \<longleftrightarrow> in_table c b \<and> \<not> (lm \<and> e_idle c \<noteq> 0 \<and> expired_in now c b))"
proof -
  obtain l c' where c': "wsman_get_expired_enuminfos lm (\<lambda>_. True) now c = Some (l, c')" "einv auth c'" "e_heap c' = e_heap c"
    "e_idle c' = e_idle c" and l: "distinct (case l of None \<Rightarrow> [] | Some as \<Rightarrow> as)"
    "\<And>a. a \<in> set (case l of None \<Rightarrow> [] | Some as \<Rightarrow> as) \<longleftrightarrow> lm \<and> e_idle c \<noteq> 0 \<and> expired_in now c a"
    and tab: "\<And>b. in_table c' b \<longleftrightarrow> in_table c b \<and> b \<notin> set (case l of None \<Rightarrow> [] | Some as \<Rightarrow> as)"
    using get_expired_ok [OF sinvD(1) [OF inv], of lm now] by blast
  let ?th = "case l of None \<Rightarrow> Idle | Some as \<Rightarrow> Expiring as"
  have h: "holds ?th = set (case l of None \<Rightarrow> [] | Some as \<Rightarrow> as)" "\<And>b. \<not> works_on ?th b" "\<And>b. \<not> reserves ?th b" "thr_ok ?th"
    using l(1) by (cases l; simp)+
  have x: "\<exists>e. e_heap c b = Some e \<and> \<not> in_work e \<and> in_table c b" if "b \<in> holds ?th" for b
    using that unfolding h(1) l(2) by (auto simp: expired_in_def)
  have free: "b \<notin> holds (ts u)" if "b \<in> holds ?th" for b u
    using x [OF that] sinvD(5,7) [OF inv, of b] by blast
  have "sinv auth (c', ts(t := ?th))"
  proof (rule sinv_step [OF inv c'(2) h(4)])
    show "(in_work e \<longrightarrow> reserves ?th b) \<and> (works_on ?th b \<longrightarrow> in_work e)" if "b \<in> holds (ts t) \<union> holds ?th" "e_heap c' b = Some e" for b e
      using that t x [of b] h(2) c'(3) by auto
    show "in_table c' b \<longleftrightarrow> in_table c b" if "b \<notin> holds (ts t)" "b \<notin> holds ?th" for b
      using that(2) tab [of b] unfolding h(1) by blast
    show "in_table c' b \<longleftrightarrow> works_on ?th b" if "b \<in> holds ?th" for b
      using that tab [of b] h(2) unfolding h(1) by blast
    show "e_heap c' b \<noteq> None" if "b \<in> holds ?th" for b
      using x [OF that] c'(3) by auto
  qed (use free c'(3) in simp_all)
  moreover have "set (case l of None \<Rightarrow> [] | Some as \<Rightarrow> as) = {a. lm \<and> e_idle c \<noteq> 0 \<and> expired_in now c a}"
    using l(2) by blast
  ultimately show ?thesis
    using c'(1,4) tab l(2) by (intro exI [of _ l] exI [of _ c']) simp
qed

lemma expire_next_step:
  assumes inv: "sinv auth (c, ts)" and t: "ts t = Expiring (a # as)" and rel: "\<forall>f. ep_ok (rel f)"
  shows "\<exists>c'. expire_one rel c a = Some c' \<and> e_idle c' = e_idle c \<and> e_table c' = e_table c \<and> sinv auth (c', ts(t := Expiring as))"
proof -
  have "e_heap c a \<noteq> None" "\<not> in_table c a" and as: "a \<notin> set as" "distinct as"
    using sinvD(3,5) [OF inv, of a t] sinvD(2) [OF inv, of t] t by simp_all
  then obtain c' where c': "expire_one rel c a = Some c'" "einv auth c'" "e_table c' = e_table c"
    "e_heap c' = (e_heap c)(a := None)" "e_idle c' = e_idle c"
    using expire_one_ok [OF sinvD(1) [OF inv] _ _ rel] by blast
  have flag: "\<not> in_work e" if "e_heap c b = Some e" "b \<in> set as" for b e
    using held_flag [OF inv, of b t e] t that by auto
  have "sinv auth (c', ts(t := Expiring as))"
  proof (rule sinv_step [OF inv c'(2)])
    show "e_heap c' b \<noteq> None" if "b \<in> holds (Expiring as)" for b
      using that sinvD(3) [OF inv, of b t] t as c'(4) by auto
    show "b \<notin> holds (ts u)" if "b \<in> holds (Expiring as)" "u \<noteq> t" for b u
      using that sinvD(4) [OF inv, of b u t] t by auto
    show "in_table c' b \<longleftrightarrow> works_on (Expiring as) b" if "b \<in> holds (Expiring as)" for b
      using that sinvD(5) [OF inv, of b t] t in_table_cong [OF c'(3), of b] by simp
  qed (use as t c'(4) flag in_table_cong [OF c'(3)] in \<open>auto split: if_splits\<close>)
  then show ?thesis
    using c' by blast
qed

lemma sinv_indoc: "sinv auth (c\<lparr>e_indoc := rq\<rparr>, ts) \<longleftrightarrow> sinv auth (c, ts)"
  unfolding sinv_def einv_def in_table_def prod.case by simp

lemma estep_ok:
  assumes "estep auth (Some s) r" "sinv auth s"
  shows "step_ok auth s r"
  using assms(1)
proof (cases rule: estep.cases)
  case (enumerate ts t msg c uuid ea mt mc di L clk fuuid epmem mx rq nd)
  then show ?thesis
    using assms(2) by (auto intro: enumerate_ok)
next
  case (enumerate_call ts t a ep c)
  then show ?thesis
    using assms(2) by (auto intro!: call_ok)
next
  case (enumerate_end ts t a rv st m c L now fuuid rq nd)
  then show ?thesis
    using assms(2) by (auto intro: enumerate_end_ok)
next
  case (pull ts t msg c L rq)
  then obtain ei st c' where "get_locked_enuminfo L c rq msg WSENUM_PULL wsman_status_init = Some (ei, st, c')" "e_idle c' = e_idle c"
    "sinv auth (c', ts(t := (case ei of None \<Rightarrow> Idle | Some a \<Rightarrow> Pulling a)))"
    using reserve_ok [of auth c ts t msg Pulling L rq WSENUM_PULL] assms(2) by auto
  then show ?thesis
    using pull by (simp add: step_ok_def)
next
  case (pull_call ts t a ep c)
  then show ?thesis
    using assms(2) by (auto intro!: call_ok)
next
  case (pull_end ts t a rv st c L now mem fuuid rq nd)
  then show ?thesis
    using assms(2) by (auto intro: pull_end_ok)
next
  case (release ts t msg c rq L)
  then obtain ei st c' where "get_locked_enuminfo L c rq msg WSENUM_RELEASE wsman_status_init = Some (ei, st, c')" "e_idle c' = e_idle c"
    "sinv auth (c', ts(t := (case ei of None \<Rightarrow> Idle | Some a \<Rightarrow> Releasing a)))"
    using reserve_ok [of auth c ts t msg Releasing L rq WSENUM_RELEASE] assms(2) by auto
  then show ?thesis
    using release by (simp add: step_ok_def sinv_indoc)
next
  case (release_call ts t a ep c)
  then show ?thesis
    using assms(2) by (auto intro!: call_ok [where th = "\<lambda>rv st. Released a rv"])
next
  case (release_end ts t a rv c L now mem fuuid rq nd)
  then show ?thesis
    using assms(2) by (auto intro: release_end_ok)
next
  case (destroy ts t a c)
  then show ?thesis
    using assms(2) by (auto intro: destroy_step)
next
  case (expire ts t c lm now)
  then show ?thesis
    using expire_step [of auth c ts t lm now] assms(2) by (auto simp: step_ok_def)
next
  case (expire_next ts t a as rel c)
  then show ?thesis
    using expire_next_step [of auth c ts t a as rel] assms(2) by (auto simp: step_ok_def)
next
  case (expire_done ts t c)
  have "sinv auth (c, ts(t := Idle))"
    by (rule sinv_step [where c = c and ts = ts]) (use expire_done assms(2) sinvD(1) in auto)
  then show ?thesis
    using expire_done by (simp add: step_ok_def)
qed

section \<open>Reachable states\<close>

text \<open>The server starts with the empty table that \<open>ws_initialize_context\<close> creates.\<close>

definition server_start :: "ulong \<Rightarrow> addr hash_t \<Rightarrow> server option" where
  "server_start idle h = Some (\<lparr>e_table = h, e_heap = Map.empty, e_idle = idle, e_indoc = None\<rparr>, \<lambda>_. Idle)"

lemma sinv_start:
  assumes "context_table True = Some (Some h)"
  shows "sinv auth (\<lparr>e_table = h, e_heap = Map.empty, e_idle = idle, e_indoc = None\<rparr>, \<lambda>_. Idle)"
proof -
  have "hash_ok h" "hash_map h = Map.empty"
    using context_table_ok [where 'v = addr] assms by auto
  then show ?thesis
    by (auto simp: sinv_def einv_def in_table_def)
qed

lemma finite_nonidle: "finite {u. ts u \<noteq> Idle} \<Longrightarrow> finite {u. (ts(t := th)) u \<noteq> Idle}"
  by (rule finite_subset [of _ "insert t {u. ts u \<noteq> Idle}"]) auto

lemma estep_one_thread:
  assumes "estep auth (Some (c, ts)) (Some (c', ts'))"
  shows "\<exists>t th. ts' = ts(t := th)"
  using assms
proof (cases rule: estep.cases)
  case (enumerate t msg uuid ea mt mc di L clk fuuid epmem mx rq nd)
  then obtain r :: "reply + addr \<times> ectx" where "(case r of Inl rep \<Rightarrow> (c, ts) | Inr (a, c') \<Rightarrow> (c', ts(t := Enumerating a))) = (c', ts')"
    by (auto simp: eq_commute [of "Some (c', ts')"])
  then show ?thesis
    by (cases r) (auto intro: fun_upd_triv [symmetric])
qed (auto simp: eq_commute [of "Some (c', ts')"])

lemma estep_nonidle:
  assumes "estep auth (Some (c, ts)) (Some (c', ts'))" "finite {t. ts t \<noteq> Idle}"
  shows "finite {t. ts' t \<noteq> Idle}"
  using estep_one_thread [OF assms(1)] finite_nonidle [OF assms(2)] by auto

lemma reachable_ok:
  assumes h: "context_table True = Some (Some h)" and "(estep auth)\<^sup>*\<^sup>* (server_start idle h) s"
  shows "\<exists>c ts. s = Some (c, ts) \<and> sinv auth (c, ts) \<and> e_idle c = idle \<and> finite {t. ts t \<noteq> Idle}"
  using assms(2)
proof (induction rule: rtranclp_induct)
  case base
  then show ?case
    using sinv_start [OF h] by (simp add: server_start_def)
next
  case (step s s')
  then obtain c ts where s: "s = Some (c, ts)" "sinv auth (c, ts)" "e_idle c = idle" "finite {t. ts t \<noteq> Idle}"
    by blast
  obtain c' ts' where s': "s' = Some (c', ts')" "sinv auth (c', ts')" "e_idle c' = idle"
    using estep_ok [of auth "(c, ts)" s'] step.hyps(2) s by (auto simp: step_ok_def)
  then show ?case
    using estep_nonidle [of auth c ts c' ts'] step.hyps(2) s by auto
qed

text \<open>A thread that is not idle can finish, whatever the other threads do.\<close>

definition can_reach :: "bool \<Rightarrow> ectx \<Rightarrow> (nat \<Rightarrow> thr) \<Rightarrow> (nat \<Rightarrow> thr) \<Rightarrow> bool" where
  "can_reach auth c ts ts' \<longleftrightarrow> (\<exists>c'. (estep auth)\<^sup>*\<^sup>* (Some (c, ts)) (Some (c', ts')) \<and> sinv auth (c', ts') \<and> e_idle c' = e_idle c)"

lemma can_reach_step:
  assumes "sinv auth (c, ts)" "estep auth (Some (c, ts)) r"
    and "\<And>c' ts'. r = Some (c', ts') \<Longrightarrow> sinv auth (c', ts') \<Longrightarrow> can_reach auth c' ts' us"
  shows "can_reach auth c ts us"
proof -
  obtain c' ts' where r: "r = Some (c', ts')" "sinv auth (c', ts')" "e_idle c' = e_idle c"
    using estep_ok [OF assms(2,1)] by (auto simp: step_ok_def)
  then obtain c'' where "(estep auth)\<^sup>*\<^sup>* (Some (c', ts')) (Some (c'', us))" "sinv auth (c'', us)" "e_idle c'' = e_idle c'"
    using assms(3) by (auto simp: can_reach_def)
  then show ?thesis
    using r assms(2) by (auto simp: can_reach_def intro: converse_rtranclp_into_rtranclp)
qed

lemma can_reach_refl: "sinv auth (c, ts) \<Longrightarrow> can_reach auth c ts ts"
  by (auto simp: can_reach_def)

lemma finish_destroying:
  assumes "sinv auth (c, ts)" "ts t = Destroying a"
  shows "can_reach auth c ts (ts(t := Idle))"
  using assms(1) estep.destroy [of ts t a auth c, OF assms(2)]
  by (rule can_reach_step) (auto intro: can_reach_refl)

lemma finish_given_back:
  assumes "sinv auth (c, ts(t := given_back removed a))"
  shows "can_reach auth c (ts(t := given_back removed a)) (ts(t := Idle))"
proof (cases removed)
  case True
  then show ?thesis
    using finish_destroying [of auth c "ts(t := Destroying a)" t a] assms by (simp add: given_back_def)
next
  case False
  then show ?thesis
    using can_reach_refl [of auth c] assms by (simp add: given_back_def)
qed

definition failing_ep :: ep_fun where
  "failing_ep e st = (1, e, st)"

lemma failing_ep_ok: "ep_ok failing_ep"
  by (simp add: ep_ok_def failing_ep_def)

lemma finish_pulled:
  assumes "sinv auth (c, ts)" "ts t = Pulled a rv st"
  shows "can_reach auth c ts (ts(t := Idle))"
  using assms(1) estep.pull_end [of ts t a rv st auth c plain_xmllib 0 True "[]" None undefined, OF assms(2)]
  by (rule can_reach_step) (auto intro: finish_given_back)

lemma finish_released:
  assumes "sinv auth (c, ts)" "ts t = Released a rv"
  shows "can_reach auth c ts (ts(t := Idle))"
  using assms(1) estep.release_end [of ts t a rv auth c plain_xmllib 0 True "[]" None undefined, OF assms(2)]
  by (rule can_reach_step) (auto intro: finish_given_back)

lemma finish_enumerated:
  assumes "sinv auth (c, ts)" "ts t = Enumerated a rv st"
  shows "can_reach auth c ts (ts(t := Idle))"
proof -
  let ?m = "\<lparr>cm_copy = False, cm_key = False, cm_node = None, cm_table = False\<rparr>"
  have "entry_mem ?m c"
    by (simp add: entry_mem_def)
  from assms(1) estep.enumerate_end [of ts t a rv st ?m c auth plain_xmllib 0 "[]" None undefined, OF assms(2) this]
  show ?thesis
    by (rule can_reach_step) (auto intro: can_reach_refl)
qed

lemma finish_expiring: "sinv auth (c, ts) \<Longrightarrow> ts t = Expiring as \<Longrightarrow> can_reach auth c ts (ts(t := Idle))"
proof (induction as arbitrary: c ts)
  case Nil
  show ?case
    using Nil.prems(1) estep.expire_done [of ts t auth c, OF Nil.prems(2)]
    by (rule can_reach_step) (auto intro: can_reach_refl)
next
  case (Cons a as)
  have "estep auth (Some (c, ts)) (map_option (\<lambda>c'. (c', ts(t := Expiring as))) (expire_one (\<lambda>_. failing_ep) c a))"
    using estep.expire_next [of ts t a as "\<lambda>_. failing_ep" auth c, OF Cons.prems(2)] failing_ep_ok by blast
  with Cons.prems(1) show ?case
  proof (rule can_reach_step)
    fix c' ts'
    assume "map_option (\<lambda>c'. (c', ts(t := Expiring as))) (expire_one (\<lambda>_. failing_ep) c a) = Some (c', ts')" "sinv auth (c', ts')"
    then have "sinv auth (c', ts')" "ts' = ts(t := Expiring as)"
      by auto
    then show "can_reach auth c' ts' (ts(t := Idle))"
      using Cons.IH [of c' ts'] by (simp only: fun_upd_same fun_upd_upd)
  qed
qed

lemma finish_call:
  assumes "sinv auth (c, ts)" "estep auth (Some (c, ts)) (map_option (\<lambda>(rv, st, c'). (c', ts(t := th rv st))) X)"
    and "\<And>c' rv st. sinv auth (c', ts(t := th rv st)) \<Longrightarrow> can_reach auth c' (ts(t := th rv st)) (ts(t := Idle))"
  shows "can_reach auth c ts (ts(t := Idle))"
  using assms(1,2) by (rule can_reach_step) (use assms(3) in auto)

lemma can_finish:
  assumes inv: "sinv auth (c, ts)"
  shows "can_reach auth c ts (ts(t := Idle))"
proof (cases "ts t")
  case Idle
  then show ?thesis
    using can_reach_refl [OF inv] by (simp add: fun_upd_idem)
next
  case (Enumerating a)
  show ?thesis
    using inv estep.enumerate_call [of ts t a None auth c, OF Enumerating]
    by (rule finish_call) (use finish_enumerated in fastforce)+
next
  case (Enumerated a rv st)
  then show ?thesis
    using finish_enumerated [OF inv] by blast
next
  case (Pulling a)
  show ?thesis
    using inv estep.pull_call [of ts t a failing_ep auth c, OF Pulling failing_ep_ok]
    by (rule finish_call) (use finish_pulled in fastforce)
next
  case (Pulled a rv st)
  then show ?thesis
    using finish_pulled [OF inv] by blast
next
  case (Releasing a)
  show ?thesis
    using inv estep.release_call [of ts t a None auth c, OF Releasing]
    by (rule finish_call) (use finish_released in fastforce)+
next
  case (Released a rv)
  then show ?thesis
    using finish_released [OF inv] by blast
next
  case (Destroying a)
  then show ?thesis
    using finish_destroying [OF inv] by blast
next
  case (Expiring as)
  then show ?thesis
    using finish_expiring [OF inv] by blast
qed

lemma can_reach_trans:
  assumes "can_reach auth c ts us" "\<And>c'. sinv auth (c', us) \<Longrightarrow> can_reach auth c' us vs"
  shows "can_reach auth c ts vs"
proof -
  obtain c' where c': "(estep auth)\<^sup>*\<^sup>* (Some (c, ts)) (Some (c', us))" "sinv auth (c', us)" "e_idle c' = e_idle c"
    using assms(1) by (auto simp: can_reach_def)
  then obtain c'' where "(estep auth)\<^sup>*\<^sup>* (Some (c', us)) (Some (c'', vs))" "sinv auth (c'', vs)" "e_idle c'' = e_idle c'"
    using assms(2) [OF c'(2)] unfolding can_reach_def by blast
  then show ?thesis
    using c' rtranclp_trans [OF c'(1)] unfolding can_reach_def by (intro exI [of _ c'']) simp
qed

lemma all_finish: "finite S \<Longrightarrow> sinv auth (c, ts) \<Longrightarrow> {t. ts t \<noteq> Idle} \<subseteq> S \<Longrightarrow> can_reach auth c ts (\<lambda>_. Idle)"
proof (induction S arbitrary: c ts rule: finite_induct)
  case empty
  then have "ts = (\<lambda>_. Idle)"
    by auto
  then show ?case
    using can_reach_refl empty.prems(1) by blast
next
  case (insert t S)
  have "can_reach auth c ts (ts(t := Idle))"
    by (rule can_finish [OF insert.prems(1)])
  moreover have "{u. (ts(t := Idle)) u \<noteq> Idle} \<subseteq> S"
    using insert.prems(2) by auto
  ultimately show ?case
    using insert.IH [of _ "ts(t := Idle)"] by (blast intro: can_reach_trans)
qed

text \<open>With no thread at work every context of the table is expired at the end of time.\<close>

lemma all_expired:
  assumes "sinv auth (c, \<lambda>_. Idle)"
  shows "expired_in (- 1) c a \<longleftrightarrow> in_table c a"
proof
  assume "in_table c a"
  moreover then obtain e where e: "e_heap c a = Some e"
    using in_table_alloc [OF sinvD(1) [OF assms]] by blast
  moreover have "\<not> in_work e"
    using sinvD(6) [OF assms e] by auto
  moreover have "enum_expired (e_idle c) (- 1) e"
    by (simp add: enum_expired_def not_less)
  ultimately show "expired_in (- 1) c a"
    by (simp add: expired_in_def)
qed (auto simp: expired_in_def)

lemma can_empty:
  assumes inv: "sinv auth (c, \<lambda>_. Idle)" and idle: "e_idle c \<noteq> 0"
  shows "\<exists>c'. (estep auth)\<^sup>*\<^sup>* (Some (c, \<lambda>_. Idle)) (Some (c', \<lambda>_. Idle)) \<and> (\<forall>a. \<not> in_table c' a)"
proof -
  obtain l c1 where c1: "wsman_get_expired_enuminfos True (\<lambda>_. True) (- 1) c = Some (l, c1)"
    "sinv auth (c1, (\<lambda>_. Idle)(0 := (case l of None \<Rightarrow> Idle | Some as \<Rightarrow> Expiring as)))" "\<And>b. \<not> in_table c1 b"
    using expire_step [OF inv, where t = 0 and lm = True and now = "- 1"] idle all_expired [OF inv] by auto
  have step: "estep auth (Some (c, \<lambda>_. Idle)) (Some (c1, (\<lambda>_. Idle)(0 := (case l of None \<Rightarrow> Idle | Some as \<Rightarrow> Expiring as))))"
    using estep.expire [where ts = "\<lambda>_. Idle" and t = 0 and auth = auth and c = c and lm = True and now = "- 1"] c1(1) by simp
  show ?thesis
  proof (cases l)
    case None
    then have "estep auth (Some (c, \<lambda>_. Idle)) (Some (c1, \<lambda>_. Idle))"
      using step by (simp add: fun_upd_idem)
    then show ?thesis
      using c1(3) by blast
  next
    case (Some as)
    have "\<exists>c'. (estep auth)\<^sup>*\<^sup>* (Some (d, (\<lambda>_. Idle)(0 := Expiring xs))) (Some (c', \<lambda>_. Idle)) \<and> e_table c' = e_table d"
      if "sinv auth (d, (\<lambda>_. Idle)(0 := Expiring xs))" for d xs
      using that
    proof (induction xs arbitrary: d)
      case Nil
      have "estep auth (Some (d, (\<lambda>_. Idle)(0 := Expiring []))) (Some (d, \<lambda>_. Idle))"
        using estep.expire_done [of "(\<lambda>_. Idle)(0 := Expiring [])" 0 auth d] by (simp add: fun_upd_idem)
      then show ?case
        by blast
    next
      case (Cons x xs)
      obtain d' where d': "expire_one (\<lambda>_. failing_ep) d x = Some d'" "e_table d' = e_table d"
        "sinv auth (d', (\<lambda>_. Idle)(0 := Expiring xs))"
        using expire_next_step [where ts = "(\<lambda>_. Idle)(0 := Expiring (x # xs))" and t = 0, unfolded fun_upd_upd fun_upd_same,
            OF Cons.prems refl, of "\<lambda>_. failing_ep"] failing_ep_ok by blast
      have "estep auth (Some (d, (\<lambda>_. Idle)(0 := Expiring (x # xs)))) (Some (d', (\<lambda>_. Idle)(0 := Expiring xs)))"
        using estep.expire_next [of "(\<lambda>_. Idle)(0 := Expiring (x # xs))" 0 x xs "\<lambda>_. failing_ep" auth d] failing_ep_ok d'(1) by simp
      then show ?case
        using Cons.IH [OF d'(3)] unfolding d'(2) by (blast intro: converse_rtranclp_into_rtranclp)
    qed
    from this [of c1 as] obtain c' where "(estep auth)\<^sup>*\<^sup>* (Some (c1, (\<lambda>_. Idle)(0 := Expiring as))) (Some (c', \<lambda>_. Idle))" "e_table c' = e_table c1"
      using c1(2) Some by auto
    then show ?thesis
      using step c1(3) in_table_cong [of c' c1] unfolding Some option.case by (blast intro: converse_rtranclp_into_rtranclp)
  qed
qed

section \<open>Properties\<close>


definition sample_enumerate :: xdoc where
  "sample_enumerate = Some (envelope
     [Elem (Some XML_NS_ADDRESSING) WSA_TO [] [Text ''to''], Elem (Some XML_NS_WS_MAN) WSM_RESOURCE_URI [] [Text ''urn:a'']]
     [Elem (Some XML_NS_ENUMERATION) WSENUM_ENUMERATE [] []])"

definition sample_clock :: clock where
  "sample_clock = \<lparr>tv_sec = 0, clk_isdst = 0, clk_mktime = (\<lambda>_. 0), clk_dround = (\<lambda>_. 0)\<rparr>"

definition no_plugins :: WsManDispatcherInfo where
  "no_plugins = \<lparr>interfaceCount = 0, mapCount = 0, interfaces = [], dmap = [], di_size = 16\<rparr>"

lemma sample_begin:
  "\<exists>e. enumerate_begin plain_xmllib sample_clock ''id'' [] True (Some 7) None None 0 wsman_soap_message_new no_plugins sample_enumerate
     empty_nsdoc c = Some (Inr (7, e_put c 7 e))"
proof -
  have tx: "ws_xml_get_node_text plain_xmllib (ws_xml_get_child (ws_xml_get_soap_header sample_enumerate) 0 (Some XML_NS_ADDRESSING) (Some WSA_TO)) = Some ''to''"
    "ws_xml_get_node_text plain_xmllib (ws_xml_get_child (ws_xml_get_soap_header sample_enumerate) 0 (Some XML_NS_WS_MAN) (Some WSM_RESOURCE_URI)) = Some ''urn:a''"
    "ws_xml_get_child (ws_xml_get_child (ws_xml_get_soap_body sample_enumerate) 0 (Some XML_NS_ENUMERATION) (Some WSENUM_ENUMERATE))
       0 (Some XML_NS_ENUMERATION) (Some WSENUM_EXPIRES) = None"
    by code_simp+
  have "\<exists>e. create_enum_info plain_xmllib sample_clock ''id'' True 0 wsman_soap_message_new no_plugins sample_enumerate = Some (Inr e)"
    by (simp add: create_enum_info_def Let_def tx wsman_get_release_endpoint_def no_plugins_def)
  then show ?thesis
    by (auto simp: enumerate_begin_def enum_quota_full_def)
qed

lemma sample_run:
  "\<exists>h c. context_table True = Some (Some h) \<and>
    (estep False)\<^sup>*\<^sup>* (server_start 60 h) (Some (c, (\<lambda>_. Idle)(0 := Enumerating 7)))"
proof -
  obtain h :: "addr hash_t" where h: "context_table True = Some (Some h)"
    using context_table_ok [where 'v = addr] by blast
  let ?c = "\<lparr>e_table = h, e_heap = Map.empty, e_idle = 60, e_indoc = None\<rparr>"
  obtain e where e: "enumerate_begin plain_xmllib sample_clock ''id'' [] True (Some 7) None None 0 wsman_soap_message_new no_plugins sample_enumerate
     empty_nsdoc ?c = Some (Inr (7, e_put ?c 7 e))"
    using sample_begin [of ?c] by blast
  have "estep False (Some (?c, \<lambda>_. Idle)) (map_option (\<lambda>r. case r of Inl rep \<Rightarrow> (?c, \<lambda>_. Idle) | Inr (a, c') \<Rightarrow> (c', (\<lambda>_. Idle)(0 := Enumerating a)))
      (enumerate_begin plain_xmllib sample_clock ''id'' [] True (Some 7) None None 0 wsman_soap_message_new no_plugins sample_enumerate empty_nsdoc ?c))"
    by (rule estep.enumerate)
      (simp_all add: msg_ok_def fresh_id_def fresh_addr_def quota_ok_def no_plugins_def wsman_soap_message_new_def)
  then show ?thesis
    using h unfolding e server_start_def by auto
qed




end
