(* ===== verification/Ws_Inbound.thy ===== *)
theory Ws_Inbound
  imports Ws_Enum
begin

text \<open>
  Inbound requests, from \<open>src/src/lib/wsman-dispatcher.c\<close>: the checks that a request passes before the
  function of its endpoint is called (message id, unsupported features, headers that must be
  understood, control headers, selectors), the filters of the answer, and \<open>dispatch_inbound_call\<close>,
  which ties parsing, dispatching, checks, the call and the answer together.

  An answer is the document that is dumped into the response buffer.  The function of an endpoint
  is a parameter that may change a state of its own; so are the filters that other code has added.

  The lemmas show that the function is called exactly for requests that a declarative specification admits,
  that every other request is answered by a fault, that the ids remembered are the last ones
  accepted, and that the usage counts of the dispatch entries are balanced.
\<close>

section \<open>Operations\<close>

record op_t =
  op_expires :: int
  op_maxsize :: ulong
  op_in_doc :: xdoc
  op_out_doc :: xdoc

definition soap_get_op_doc :: "op_t option \<Rightarrow> bool \<Rightarrow> xdoc" where
  "soap_get_op_doc op inbound =
     (case op of None \<Rightarrow> None | Some e \<Rightarrow> if \<not> inbound then op_out_doc e else op_in_doc e)"

definition soap_detach_op_doc :: "op_t option \<Rightarrow> bool \<Rightarrow> xdoc \<times> op_t option" where
  "soap_detach_op_doc op inbound =
     (case op of
        None \<Rightarrow> (None, None)
      | Some e \<Rightarrow>
          if \<not> inbound then (op_out_doc e, Some (e\<lparr>op_out_doc := None\<rparr>))
          else (op_in_doc e, Some (e\<lparr>op_in_doc := None\<rparr>)))"

definition soap_set_op_doc :: "op_t option \<Rightarrow> xdoc \<Rightarrow> bool \<Rightarrow> int \<times> op_t option" where
  "soap_set_op_doc op doc inbound =
     (case op of
        None \<Rightarrow> (1, None)
      | Some e \<Rightarrow> (0, Some (if \<not> inbound then e\<lparr>op_out_doc := doc\<rparr> else e\<lparr>op_in_doc := doc\<rparr>)))"

text \<open>What the checks use of libxml2, of the id generator and of the C library: the declarations of a new
  document, the id of a fault, the length of a dumped document, the value of an XPath query, rounding.\<close>

record inlib =
  il_xml :: xmllib
  il_nd :: nsdoc
  il_uuid :: string
  il_dump_len :: "xnode \<Rightarrow> int"
  il_xpath :: "xnode \<Rightarrow> string option"
  il_dround :: "string \<Rightarrow> int"

section \<open>Faults of an operation\<close>

definition wsman_is_fault_envelope :: "xdoc \<Rightarrow> bool" where
  "wsman_is_fault_envelope doc \<longleftrightarrow>
     ws_xml_get_child (ws_xml_get_soap_body doc) 0 (Some XML_NS_SOAP_1_2) (Some SOAP_FAULT) \<noteq> None"

definition generate_op_fault :: "inlib \<Rightarrow> op_t \<Rightarrow> WsmanFaultCodeType \<Rightarrow> WsmanFaultDetailType \<Rightarrow> op_t" where
  "generate_op_fault il op faultCode faultDetail =
     op\<lparr>op_out_doc :=
       (if op_in_doc op = None then None
        else built (il_nd il) (wsman_generate_fault (il_xml il) (il_uuid il) (op_in_doc op) faultCode faultDetail None))\<rparr>"

definition ws_xml_add_qname_attr :: "xnode \<Rightarrow> string \<Rightarrow> string option \<Rightarrow> string option \<Rightarrow> (nsdoc, xnode) state" where
  "ws_xml_add_qname_attr node name valueNs value =
     (case (valueNs, value) of
        (Some u, Some v) \<Rightarrow> do {
          buf \<leftarrow> make_qname u v;
          State_Monad.return (add_attr node \<lparr>xa_ns = None, xa_name = name, xa_value = buf\<rparr>)
        }
      | _ \<Rightarrow> State_Monad.return node)"

definition generate_notunderstood_fault :: "inlib \<Rightarrow> op_t \<Rightarrow> xnode \<Rightarrow> op_t" where
  "generate_notunderstood_fault il op notUnderstoodHeader =
     (if op_in_doc op = None then op
      else op\<lparr>op_out_doc := built (il_nd il) (do {
        d \<leftarrow> wsman_generate_fault (il_xml il) (il_uuid il) (op_in_doc op) SOAP_FAULT_MUSTUNDERSTAND WSMAN_DETAIL_OK None;
        case d of
          None \<Rightarrow> State_Monad.return None
        | Some r \<Rightarrow> do {
            r \<leftarrow> on_header (\<lambda>h. do {
                   child \<leftarrow> make_new_xml_node (il_xml il) (Some XML_NS_SOAP_1_2) ''NotUnderstood'' None;
                   child \<leftarrow> ws_xml_add_qname_attr child ''qname'' (ws_xml_get_node_name_ns (Some notUnderstoodHeader))
                             (ws_xml_get_node_local_name (Some notUnderstoodHeader));
                   State_Monad.return (add_kid h child) }) r;
            State_Monad.return (Some r)
          }
      })\<rparr>)"

section \<open>Checks\<close>

definition s_Info :: "(string \<times> string) list" where
  "s_Info =
     [(XML_NS_ADDRESSING, WSA_TO),
      (XML_NS_ADDRESSING, WSA_MESSAGE_ID),
      (XML_NS_ADDRESSING, WSA_RELATES_TO),
      (XML_NS_ADDRESSING, WSA_ACTION),
      (XML_NS_ADDRESSING, WSA_REPLY_TO),
      (XML_NS_ADDRESSING, WSA_FROM),
      (XML_NS_WS_MAN, WSM_RESOURCE_URI),
      (XML_NS_WS_MAN, WSM_SELECTOR_SET),
      (XML_NS_WS_MAN, WSM_MAX_ENVELOPE_SIZE),
      (XML_NS_WS_MAN, WSM_OPERATION_TIMEOUT),
      (XML_NS_WS_MAN, WSM_FRAGMENT_TRANSFER),
      (XML_NS_TRUST, WST_ISSUEDTOKENS)]"

text \<open>\<open>None\<close> is \<open>strcmp\<close> of a null pointer.\<close>

fun mu_header_loop :: "string option \<Rightarrow> string option \<Rightarrow> (string \<times> string) list \<Rightarrow> bool option" where
  "mu_header_loop name ns [] = Some False"
| "mu_header_loop name ns ((ins, iname) # rest) =
     (if ns \<noteq> None \<and> strcmp (the ns) ins = 0
      then do { nm \<leftarrow> name; if strcmp nm iname = 0 then Some True else mu_header_loop name ns rest }
      else mu_header_loop name ns rest)"

definition is_mu_header :: "xnode \<Rightarrow> bool option" where
  "is_mu_header header =
     mu_header_loop (ws_xml_get_node_local_name (Some header)) (ws_xml_get_node_name_ns (Some header)) s_Info"

fun mustunderstand_loop :: "string option \<Rightarrow> xnode list \<Rightarrow> xnode option option" where
  "mustunderstand_loop nsUri [] = Some None"
| "mustunderstand_loop nsUri (child # rest) =
     (if ws_xml_find_attr_bool (Some child) nsUri SOAP_MUST_UNDERSTAND
      then do { mu \<leftarrow> is_mu_header child; if \<not> mu then Some (Some child) else mustunderstand_loop nsUri rest }
      else mustunderstand_loop nsUri rest)"

definition validate_mustunderstand_headers :: "op_t \<Rightarrow> xnode option option" where
  "validate_mustunderstand_headers op =
     (let header = wsman_get_soap_header_element (op_in_doc op) None None in
      mustunderstand_loop (ws_xml_get_node_name_ns header) (indexed_children header None None))"

fun dup_selectors_loop ::
  "xmllib \<Rightarrow> alloc \<Rightarrow> nat \<Rightarrow> xnode list \<Rightarrow> string option hash_t \<Rightarrow> (fault option \<times> string option hash_t) option" where
  "dup_selectors_loop L al i [] h = Some (None, h)"
| "dup_selectors_loop L al i (selector # rest) h =
     (case ws_xml_find_attr_value (Some selector) None WSM_NAME of
        None \<Rightarrow> dup_selectors_loop L al (Suc i) rest h
      | Some attrVal \<Rightarrow> do {
          r \<leftarrow> hash_lookup h attrVal;
          if r \<noteq> None then Some (Some (WSMAN_INVALID_SELECTORS, WSMAN_DETAIL_DUPLICATE_SELECTORS), h)
          else do {
            (ok, h) \<leftarrow> hash_alloc_insert (fst (al i)) (snd (al i)) h attrVal (ws_xml_get_node_text L (Some selector));
            if \<not> ok then Some (Some (WSMAN_INTERNAL_ERROR, OWSMAN_NO_DETAILS), h)
            else dup_selectors_loop L al (Suc i) rest h
          }
        })"

text \<open>\<open>created\<close>: whether the table can be allocated.\<close>

definition check_for_duplicate_selectors :: "inlib \<Rightarrow> bool \<Rightarrow> alloc \<Rightarrow> op_t \<Rightarrow> (bool \<times> op_t) option" where
  "check_for_duplicate_selectors il created al op =
     (let header = wsman_get_soap_header_element (op_in_doc op) None None;
          node = ws_xml_get_child header 0 (Some XML_NS_WS_MAN) (Some WSM_SELECTOR_SET)
      in if node = None then Some (False, op)
         else do {
           h \<leftarrow> hash_create created HASHCOUNT_T_MAX None None;
           case h of
             None \<Rightarrow> Some (True, generate_op_fault il op WSMAN_INTERNAL_ERROR OWSMAN_NO_DETAILS)
           | Some h \<Rightarrow> do {
               (f, h) \<leftarrow> dup_selectors_loop (il_xml il) al 0 (indexed_children node (Some XML_NS_WS_MAN) (Some WSM_SELECTOR)) h;
               hash_free (Some h);
               Some (case f of None \<Rightarrow> (False, op) | Some (fc, fd) \<Rightarrow> (True, generate_op_fault il op fc fd))
             }
         })"

definition WSMAN_MINIMAL_ENVELOPE_SIZE_REQUEST :: ulong where
  "WSMAN_MINIMAL_ENVELOPE_SIZE_REQUEST = 8192"

definition WSMAN_MAX_ENVELOPE_SIZE :: ulong where
  "WSMAN_MAX_ENVELOPE_SIZE = 32767"

definition PROCESSED_MSG_ID_MAX_SIZE :: nat where
  "PROCESSED_MSG_ID_MAX_SIZE = 200"

definition validate_envelope_size :: "inlib \<Rightarrow> op_t \<Rightarrow> bool \<times> op_t" where
  "validate_envelope_size il op =
     (let header = wsman_get_soap_header_element (op_in_doc op) None None;
          maxsize = ws_xml_get_child header 0 (Some XML_NS_WS_MAN) (Some WSM_MAX_ENVELOPE_SIZE);
          op = (if maxsize = None then op\<lparr>op_maxsize := WSMAN_MAX_ENVELOPE_SIZE\<rparr> else op)
      in if maxsize \<noteq> None \<and> mu_true maxsize then
           (let size = ws_deserialize_uint32 (il_xml il) header 0 (Some XML_NS_WS_MAN) (Some WSM_MAX_ENVELOPE_SIZE) in
            if size < WSMAN_MINIMAL_ENVELOPE_SIZE_REQUEST
            then (False, generate_op_fault il op WSMAN_ENCODING_LIMIT WSMAN_DETAIL_MINIMUM_ENVELOPE_LIMIT)
            else (True, op\<lparr>op_maxsize := size\<rparr>))
         else (True, op))"

definition validate_timeout :: "inlib \<Rightarrow> op_t \<Rightarrow> bool \<times> op_t" where
  "validate_timeout il op =
     (let header = wsman_get_soap_header_element (op_in_doc op) None None;
          child = ws_xml_get_child header 0 (Some XML_NS_WS_MAN) (Some WSM_OPERATION_TIMEOUT);
          nsUri = ws_xml_get_node_name_ns header
      in if child = None then (True, op)
         else case ws_deserialize_duration (il_dround il) (ws_xml_get_node_text (il_xml il) child) of
           None \<Rightarrow> (False, generate_op_fault il op WSA_INVALID_MESSAGE_INFORMATION_HEADER WSMAN_DETAIL_OPERATION_TIMEOUT)
         | Some duration \<Rightarrow>
             if duration \<le> 0 then (False, generate_op_fault il op WSMAN_TIMED_OUT WSMAN_DETAIL_OK)
             else if ws_xml_find_attr_bool child nsUri SOAP_MUST_UNDERSTAND
             then (False, generate_op_fault il (op\<lparr>op_expires := duration\<rparr>) WSMAN_UNSUPPORTED_FEATURE WSMAN_DETAIL_OPERATION_TIMEOUT)
             else (True, op\<lparr>op_expires := duration\<rparr>))"

definition validate_control_headers :: "inlib \<Rightarrow> op_t \<Rightarrow> bool \<times> op_t" where
  "validate_control_headers il op =
     (case validate_envelope_size il op of
        (ok, op) \<Rightarrow> if \<not> ok then (False, op) else validate_timeout il op)"

definition check_supported_dialect :: "string \<Rightarrow> bool" where
  "check_supported_dialect dialect \<longleftrightarrow>
     (if strcmp dialect WSM_ASSOCIATION_FILTER_DIALECT = 0 then False
      else if strcmp dialect WSM_XPATH_FILTER_DIALECT = 0 then False
      else if strcmp dialect WSM_WQL_FILTER_DIALECT = 0 then False
      else if strcmp dialect WSM_CQL_FILTER_DIALECT = 0 then False
      else if strcmp dialect WSM_SELECTOR_FILTER_DIALECT = 0 then False
      else True)"

text \<open>The part of \<open>check_unsupported_features\<close> for enumerations: the value of \<open>retVal\<close>, whether the rest is
  skipped, and the operation.  A filter overwrites the \<open>retVal\<close> that an \<open>EndTo\<close> has set.\<close>

definition unsupported_enumerate :: "inlib \<Rightarrow> xnode option \<Rightarrow> xnode \<Rightarrow> op_t \<Rightarrow> bool \<times> bool \<times> op_t" where
  "unsupported_enumerate il header enumurate op =
     (let e = Some enumurate;
          endto = (ws_xml_get_child e 0 (Some XML_NS_ENUMERATION) (Some WSENUM_END_TO) \<noteq> None);
          op = (if endto then generate_op_fault il op WSMAN_UNSUPPORTED_FEATURE WSMAN_DETAIL_ADDRESSING_MODE else op);
          n = ws_xml_get_child e 0 (Some XML_NS_ENUMERATION) (Some WSENUM_FILTER);
          m = ws_xml_get_child e 0 (Some XML_NS_WS_MAN) (Some WSM_FILTER)
      in if n \<noteq> None \<and> m \<noteq> None
         then (True, True, generate_op_fault il op WSEN_CANNOT_PROCESS_FILTER WSMAN_DETAIL_OK)
         else
           let filtered = (n \<noteq> None \<or> m \<noteq> None);
               dia = ws_xml_find_attr_value (if n \<noteq> None then n else m) None WSM_DIALECT;
               bad = filtered \<and> check_supported_dialect (case dia of Some d \<Rightarrow> d | None \<Rightarrow> WSM_XPATH_FILTER_DIALECT);
               retVal = (if filtered then bad else endto)
           in if bad then (True, True, generate_op_fault il op WSEN_FILTER_DIALECT_REQUESTED_UNAVAILABLE WSMAN_DETAIL_OK)
              else
                let k = ws_xml_get_child header 0 (Some XML_NS_WS_MAN) (Some WSM_RESOURCE_URI);
                    resource_uri = (if k \<noteq> None then ws_xml_get_node_text (il_xml il) k else None)
                in if resource_uri = Some CIM_ALL_AVAILABLE_CLASSES \<and> n = None \<and> m = None
                   then (True, True, generate_op_fault il op WSMAN_UNSUPPORTED_FEATURE WSMAN_DETAIL_FILTERING_REQUIRED)
                   else (retVal, False, op))"

text \<open>The part for subscriptions.\<close>

definition unsupported_subscribe :: "inlib \<Rightarrow> xnode \<Rightarrow> bool \<Rightarrow> op_t \<Rightarrow> bool \<times> op_t" where
  "unsupported_subscribe il subscribe retVal op =
     (case ws_xml_get_child (Some subscribe) 0 (Some XML_NS_EVENTING) (Some WSEVENT_DELIVERY) of
        None \<Rightarrow> (True, generate_op_fault il op WSE_INVALID_MESSAGE WSMAN_DETAIL_OK)
      | Some n \<Rightarrow>
          if (case ws_xml_find_node_attr (Some n) None WSEVENT_DELIVERY_MODE of
                None \<Rightarrow> False
              | Some attr \<Rightarrow> list_all (\<lambda>mode. strcasecmp (xa_value attr) mode \<noteq> 0)
                  [WSEVENT_DELIVERY_MODE_PUSH, WSEVENT_DELIVERY_MODE_PUSHWITHACK,
                   WSEVENT_DELIVERY_MODE_EVENTS, WSEVENT_DELIVERY_MODE_PULL])
          then (True, generate_op_fault il op WSE_DELIVERY_MODE_REQUESTED_UNAVAILABLE WSMAN_DETAIL_OK)
          else if ws_xml_get_child (Some n) 0 (Some XML_NS_WS_MAN) (Some WSM_CONNECTIONRETRY) \<noteq> None
          then (True, generate_op_fault il op WSMAN_UNSUPPORTED_FEATURE WSMAN_DETAIL_DELIVERY_RETRIES)
          else (retVal, op))"

definition check_unsupported_features :: "inlib \<Rightarrow> op_t \<Rightarrow> bool \<times> op_t" where
  "check_unsupported_features il op =
     (let header = wsman_get_soap_header_element (op_in_doc op) None None;
          body = ws_xml_get_soap_body (op_in_doc op)
      in if ws_xml_get_child header 0 (Some XML_NS_ADDRESSING) (Some WSA_FAULT_TO) \<noteq> None
         then (True, generate_op_fault il op WSMAN_UNSUPPORTED_FEATURE WSMAN_DETAIL_ADDRESSING_MODE)
         else if mu_true (ws_xml_get_child header 0 (Some XML_NS_WS_MAN) (Some WSM_LOCALE))
         then (True, generate_op_fault il op WSMAN_UNSUPPORTED_FEATURE WSMAN_DETAIL_LOCALE)
         else
           case (case ws_xml_get_child body 0 (Some XML_NS_ENUMERATION) (Some WSENUM_ENUMERATE) of
                   None \<Rightarrow> (False, False, op)
                 | Some e \<Rightarrow> unsupported_enumerate il header e op) of
             (retVal, stop, op) \<Rightarrow>
               if stop then (retVal, op)
               else case ws_xml_get_child body 0 (Some XML_NS_EVENTING) (Some WSEVENT_SUBSCRIBE) of
                 None \<Rightarrow> (retVal, op)
               | Some s \<Rightarrow> unsupported_subscribe il s retVal op)"

section \<open>The message id\<close>

text \<open>The state of the server: the dispatch entries, the context of the runtime, the ids of the messages
  processed, whether the lock has been left held, and the filters.  A filter is one of the two of the program, or one that
  other code has added.\<close>

datatype soap_filter = outbound_addressing_cb | outbound_control_header_cb | other_filter nat

record isoap =
  is_soap :: soap_t
  is_cntx :: WS_CONTEXT
  processedMsgIdList :: "string list option"
  soap_locked :: bool
  inboundFilterList :: "soap_filter list"
  outboundFilterList :: "soap_filter list"

text \<open>Outcomes of allocations: the list of ids, a node for an id, the table of the selectors with its nodes, the table of
  a context on deletion, the operation, its context.\<close>

record in_mem =
  im_list :: bool
  im_node :: bool
  im_hash :: bool
  im_alloc :: alloc
  im_table :: bool
  im_op :: bool
  im_cntx :: "bool \<times> bool \<times> bool"

definition remember_id :: "bool \<Rightarrow> string \<Rightarrow> string list \<Rightarrow> string list" where
  "remember_id node_ok msgId ids =
     (let ids = drop (length ids + 1 - PROCESSED_MSG_ID_MAX_SIZE) ids in if node_ok then ids @ [msgId] else ids)"

text \<open>\<open>ignore\<close> is the compile-time option \<open>IGNORE_DUPLICATE_ID\<close>.  When the list cannot be created the function
  returns with the lock held.  Locking a lock that is held does not return.\<close>

definition wsman_is_duplicate_message_id ::
  "inlib \<Rightarrow> in_mem \<Rightarrow> bool \<Rightarrow> isoap \<Rightarrow> op_t \<Rightarrow> (bool \<times> op_t \<times> isoap) option" where
  "wsman_is_duplicate_message_id il m ignore s op =
     (let header = wsman_get_soap_header_element (op_in_doc op) None None;
          msgIdNode = ws_xml_get_child header 0 (Some XML_NS_ADDRESSING) (Some WSA_MESSAGE_ID)
      in if msgIdNode \<noteq> None then
           (case ws_xml_get_node_text (il_xml il) msgIdNode of
              None \<Rightarrow> Some (True, generate_op_fault il op WSA_INVALID_MESSAGE_INFORMATION_HEADER WSMAN_DETAIL_OK, s)
            | Some msgId \<Rightarrow>
                if msgId = [] then
                  Some (True, generate_op_fault il op WSA_INVALID_MESSAGE_INFORMATION_HEADER WSMAN_DETAIL_OK, s)
                else do {
                  c_assert (\<not> soap_locked s);
                  if processedMsgIdList s = None \<and> \<not> im_list m then Some (True, op, s\<lparr>soap_locked := True\<rparr>)
                  else
                    let ids = (case processedMsgIdList s of None \<Rightarrow> [] | Some l \<Rightarrow> l) in
                    if \<not> ignore \<and> list_ex (\<lambda>i. strcmp msgId i = 0) ids then
                      Some (True, generate_op_fault il op WSA_INVALID_MESSAGE_INFORMATION_HEADER WSA_DETAIL_DUPLICATE_MESSAGE_ID,
                            s\<lparr>processedMsgIdList := Some ids\<rparr>)
                    else Some (False, op, s\<lparr>processedMsgIdList := Some (remember_id (im_node m) msgId ids)\<rparr>)
                })
         else if \<not> wsman_is_identify_request (op_in_doc op) then
           Some (True, generate_op_fault il op WSA_MESSAGE_INFORMATION_HEADER_REQUIRED WSMAN_DETAIL_OK, s)
         else Some (False, op, s))"

section \<open>Filters\<close>

definition soap_add_filter :: "bool \<Rightarrow> isoap \<Rightarrow> soap_filter \<Rightarrow> bool \<Rightarrow> bool \<times> isoap" where
  "soap_add_filter entry_ok s cb inbound =
     (if \<not> entry_ok then (False, s)
      else if \<not> inbound then (True, s\<lparr>outboundFilterList := outboundFilterList s @ [cb]\<rparr>)
      else (True, s\<lparr>inboundFilterList := inboundFilterList s @ [cb]\<rparr>))"

definition outbound_control_header_filter :: "inlib \<Rightarrow> op_t \<Rightarrow> op_t" where
  "outbound_control_header_filter il op =
     (if (case op_out_doc op of None \<Rightarrow> False | Some d \<Rightarrow> check_envelope_size (il_dump_len il) d (ucast (op_maxsize op)))
      then generate_op_fault il op WSMAN_ENCODING_LIMIT WSMAN_DETAIL_SERVICE_ENVELOPE_LIMIT else op)"

definition add_related :: "inlib \<Rightarrow> xdoc \<Rightarrow> xnode \<Rightarrow> (nsdoc, xnode) state" where
  "add_related il in_doc h = do {
     h \<leftarrow> (if ws_xml_get_child (Some h) 0 (Some XML_NS_ADDRESSING) (Some WSA_MESSAGE_ID) = None \<and> \<not> wsman_is_identify_request in_doc
           then ws_xml_add_child (il_xml il) h (Some XML_NS_ADDRESSING) WSA_MESSAGE_ID (Some (il_uuid il))
           else State_Monad.return h);
     let inMsgIdNode = wsman_get_soap_header_element in_doc (Some XML_NS_ADDRESSING) (Some WSA_MESSAGE_ID);
     if in_doc \<noteq> None \<and> inMsgIdNode \<noteq> None \<and> ws_xml_get_child (Some h) 0 (Some XML_NS_ADDRESSING) (Some WSA_RELATES_TO) = None
     then ws_xml_add_child (il_xml il) h (Some XML_NS_ADDRESSING) WSA_RELATES_TO (ws_xml_get_node_text (il_xml il) inMsgIdNode)
     else State_Monad.return h
   }"

definition outbound_addressing_filter :: "inlib \<Rightarrow> op_t \<Rightarrow> op_t" where
  "outbound_addressing_filter il op =
     (case op_out_doc op of
        None \<Rightarrow> op
      | Some d \<Rightarrow> op\<lparr>op_out_doc := Some (built (il_nd il) (on_header (add_related il (op_in_doc op)) d))\<rparr>)"

text \<open>\<open>ext\<close>: the filters that other code has added; they return a value and the operation.\<close>

type_synonym filters = "nat \<Rightarrow> op_t \<Rightarrow> int \<times> op_t"

fun run_filter :: "inlib \<Rightarrow> filters \<Rightarrow> soap_filter \<Rightarrow> op_t \<Rightarrow> int \<times> op_t" where
  "run_filter il ext outbound_addressing_cb op = (0, outbound_addressing_filter il op)"
| "run_filter il ext outbound_control_header_cb op = (0, outbound_control_header_filter il op)"
| "run_filter il ext (other_filter k) op = ext k op"

fun process_filter_chain :: "inlib \<Rightarrow> filters \<Rightarrow> soap_filter list \<Rightarrow> op_t \<Rightarrow> int \<times> op_t" where
  "process_filter_chain il ext [] op = (0, op)"
| "process_filter_chain il ext (f # fs) op =
     (case run_filter il ext f op of
        (r, op) \<Rightarrow> if r \<noteq> 0 then (r, op) else process_filter_chain il ext fs op)"

text \<open>The checks of \<open>process_filters\<close> for an inbound message.\<close>

definition inbound_checks :: "inlib \<Rightarrow> in_mem \<Rightarrow> bool \<Rightarrow> isoap \<Rightarrow> op_t \<Rightarrow> (bool \<times> op_t \<times> isoap) option" where
  "inbound_checks il m ignore s op = do {
     (dup, op, s) \<leftarrow> wsman_is_duplicate_message_id il m ignore s op;
     if dup then Some (True, op, s)
     else case check_unsupported_features il op of (bad, op) \<Rightarrow>
       if bad then Some (True, op, s)
       else do {
         nu \<leftarrow> validate_mustunderstand_headers op;
         case nu of
           Some h \<Rightarrow> Some (True, generate_notunderstood_fault il op h, s)
         | None \<Rightarrow>
             (case validate_control_headers il op of (ok, op) \<Rightarrow>
                if \<not> ok then Some (True, op, s)
                else do {
                  (dupsel, op) \<leftarrow> check_for_duplicate_selectors il (im_hash m) (im_alloc m) op;
                  Some (dupsel, op, s)
                })
       }
   }"

text \<open>\<open>flags\<close> are those of the dispatch entry, whose own filter lists are always empty.\<close>

definition process_filters ::
  "inlib \<Rightarrow> filters \<Rightarrow> in_mem \<Rightarrow> bool \<Rightarrow> ulong \<Rightarrow> bool \<Rightarrow> isoap \<Rightarrow> op_t \<Rightarrow> (bool \<times> op_t \<times> isoap) option" where
  "process_filters il ext m ignore flags inbound s op =
     (case (if flags AND SOAP_SKIP_DEF_FILTERS = 0
            then process_filter_chain il ext (if inbound then inboundFilterList s else outboundFilterList s) op
            else (0, op)) of
        (r, op) \<Rightarrow>
          if r \<noteq> 0 then Some (True, op, s)
          else if inbound then inbound_checks il m ignore s op
          else Some (False, op, s))"

section \<open>A call\<close>

text \<open>The message with what the call writes into it: the status of HTTP and the document of the response.\<close>

record inmsg =
  im_msg :: WsmanMessage
  http_code :: int
  im_response :: xdoc

definition wsman_generate_fault_buffer :: "inlib \<Rightarrow> xdoc \<Rightarrow> WsmanStatus \<Rightarrow> xdoc" where
  "wsman_generate_fault_buffer il in_doc st =
     built (il_nd il) (wsman_generate_fault (il_xml il) (il_uuid il) in_doc (fault_code st) (fault_detail_code st) (fault_msg st))"

definition dispatcher_create_fault :: "inlib \<Rightarrow> inmsg \<Rightarrow> xdoc \<Rightarrow> inmsg" where
  "dispatcher_create_fault il msg in_doc =
     (if wsman_fault_occured (msg_status (im_msg msg)) then
        (let buf = wsman_generate_fault_buffer il in_doc (msg_status (im_msg msg));
             msg = (if buf \<noteq> None then msg\<lparr>im_response := buf\<rparr> else msg)
         in msg\<lparr>http_code := wsman_find_httpcode_for_fault_code (fault_code (msg_status (im_msg msg)))\<rparr>)
      else msg)"

text \<open>The function of an endpoint or a stub: it gets the entry's callback and data and the operation, and
  changes the operation and a state \<open>'g\<close> of its own.\<close>

type_synonym 'g service = "SoapServiceCallback \<Rightarrow> addr \<Rightarrow> op_t \<Rightarrow> 'g \<Rightarrow> int \<times> op_t \<times> 'g"

definition inbound_fault :: "inmsg \<Rightarrow> WsmanFaultCodeType \<Rightarrow> WsmanFaultDetailType \<Rightarrow> inmsg" where
  "inbound_fault msg fc fd = msg\<lparr>im_msg := msg_set_fault (im_msg msg) fc fd None\<rparr>"

definition put_response :: "inlib \<Rightarrow> xnode \<Rightarrow> inmsg \<Rightarrow> inmsg" where
  "put_response il d msg =
     (let msg = (if wsman_is_fault_envelope (Some d) then msg\<lparr>http_code := wsman_find_httpcode_for_value (il_xpath il d)\<rparr> else msg)
      in msg\<lparr>im_response := Some d\<rparr>)"

definition process_inbound_operation ::
  "inlib \<Rightarrow> filters \<Rightarrow> in_mem \<Rightarrow> bool \<Rightarrow> 'g service \<Rightarrow> dispatch_t \<Rightarrow> isoap \<Rightarrow> op_t \<Rightarrow> inmsg \<Rightarrow> 'g \<Rightarrow>
   (int \<times> isoap \<times> op_t \<times> inmsg \<times> 'g) option" where
  "process_inbound_operation il ext m ignore serve d s op msg g =
     (let msg = msg\<lparr>http_code := WSMAN_STATUS_OK\<rparr>; op = op\<lparr>op_out_doc := None\<rparr> in
      case serviceCallback d of
        None \<Rightarrow> Some (1, s, op, inbound_fault msg WSA_ACTION_NOT_SUPPORTED OWSMAN_NO_DETAILS, g)
      | Some cb \<Rightarrow> do {
          (stop, op, s) \<leftarrow> process_filters il ext m ignore (d_flags d) True s op;
          if stop then
            (case op_out_doc op of
               None \<Rightarrow> Some (1, s, op, inbound_fault msg WSMAN_INTERNAL_ERROR OWSMAN_NO_DETAILS, g)
             | Some doc \<Rightarrow> Some (1, s, op\<lparr>op_out_doc := None\<rparr>, put_response il doc msg, g))
          else
            case serve cb (serviceData d) op g of
              (retVal, op, g) \<Rightarrow>
                if op_out_doc op = None then
                  Some (retVal, s, op, inbound_fault msg WSA_DESTINATION_UNREACHABLE WSMAN_DETAIL_INVALID_RESOURCEURI, g)
                else do {
                  (stop, op, s) \<leftarrow> process_filters il ext m ignore (d_flags d) False s op;
                  case op_out_doc op of
                    None \<Rightarrow> Some (retVal, s, op, inbound_fault msg WSMAN_INTERNAL_ERROR OWSMAN_NO_DETAILS, g)
                  | Some doc \<Rightarrow>
                      let doc = (if wsman_is_fault_envelope (Some doc) then doc
                                 else built (il_nd il) (wsman_add_fragement_for_header (il_xml il) (op_in_doc op) doc))
                      in Some (0, s, op\<lparr>op_out_doc := None\<rparr>, put_response il doc msg, g)
                }
        })"

text \<open>The operation with its context, which is created empty.\<close>

definition create_op_entry :: "in_mem \<Rightarrow> (op_t \<times> WS_CONTEXT option) option option" where
  "create_op_entry m =
     (if \<not> im_op m then Some None
      else case im_cntx m of (a, b, c) \<Rightarrow> do {
        cntx \<leftarrow> ws_create_context a b c;
        Some (Some (\<lparr>op_expires = 0, op_maxsize = 0, op_in_doc = None, op_out_doc = None\<rparr>, cntx))
      })"

definition destroy_op_entry :: "isoap \<Rightarrow> addr \<Rightarrow> WS_CONTEXT option \<Rightarrow> isoap option" where
  "destroy_op_entry s disp cntx = do {
     c_assert (\<not> soap_locked s);
     soap \<leftarrow> destroy_dispatch_entry (is_soap s) (Some disp);
     ws_destroy_context cntx;
     Some (s\<lparr>is_soap := soap\<rparr>)
   }"

text \<open>\<open>parsed\<close> is the document that libxml2 makes of the request.\<close>

definition dispatch_inbound_call ::
  "inlib \<Rightarrow> filters \<Rightarrow> in_mem \<Rightarrow> bool \<Rightarrow> (string \<Rightarrow> xdoc) \<Rightarrow> 'g service \<Rightarrow> xdoc \<Rightarrow> isoap \<Rightarrow> inmsg \<Rightarrow> 'g \<Rightarrow> (isoap \<times> inmsg \<times> 'g) option" where
  "dispatch_inbound_call il ext m ignore saved serve parsed s msg g = do {
     (in_doc, wm) \<leftarrow> wsman_build_inbound_envelope (il_xml il) parsed (im_msg msg);
     let msg = msg\<lparr>im_msg := wm\<rparr>;
     if wsman_fault_occured (msg_status wm) then Some (s, dispatcher_create_fault il msg in_doc, g)
     else do {
       (disp, cntx, soap) \<leftarrow> get_dispatch_entry (il_xml il) (im_table m) saved (is_cntx s) (is_soap s) in_doc;
       let s = s\<lparr>is_cntx := cntx, is_soap := soap\<rparr>;
       case disp of
         None \<Rightarrow>
           Some (s, dispatcher_create_fault il (inbound_fault msg WSA_DESTINATION_UNREACHABLE WSMAN_DETAIL_INVALID_RESOURCEURI) in_doc, g)
       | Some a \<Rightarrow> do {
           opc \<leftarrow> create_op_entry m;
           case opc of
             None \<Rightarrow> do {
               soap \<leftarrow> destroy_dispatch_entry (is_soap s) (Some a);
               Some (s\<lparr>is_soap := soap\<rparr>,
                     dispatcher_create_fault il (inbound_fault msg WSA_DESTINATION_UNREACHABLE WSMAN_DETAIL_INVALID_RESOURCEURI) in_doc, g)
             }
           | Some (op, opcntx) \<Rightarrow> do {
               d \<leftarrow> disps (is_soap s) a;
               (rv, s, op, msg, g) \<leftarrow> process_inbound_operation il ext m ignore serve d s (op\<lparr>op_in_doc := in_doc\<rparr>) msg g;
               let msg = dispatcher_create_fault il msg in_doc;
               s \<leftarrow> destroy_op_entry s a opcntx;
               Some (s, msg, g)
             }
         }
     }
   }"

section \<open>What the checks admit\<close>

lemma header_element [simp]: "wsman_get_soap_header_element doc None None = ws_xml_get_soap_header doc"
  by (simp add: wsman_get_soap_header_element_def Let_def)

text \<open>A generated document is an envelope whose body is a fault.\<close>

lemma fault_node_elem: "\<exists>as cs. fst (run_state (fault_node L ns code u sc lang reason detail) nd) = Elem ns SOAP_FAULT as cs"
  by (cases reason; cases detail) (simp_all add: fault_node_def split_beta fst_make_node Let_def)

lemma generated_fault_envelope:
  assumes "find_fault c \<noteq> None"
  shows "\<exists>hs as cs. fst (run_state (wsman_generate_fault L uuid rq c detail m) nd) =
    Some (envelope hs [Elem (Some XML_NS_SOAP_1_2) SOAP_FAULT as cs])"
proof -
  obtain row where row: "find_fault c = Some row"
    using assms by blast
  obtain hs where hs: "fst (run_state (if rq \<noteq> None then wsman_create_response_envelope L rq (ft_fault_action row)
       else do { e \<leftarrow> ws_xml_create_envelope L; State_Monad.return (Some e) }) nd) = Some (envelope hs [])"
    using create_envelope_cases by blast
  define nd1 where "nd1 = snd (run_state (if rq \<noteq> None then wsman_create_response_envelope L rq (ft_fault_action row)
       else do { e \<leftarrow> ws_xml_create_envelope L; State_Monad.return (Some e) }) nd)"
  obtain as cs where f: "fst (run_state (fault_node L (Some XML_NS_SOAP_1_2) (ft_code row) (ft_subCodeNs row) (ft_subCode row) None
      (case m of None \<Rightarrow> ft_reason row | Some m \<Rightarrow> Some m) (fault_detail_text detail)) nd1) = Elem (Some XML_NS_SOAP_1_2) SOAP_FAULT as cs"
    using fault_node_elem by blast
  show ?thesis
    using hs f row unfolding nd1_def wsman_generate_fault_def wsman_create_fault_envelope_def
    by (simp only: State_Monad.run_state_bind split_beta option.case)
      (simp add: split_beta ws_xml_get_node_name_ns_def ws_xml_add_child_def fst_make_node Let_def)
qed

lemma fault_envelope_is_fault: "wsman_is_fault_envelope (Some (envelope hs [Elem (Some XML_NS_SOAP_1_2) SOAP_FAULT as cs]))"
  by (simp add: wsman_is_fault_envelope_def ws_xml_get_child_nth Let_def ws_xml_is_node_qname_eq)

text \<open>Every fault code that the checks use has a row in the table, so that a fault document is made.\<close>

lemma op_fault_answers:
  assumes "op_in_doc op = Some root" "find_fault fc \<noteq> None"
  shows "wsman_is_fault_envelope (op_out_doc (generate_op_fault il op fc fd))"
  using generated_fault_envelope [OF assms(2), of "il_xml il" "il_uuid il" "Some root" fd None "il_nd il"] assms(1) fault_envelope_is_fault
  by (auto simp: generate_op_fault_def built_def)

lemma op_fault_keeps [simp]:
  "op_in_doc (generate_op_fault il op fc fd) = op_in_doc op" "op_maxsize (generate_op_fault il op fc fd) = op_maxsize op"
  by (simp_all add: generate_op_fault_def)

lemma notunderstood_answers:
  assumes "op_in_doc op = Some root"
  shows "wsman_is_fault_envelope (op_out_doc (generate_notunderstood_fault il op h))"
proof -
  have "find_fault SOAP_FAULT_MUSTUNDERSTAND \<noteq> None"
    unfolding find_fault_None by simp
  then obtain hs as cs where "fst (run_state (wsman_generate_fault (il_xml il) (il_uuid il) (Some root) SOAP_FAULT_MUSTUNDERSTAND WSMAN_DETAIL_OK None) (il_nd il)) =
      Some (envelope hs [Elem (Some XML_NS_SOAP_1_2) SOAP_FAULT as cs])"
    using generated_fault_envelope by blast
  then show ?thesis
    using assms fault_envelope_is_fault by (simp add: generate_notunderstood_fault_def built_def split_beta)
qed

subsection \<open>Headers that must be understood\<close>

definition understood :: "xnode \<Rightarrow> bool" where
  "understood c \<longleftrightarrow> (\<exists>u. node_query_ns c = Some u \<and> (u, node_query_name c) \<in> set s_Info)"

definition mustunderstand_ok :: "xdoc \<Rightarrow> bool" where
  "mustunderstand_ok doc \<longleftrightarrow> (\<forall>h. ws_xml_get_soap_header doc = Some h \<longrightarrow>
     (\<forall>c \<in> set (elements (kids h)). ws_xml_find_attr_bool (Some c) (node_query_ns h) SOAP_MUST_UNDERSTAND \<longrightarrow> understood c))"

lemma node_names: "ws_xml_get_node_local_name (Some n) = Some (node_query_name n)" "ws_xml_get_node_name_ns (Some n) = node_query_ns n"
  by (simp_all add: ws_xml_get_node_local_name_def ws_xml_get_node_name_ns_def)

lemma mu_header_loop_eq: "mu_header_loop (Some nm) ns xs = Some (\<exists>u. ns = Some u \<and> (u, nm) \<in> set xs)"
  by (induction xs) auto

lemma is_mu_header_eq: "is_mu_header c = Some (understood c)"
  by (simp add: is_mu_header_def node_names mu_header_loop_eq understood_def)

lemma mustunderstand_loop_eq:
  "mustunderstand_loop ns cs = Some (find (\<lambda>c. ws_xml_find_attr_bool (Some c) ns SOAP_MUST_UNDERSTAND \<and> \<not> understood c) cs)"
  by (induction cs) (auto simp: is_mu_header_eq)

lemma validate_mustunderstand_eq:
  "\<exists>r. validate_mustunderstand_headers op = Some r \<and> (r = None \<longleftrightarrow> mustunderstand_ok (op_in_doc op))"
proof (cases "ws_xml_get_soap_header (op_in_doc op)")
  case None
  then show ?thesis
    by (simp add: validate_mustunderstand_headers_def mustunderstand_ok_def mustunderstand_loop_eq indexed_children_def
        ws_xml_get_child_count_by_qname_def)
next
  case (Some h)
  then show ?thesis
    by (simp add: validate_mustunderstand_headers_def mustunderstand_ok_def mustunderstand_loop_eq indexed_children_all node_names
        find_None_iff del: filter_filter) blast
qed

subsection \<open>Selectors\<close>

definition selector_names :: "xnode \<Rightarrow> string list" where
  "selector_names node =
     somes (map (\<lambda>s. ws_xml_find_attr_value (Some s) None WSM_NAME)
       (filter (\<lambda>n. ws_xml_is_node_qname (Some n) (Some XML_NS_WS_MAN) (Some WSM_SELECTOR)) (elements (kids node))))"

definition selector_set :: "xdoc \<Rightarrow> xnode option" where
  "selector_set doc = ws_xml_get_child (ws_xml_get_soap_header doc) 0 (Some XML_NS_WS_MAN) (Some WSM_SELECTOR_SET)"

definition selectors_ok :: "xdoc \<Rightarrow> bool" where
  "selectors_ok doc \<longleftrightarrow> (\<forall>node. selector_set doc = Some node \<longrightarrow> distinct (selector_names node))"

lemma dup_selectors_loop_ok:
  assumes "filled al i h" "alloc_ok al" "i + length sels \<le> 2 ^ 59"
  shows "\<exists>f h'. dup_selectors_loop L al i sels h = Some (f, h') \<and> hash_ok h' \<and>
    (f = None \<longleftrightarrow> distinct (somes (map (\<lambda>s. ws_xml_find_attr_value (Some s) None WSM_NAME) sels)) \<and>
      set (somes (map (\<lambda>s. ws_xml_find_attr_value (Some s) None WSM_NAME) sels)) \<inter> dom (hash_map h) = {}) \<and>
    (f = None \<or> f = Some (WSMAN_INVALID_SELECTORS, WSMAN_DETAIL_DUPLICATE_SELECTORS))"
  using assms
proof (induction sels arbitrary: i h)
  case Nil
  then show ?case
    by (simp add: filled_def)
next
  case (Cons sel sels)
  show ?case
  proof (cases "ws_xml_find_attr_value (Some sel) None WSM_NAME")
    case None
    then show ?thesis
      using Cons.IH [OF filled_Suc [OF Cons.prems(1)] Cons.prems(2)] Cons.prems(3) by simp
  next
    case (Some k)
    have ok: "hash_ok h"
      using Cons.prems(1) by (simp add: filled_def)
    obtain r where r: "hash_lookup h k = Some r" "map_option hn_data r = hash_map h k"
      using hash_lookup_map [OF ok, of k] by (cases "hash_lookup h k") auto
    show ?thesis
    proof (cases "hash_map h k")
      case new: None
      then have "r = None"
        using r(2) by simp
      obtain a where a: "fst (al i) = Some a"
        using Cons.prems(2) by (auto simp: alloc_ok_def)
      obtain h' where h': "hash_add_if_new al i h k (ws_xml_get_node_text L (Some sel)) = Some h'" "filled al (Suc i) h'"
        "hash_map h' = (hash_map h)(k \<mapsto> ws_xml_get_node_text L (Some sel))"
        using hash_add_if_new_ok [OF Cons.prems(1,2), of k "ws_xml_get_node_text L (Some sel)"] Cons.prems(3) new by auto
      have ins: "hash_alloc_insert (fst (al i)) (snd (al i)) h k (ws_xml_get_node_text L (Some sel)) = Some (True, h')"
        using h'(1) r(1) \<open>r = None\<close> a by (auto simp: hash_add_if_new_def hash_alloc_insert_def split: Option.bind_splits)
      have bound: "Suc i + length sels \<le> 2 ^ 59"
        using Cons.prems(3) by simp
      obtain f h'' where f: "dup_selectors_loop L al (Suc i) sels h' = Some (f, h'')" "hash_ok h''"
        "f = None \<longleftrightarrow> distinct (somes (map (\<lambda>s. ws_xml_find_attr_value (Some s) None WSM_NAME) sels)) \<and>
          set (somes (map (\<lambda>s. ws_xml_find_attr_value (Some s) None WSM_NAME) sels)) \<inter> dom (hash_map h') = {}"
        "f = None \<or> f = Some (WSMAN_INVALID_SELECTORS, WSMAN_DETAIL_DUPLICATE_SELECTORS)"
        using Cons.IH [OF h'(2) Cons.prems(2) bound] by blast
      have eq: "dup_selectors_loop L al i (sel # sels) h = Some (f, h'')"
        using Some r(1) \<open>r = None\<close> ins f(1) by simp
      have "k \<notin> dom (hash_map h)"
        using new by blast
      then have "f = None \<longleftrightarrow> distinct (somes (map (\<lambda>s. ws_xml_find_attr_value (Some s) None WSM_NAME) (sel # sels))) \<and>
          set (somes (map (\<lambda>s. ws_xml_find_attr_value (Some s) None WSM_NAME) (sel # sels))) \<inter> dom (hash_map h) = {}"
        unfolding f(3) h'(3) using Some by auto
      then show ?thesis
        using eq f(2,4) by blast
    next
      case old: (Some v)
      then have "r \<noteq> None"
        using r(2) by auto
      moreover have "k \<in> dom (hash_map h)"
        using old by blast
      ultimately show ?thesis
        using Some r(1) ok by (intro exI [of _ "Some (WSMAN_INVALID_SELECTORS, WSMAN_DETAIL_DUPLICATE_SELECTORS)"] exI [of _ h]) auto
    qed
  qed
qed

lemma hash_free_total: "hash_ok h \<Longrightarrow> \<exists>fs. hash_free (Some h) = Some fs"
  using hash_free_nodes_ok [of h] by (auto simp: hash_free_def hash_destroy_def ow_hash_isempty_def)

lemma duplicate_selectors_eq:
  assumes al: "alloc_ok al" and few: "\<forall>node. selector_set (op_in_doc op) = Some node \<longrightarrow> length (kids node) < 2 ^ 59"
  shows "\<exists>op'. check_for_duplicate_selectors il True al op = Some (\<not> selectors_ok (op_in_doc op), op') \<and>
    (if selectors_ok (op_in_doc op) then op' = op
     else op' = generate_op_fault il op WSMAN_INVALID_SELECTORS WSMAN_DETAIL_DUPLICATE_SELECTORS)"
proof (cases "selector_set (op_in_doc op)")
  case None
  then show ?thesis
    by (simp add: check_for_duplicate_selectors_def selectors_ok_def selector_set_def)
next
  case (Some node)
  obtain h0 :: "string option hash_t" where h0: "hash_create True HASHCOUNT_T_MAX None None = Some (Some h0)" "filled al 0 h0" "hash_map h0 = Map.empty"
    using hash_create_empty [of HASHCOUNT_T_MAX, where 'v = "string option"] filled_empty by blast
  let ?sels = "filter (\<lambda>n. ws_xml_is_node_qname (Some n) (Some XML_NS_WS_MAN) (Some WSM_SELECTOR)) (elements (kids node))"
  have "length ?sels \<le> length (kids node)"
    by (meson length_filter_le order_trans)
  moreover have "length (kids node) < 2 ^ 59"
    using few Some by blast
  ultimately have "0 + length ?sels \<le> 2 ^ 59"
    by linarith
  from dup_selectors_loop_ok [OF h0(2) al this, of "il_xml il"] obtain f h where
    f: "dup_selectors_loop (il_xml il) al 0 ?sels h0 = Some (f, h)" "hash_ok h" "f = None \<longleftrightarrow> distinct (selector_names node)"
    "f = None \<or> f = Some (WSMAN_INVALID_SELECTORS, WSMAN_DETAIL_DUPLICATE_SELECTORS)"
    unfolding h0(3) selector_names_def by auto
  obtain fs where fs: "hash_free (Some h) = Some fs"
    using hash_free_total [OF f(2)] by blast
  have "check_for_duplicate_selectors il True al op =
      Some (case f of None \<Rightarrow> (False, op) | Some (fc, fd) \<Rightarrow> (True, generate_op_fault il op fc fd))"
    using Some h0(1) f(1) fs indexed_children_eq [of node "Some XML_NS_WS_MAN" "Some WSM_SELECTOR"]
    by (simp add: check_for_duplicate_selectors_def selector_set_def Let_def del: filter_filter)
  then show ?thesis
    using f(3,4) Some by (cases f) (auto simp: selectors_ok_def)
qed

subsection \<open>Features, control headers, message id\<close>

abbreviation child_of :: "xnode option \<Rightarrow> string \<Rightarrow> string \<Rightarrow> xnode option" where
  "child_of n ns name \<equiv> ws_xml_get_child n 0 (Some ns) (Some name)"

definition supported_dialects :: "string set" where
  "supported_dialects = {WSM_ASSOCIATION_FILTER_DIALECT, WSM_XPATH_FILTER_DIALECT, WSM_WQL_FILTER_DIALECT,
     WSM_CQL_FILTER_DIALECT, WSM_SELECTOR_FILTER_DIALECT}"

text \<open>An enumeration has at most one filter, of a supported dialect.  Without a filter it must not ask for an
  \<open>EndTo\<close> and not enumerate all classes.\<close>

definition enumerate_ok :: "xmllib \<Rightarrow> xnode option \<Rightarrow> xnode \<Rightarrow> bool" where
  "enumerate_ok L header e \<longleftrightarrow>
     (case (child_of (Some e) XML_NS_ENUMERATION WSENUM_FILTER, child_of (Some e) XML_NS_WS_MAN WSM_FILTER) of
        (Some n, Some m) \<Rightarrow> False
      | (None, None) \<Rightarrow> child_of (Some e) XML_NS_ENUMERATION WSENUM_END_TO = None \<and>
          ws_xml_get_node_text L (child_of header XML_NS_WS_MAN WSM_RESOURCE_URI) \<noteq> Some CIM_ALL_AVAILABLE_CLASSES
      | (Some n, None) \<Rightarrow> (\<forall>d. ws_xml_find_attr_value (Some n) None WSM_DIALECT = Some d \<longrightarrow> d \<in> supported_dialects)
      | (None, Some m) \<Rightarrow> (\<forall>d. ws_xml_find_attr_value (Some m) None WSM_DIALECT = Some d \<longrightarrow> d \<in> supported_dialects))"

definition subscribe_ok :: "xnode \<Rightarrow> bool" where
  "subscribe_ok s \<longleftrightarrow> (\<exists>n. child_of (Some s) XML_NS_EVENTING WSEVENT_DELIVERY = Some n \<and>
     child_of (Some n) XML_NS_WS_MAN WSM_CONNECTIONRETRY = None \<and>
     (\<forall>a. ws_xml_find_node_attr (Some n) None WSEVENT_DELIVERY_MODE = Some a \<longrightarrow>
        (\<exists>mode \<in> {WSEVENT_DELIVERY_MODE_PUSH, WSEVENT_DELIVERY_MODE_PUSHWITHACK, WSEVENT_DELIVERY_MODE_EVENTS, WSEVENT_DELIVERY_MODE_PULL}.
           map c_tolower (xa_value a) = map c_tolower mode)))"

definition features_ok :: "xmllib \<Rightarrow> xdoc \<Rightarrow> bool" where
  "features_ok L doc \<longleftrightarrow>
     (let header = ws_xml_get_soap_header doc; body = ws_xml_get_soap_body doc in
      child_of header XML_NS_ADDRESSING WSA_FAULT_TO = None \<and> \<not> mu_true (child_of header XML_NS_WS_MAN WSM_LOCALE) \<and>
      (\<forall>e. child_of body XML_NS_ENUMERATION WSENUM_ENUMERATE = Some e \<longrightarrow> enumerate_ok L header e) \<and>
      (\<forall>s. child_of body XML_NS_EVENTING WSEVENT_SUBSCRIBE = Some s \<longrightarrow> subscribe_ok s))"

lemma dialect_supported: "check_supported_dialect d \<longleftrightarrow> d \<notin> supported_dialects"
  by (auto simp: check_supported_dialect_def supported_dialects_def)

text \<open>An operation on the request \<open>root\<close>, as far as a check changes it: its answer.\<close>

definition answered :: "bool \<Rightarrow> op_t \<Rightarrow> op_t \<Rightarrow> bool" where
  "answered bad op op' \<longleftrightarrow> op_in_doc op' = op_in_doc op \<and> (bad \<longrightarrow> wsman_is_fault_envelope (op_out_doc op'))"

lemma answered_fault: "op_in_doc op = Some root \<Longrightarrow> find_fault fc \<noteq> None \<Longrightarrow> op_in_doc op' = op_in_doc op \<Longrightarrow> answered True op (generate_op_fault il op' fc fd)"
  using op_fault_answers [of op' root fc il fd] by (auto simp: answered_def)

lemma answered_refl [simp]: "answered False op op"
  by (simp add: answered_def)

lemma unsupported_enumerate_eq:
  assumes "op_in_doc op = Some root"
  shows "\<exists>bad stop op'. unsupported_enumerate il header e op = (bad, stop, op') \<and> bad = (\<not> enumerate_ok (il_xml il) header e) \<and>
    answered bad op op' \<and> (stop \<longrightarrow> bad) \<and> op_maxsize op' = op_maxsize op"
proof -
  define endto where "endto = (child_of (Some e) XML_NS_ENUMERATION WSENUM_END_TO \<noteq> None)"
  define n where "n = child_of (Some e) XML_NS_ENUMERATION WSENUM_FILTER"
  define m where "m = child_of (Some e) XML_NS_WS_MAN WSM_FILTER"
  define op1 where "op1 = (if endto then generate_op_fault il op WSMAN_UNSUPPORTED_FEATURE WSMAN_DETAIL_ADDRESSING_MODE else op)"
  have op1: "op_in_doc op1 = Some root" "op_maxsize op1 = op_maxsize op" "endto \<Longrightarrow> wsman_is_fault_envelope (op_out_doc op1)"
    using assms op_fault_answers [of op root WSMAN_UNSUPPORTED_FEATURE il WSMAN_DETAIL_ADDRESSING_MODE] find_fault_None
    by (auto simp: op1_def)
  have f: "wsman_is_fault_envelope (op_out_doc (generate_op_fault il op1 fc fd))"
    if "fc \<in> {WSEN_CANNOT_PROCESS_FILTER, WSEN_FILTER_DIALECT_REQUESTED_UNAVAILABLE, WSMAN_UNSUPPORTED_FEATURE}" for fc fd
    using op_fault_answers [OF op1(1), of fc il fd] find_fault_None that by auto
  have node_text: "(if k \<noteq> None then ws_xml_get_node_text (il_xml il) k else None) = ws_xml_get_node_text (il_xml il) k" for k
    by (simp add: ws_xml_get_node_text_def)
  show ?thesis
    unfolding unsupported_enumerate_def enumerate_ok_def Let_def n_def [symmetric] m_def [symmetric] endto_def [symmetric]
      op1_def [symmetric] node_text dialect_supported
    using assms op1 f
    by (cases n; cases m) (auto simp: answered_def endto_def supported_dialects_def split: option.splits)
qed

lemma unsupported_subscribe_eq:
  assumes "op_in_doc op = Some root"
  shows "\<exists>bad op'. unsupported_subscribe il s ret op = (bad, op') \<and> bad = (ret \<or> \<not> subscribe_ok s) \<and>
    (answered ret op0 op \<longrightarrow> answered bad op0 op') \<and> op_maxsize op' = op_maxsize op"
proof -
  have f: "wsman_is_fault_envelope (op_out_doc (generate_op_fault il op fc fd))"
    if "fc \<in> {WSE_INVALID_MESSAGE, WSE_DELIVERY_MODE_REQUESTED_UNAVAILABLE, WSMAN_UNSUPPORTED_FEATURE}" for fc fd
    using op_fault_answers [OF assms, of fc il fd] find_fault_None that by auto
  show ?thesis
    unfolding unsupported_subscribe_def subscribe_ok_def strcasecmp_def strcmp_eq_0
    using assms f by (auto simp: answered_def split: option.splits)
qed

lemma features_eq:
  assumes "op_in_doc op = Some root"
  shows "\<exists>op'. check_unsupported_features il op = (\<not> features_ok (il_xml il) (Some root), op') \<and>
    answered (\<not> features_ok (il_xml il) (Some root)) op op' \<and> op_maxsize op' = op_maxsize op"
proof -
  let ?h = "ws_xml_get_soap_header (Some root)" and ?b = "ws_xml_get_soap_body (Some root)"
  have f: "answered True op (generate_op_fault il op WSMAN_UNSUPPORTED_FEATURE fd)" for fd
    using answered_fault [OF assms] find_fault_None by auto
  consider "child_of ?h XML_NS_ADDRESSING WSA_FAULT_TO \<noteq> None \<or> mu_true (child_of ?h XML_NS_WS_MAN WSM_LOCALE)"
    | "child_of ?h XML_NS_ADDRESSING WSA_FAULT_TO = None" "\<not> mu_true (child_of ?h XML_NS_WS_MAN WSM_LOCALE)"
    by blast
  then show ?thesis
  proof cases
    case 1
    then show ?thesis
      using assms f by (auto simp: check_unsupported_features_def features_ok_def Let_def)
  next
    case 2
    define en where "en = (case child_of ?b XML_NS_ENUMERATION WSENUM_ENUMERATE of
      None \<Rightarrow> (False, False, op) | Some e \<Rightarrow> unsupported_enumerate il ?h e op)"
    have "\<exists>bad stop op1. en = (bad, stop, op1) \<and>
        bad = (\<exists>e. child_of ?b XML_NS_ENUMERATION WSENUM_ENUMERATE = Some e \<and> \<not> enumerate_ok (il_xml il) ?h e) \<and>
        answered bad op op1 \<and> (stop \<longrightarrow> bad) \<and> op_maxsize op1 = op_maxsize op"
      using unsupported_enumerate_eq [OF assms, of il ?h] by (auto simp: en_def split: option.split)
    then obtain bad stop op1 where en: "en = (bad, stop, op1)"
      "bad = (\<exists>e. child_of ?b XML_NS_ENUMERATION WSENUM_ENUMERATE = Some e \<and> \<not> enumerate_ok (il_xml il) ?h e)"
      "answered bad op op1" "stop \<longrightarrow> bad" "op_maxsize op1 = op_maxsize op"
      by blast
    have eq: "check_unsupported_features il op =
        (if stop then (bad, op1)
         else case child_of ?b XML_NS_EVENTING WSEVENT_SUBSCRIBE of None \<Rightarrow> (bad, op1) | Some s \<Rightarrow> unsupported_subscribe il s bad op1)"
      using 2 en(1) by (simp add: check_unsupported_features_def assms Let_def en_def [symmetric])
    have in1: "op_in_doc op1 = Some root"
      using en(3) assms by (simp add: answered_def)
    show ?thesis
      using 2 en(2-5) unsupported_subscribe_eq [OF in1, of il _ bad op]
      unfolding eq by (auto simp: features_ok_def Let_def split: option.split)
  qed
qed

definition control_ok :: "inlib \<Rightarrow> xdoc \<Rightarrow> bool" where
  "control_ok il doc \<longleftrightarrow>
     (let header = ws_xml_get_soap_header doc in
      (\<forall>n. child_of header XML_NS_WS_MAN WSM_MAX_ENVELOPE_SIZE = Some n \<and> mu_true (Some n) \<longrightarrow>
         WSMAN_MINIMAL_ENVELOPE_SIZE_REQUEST \<le> ws_xml_get_node_ulong (il_xml il) (Some n)) \<and>
      (\<forall>t. child_of header XML_NS_WS_MAN WSM_OPERATION_TIMEOUT = Some t \<longrightarrow>
         (case ws_deserialize_duration (il_dround il) (ws_xml_get_node_text (il_xml il) (Some t)) of None \<Rightarrow> False | Some d \<Rightarrow> d > 0) \<and>
         \<not> ws_xml_find_attr_bool (Some t) (ws_xml_get_node_name_ns header) SOAP_MUST_UNDERSTAND))"

text \<open>The size to which the answer is limited; zero is no limit.\<close>

definition envelope_limit :: "inlib \<Rightarrow> xdoc \<Rightarrow> ulong" where
  "envelope_limit il doc =
     (case child_of (ws_xml_get_soap_header doc) XML_NS_WS_MAN WSM_MAX_ENVELOPE_SIZE of
        None \<Rightarrow> WSMAN_MAX_ENVELOPE_SIZE
      | Some n \<Rightarrow> if mu_true (Some n) then ws_xml_get_node_ulong (il_xml il) (Some n) else 0)"

lemma control_eq:
  assumes "op_in_doc op = Some root" "op_maxsize op = 0"
  shows "\<exists>op'. validate_control_headers il op = (control_ok il (Some root), op') \<and>
    answered (\<not> control_ok il (Some root)) op op' \<and> (control_ok il (Some root) \<longrightarrow> op_maxsize op' = envelope_limit il (Some root))"
proof -
  let ?h = "ws_xml_get_soap_header (Some root)"
  have f: "wsman_is_fault_envelope (op_out_doc (generate_op_fault il op' fc fd))"
    if "op_in_doc op' = Some root" "fc \<in> {WSMAN_ENCODING_LIMIT, WSA_INVALID_MESSAGE_INFORMATION_HEADER, WSMAN_TIMED_OUT, WSMAN_UNSUPPORTED_FEATURE}" for op' fc fd
    using op_fault_answers [OF that(1), of fc il fd] find_fault_None that(2) by auto
  define sz where "sz \<longleftrightarrow> (\<forall>n. child_of ?h XML_NS_WS_MAN WSM_MAX_ENVELOPE_SIZE = Some n \<and> mu_true (Some n) \<longrightarrow>
         WSMAN_MINIMAL_ENVELOPE_SIZE_REQUEST \<le> ws_xml_get_node_ulong (il_xml il) (Some n))"
  define tm where "tm \<longleftrightarrow> (\<forall>t. child_of ?h XML_NS_WS_MAN WSM_OPERATION_TIMEOUT = Some t \<longrightarrow>
         (case ws_deserialize_duration (il_dround il) (ws_xml_get_node_text (il_xml il) (Some t)) of None \<Rightarrow> False | Some d \<Rightarrow> d > 0) \<and>
         \<not> ws_xml_find_attr_bool (Some t) (ws_xml_get_node_name_ns ?h) SOAP_MUST_UNDERSTAND)"
  have "\<exists>op1. validate_envelope_size il op = (sz, op1) \<and> op_in_doc op1 = Some root \<and> (\<not> sz \<longrightarrow> wsman_is_fault_envelope (op_out_doc op1)) \<and>
      (sz \<longrightarrow> op_maxsize op1 = envelope_limit il (Some root))"
  proof (cases "child_of ?h XML_NS_WS_MAN WSM_MAX_ENVELOPE_SIZE")
    case None
    then show ?thesis
      using assms by (simp add: validate_envelope_size_def envelope_limit_def sz_def Let_def)
  next
    case (Some n)
    then show ?thesis
      using assms f by (auto simp: validate_envelope_size_def envelope_limit_def sz_def Let_def ws_deserialize_uint32_def not_less)
  qed
  then obtain op1 where op1: "validate_envelope_size il op = (sz, op1)" "op_in_doc op1 = Some root" "\<not> sz \<longrightarrow> wsman_is_fault_envelope (op_out_doc op1)"
    "sz \<longrightarrow> op_maxsize op1 = envelope_limit il (Some root)"
    by blast
  have "\<exists>op2. validate_timeout il op1 = (tm, op2) \<and> op_in_doc op2 = Some root \<and> (\<not> tm \<longrightarrow> wsman_is_fault_envelope (op_out_doc op2)) \<and>
      op_maxsize op2 = op_maxsize op1"
  proof (cases "child_of ?h XML_NS_WS_MAN WSM_OPERATION_TIMEOUT")
    case None
    then show ?thesis
      using op1(2) by (simp add: validate_timeout_def tm_def Let_def)
  next
    case (Some t)
    then show ?thesis
      using op1(2) f by (auto simp: validate_timeout_def tm_def Let_def split: option.splits)
  qed
  then obtain op2 where op2: "validate_timeout il op1 = (tm, op2)" "op_in_doc op2 = Some root" "\<not> tm \<longrightarrow> wsman_is_fault_envelope (op_out_doc op2)"
    "op_maxsize op2 = op_maxsize op1"
    by blast
  have "control_ok il (Some root) \<longleftrightarrow> sz \<and> tm"
    by (simp only: control_ok_def Let_def sz_def tm_def)
  then show ?thesis
    using op1 op2 assms(1) by (cases sz) (auto simp: validate_control_headers_def answered_def)
qed

definition message_id :: "xdoc \<Rightarrow> xnode option" where
  "message_id doc = child_of (ws_xml_get_soap_header doc) XML_NS_ADDRESSING WSA_MESSAGE_ID"

text \<open>\<open>ids\<close> are the ids remembered.\<close>

definition id_ok :: "xmllib \<Rightarrow> bool \<Rightarrow> string list \<Rightarrow> xdoc \<Rightarrow> bool" where
  "id_ok L ignore ids doc \<longleftrightarrow>
     (case message_id doc of
        None \<Rightarrow> wsman_is_identify_request doc
      | Some n \<Rightarrow> \<exists>i. ws_xml_get_node_text L (Some n) = Some i \<and> i \<noteq> [] \<and> (ignore \<or> i \<notin> set ids))"

definition known_ids :: "isoap \<Rightarrow> string list" where
  "known_ids s = (case processedMsgIdList s of None \<Rightarrow> [] | Some l \<Rightarrow> l)"

definition ids_after :: "xmllib \<Rightarrow> bool \<Rightarrow> xdoc \<Rightarrow> string list \<Rightarrow> string list" where
  "ids_after L node_ok doc ids =
     (case message_id doc of None \<Rightarrow> ids | Some n \<Rightarrow> remember_id node_ok (the (ws_xml_get_node_text L (Some n))) ids)"

lemma duplicate_id_eq:
  assumes doc: "op_in_doc op = Some root" and s: "\<not> soap_locked s" "processedMsgIdList s \<noteq> None \<or> im_list m"
  shows "\<exists>op' s'. wsman_is_duplicate_message_id il m ignore s op = Some (\<not> id_ok (il_xml il) ignore (known_ids s) (Some root), op', s') \<and>
    answered (\<not> id_ok (il_xml il) ignore (known_ids s) (Some root)) op op' \<and> op_maxsize op' = op_maxsize op \<and>
    (\<exists>l. s' = s\<lparr>processedMsgIdList := l\<rparr> \<and> (l \<noteq> None \<or> im_list m)) \<and>
    known_ids s' = (if id_ok (il_xml il) ignore (known_ids s) (Some root) then ids_after (il_xml il) (im_node m) (Some root) (known_ids s) else known_ids s)"
proof -
  let ?f = "\<lambda>fc fd. generate_op_fault il op fc fd"
  have f: "wsman_is_fault_envelope (op_out_doc (?f fc fd))" if "fc \<in> {WSA_INVALID_MESSAGE_INFORMATION_HEADER, WSA_MESSAGE_INFORMATION_HEADER_REQUIRED}" for fc fd
    using op_fault_answers [OF doc, of fc il fd] find_fault_None that by auto
  show ?thesis
  proof (cases "message_id (Some root)")
    case None
    then show ?thesis
      using f doc s
      by (cases "wsman_is_identify_request (Some root)")
        (auto simp: wsman_is_duplicate_message_id_def id_ok_def message_id_def answered_def ids_after_def intro: exI [of _ "processedMsgIdList s"])
  next
    case (Some n)
    show ?thesis
    proof (cases "ws_xml_get_node_text (il_xml il) (Some n) \<noteq> None \<and> ws_xml_get_node_text (il_xml il) (Some n) \<noteq> Some []")
      case False
      then show ?thesis
        using Some f doc s
        by (cases "ws_xml_get_node_text (il_xml il) (Some n)")
          (auto simp: wsman_is_duplicate_message_id_def id_ok_def message_id_def answered_def intro: exI [of _ "processedMsgIdList s"])
    next
      case True
      then obtain i where i: "ws_xml_get_node_text (il_xml il) (Some n) = Some i" "i \<noteq> []"
        by auto
      have ex: "list_ex (\<lambda>j. strcmp i j = 0) (known_ids s) \<longleftrightarrow> i \<in> set (known_ids s)"
        by (auto simp: list_ex_iff)
      have eq: "wsman_is_duplicate_message_id il m ignore s op =
          (if \<not> ignore \<and> i \<in> set (known_ids s) then
             Some (True, ?f WSA_INVALID_MESSAGE_INFORMATION_HEADER WSA_DETAIL_DUPLICATE_MESSAGE_ID, s\<lparr>processedMsgIdList := Some (known_ids s)\<rparr>)
           else Some (False, op, s\<lparr>processedMsgIdList := Some (remember_id (im_node m) i (known_ids s))\<rparr>))"
        using Some i doc s ex by (auto simp: wsman_is_duplicate_message_id_def message_id_def Let_def known_ids_def [symmetric])
      show ?thesis
        using Some i doc f by (auto simp: eq id_ok_def answered_def ids_after_def known_ids_def)
    qed
  qed
qed

subsection \<open>All checks\<close>

definition admissible :: "inlib \<Rightarrow> bool \<Rightarrow> string list \<Rightarrow> xdoc \<Rightarrow> bool" where
  "admissible il ignore ids doc \<longleftrightarrow> id_ok (il_xml il) ignore ids doc \<and> features_ok (il_xml il) doc \<and> mustunderstand_ok doc \<and>
     control_ok il doc \<and> selectors_ok doc"

text \<open>A server that has memory and whose lock is free, and a request with few selectors.\<close>

definition in_ok :: "in_mem \<Rightarrow> isoap \<Rightarrow> bool" where
  "in_ok m s \<longleftrightarrow> \<not> soap_locked s \<and> (processedMsgIdList s \<noteq> None \<or> im_list m) \<and> alloc_ok (im_alloc m) \<and> im_hash m"

definition few_selectors :: "xdoc \<Rightarrow> bool" where
  "few_selectors doc \<longleftrightarrow> (\<forall>node. selector_set doc = Some node \<longrightarrow> length (kids node) < 2 ^ 59)"

lemma inbound_checks_eq:
  fixes il ignore
  assumes doc: "op_in_doc op = Some root" and mx: "op_maxsize op = 0" and ok: "in_ok m s" and few: "few_selectors (Some root)"
  defines "adm \<equiv> admissible il ignore (known_ids s) (Some root)"
  shows "\<exists>op' s'. inbound_checks il m ignore s op = Some (\<not> adm, op', s') \<and> answered (\<not> adm) op op' \<and>
    (adm \<longrightarrow> op_maxsize op' = envelope_limit il (Some root) \<and> known_ids s' = ids_after (il_xml il) (im_node m) (Some root) (known_ids s)) \<and>
    (\<exists>l. s' = s\<lparr>processedMsgIdList := l\<rparr>) \<and> in_ok m s'"
proof -
  let ?id = "id_ok (il_xml il) ignore (known_ids s) (Some root)"
  obtain op1 s1 l where d: "wsman_is_duplicate_message_id il m ignore s op = Some (\<not> ?id, op1, s1)" "answered (\<not> ?id) op op1"
    "op_maxsize op1 = 0" "s1 = s\<lparr>processedMsgIdList := l\<rparr>" "l \<noteq> None \<or> im_list m"
    "?id \<Longrightarrow> known_ids s1 = ids_after (il_xml il) (im_node m) (Some root) (known_ids s)"
    using duplicate_id_eq [OF doc, of s m il ignore] ok mx by (auto simp: in_ok_def)
  have s1: "in_ok m s1"
    using ok d(4,5) by (simp add: in_ok_def)
  have doc1: "op_in_doc op1 = Some root"
    using d(2) doc by (simp add: answered_def)
  obtain op2 where f: "check_unsupported_features il op1 = (\<not> features_ok (il_xml il) (Some root), op2)"
    "answered (\<not> features_ok (il_xml il) (Some root)) op1 op2" "op_maxsize op2 = 0"
    using features_eq [OF doc1, of il] d(3) by auto
  have doc2: "op_in_doc op2 = Some root"
    using f(2) doc1 by (simp add: answered_def)
  obtain nu where nu: "validate_mustunderstand_headers op2 = Some nu" "nu = None \<longleftrightarrow> mustunderstand_ok (Some root)"
    using validate_mustunderstand_eq [of op2] doc2 by auto
  obtain op3 where c: "validate_control_headers il op2 = (control_ok il (Some root), op3)"
    "answered (\<not> control_ok il (Some root)) op2 op3" "control_ok il (Some root) \<Longrightarrow> op_maxsize op3 = envelope_limit il (Some root)"
    using control_eq [OF doc2 f(3), of il] by blast
  have doc3: "op_in_doc op3 = Some root"
    using c(2) doc2 by (simp add: answered_def)
  obtain op4 where sl: "check_for_duplicate_selectors il (im_hash m) (im_alloc m) op3 = Some (\<not> selectors_ok (Some root), op4)"
    "if selectors_ok (Some root) then op4 = op3 else op4 = generate_op_fault il op3 WSMAN_INVALID_SELECTORS WSMAN_DETAIL_DUPLICATE_SELECTORS"
    using duplicate_selectors_eq [of "im_alloc m" op3 il] ok few doc3 by (auto simp: in_ok_def few_selectors_def)
  have op4: "answered (\<not> selectors_ok (Some root)) op3 op4"
    using sl(2) answered_fault [OF doc3, of WSMAN_INVALID_SELECTORS op3] find_fault_None by (auto split: if_splits)
  have nuf: "answered True op (generate_notunderstood_fault il op2 h)" for h
    using notunderstood_answers [OF doc2, of il h] doc doc2 by (auto simp: answered_def generate_notunderstood_fault_def)
  have eq: "inbound_checks il m ignore s op =
      (if \<not> ?id then Some (True, op1, s1)
       else if \<not> features_ok (il_xml il) (Some root) then Some (True, op2, s1)
       else case nu of
         Some h \<Rightarrow> Some (True, generate_notunderstood_fault il op2 h, s1)
       | None \<Rightarrow> if \<not> control_ok il (Some root) then Some (True, op3, s1) else Some (\<not> selectors_ok (Some root), op4, s1))"
    by (simp add: inbound_checks_def d(1) f(1) nu(1) c(1) sl(1) split: option.split)
  have trans: "answered b op opx" if "answered b opy opx" "op_in_doc opy = Some root" for b opx opy
    using that doc by (simp add: answered_def)
  show ?thesis
  proof (cases "?id \<and> features_ok (il_xml il) (Some root) \<and> nu = None \<and> control_ok il (Some root)")
    case True
    then have "adm = selectors_ok (Some root)"
      using nu(2) by (simp add: adm_def admissible_def)
    moreover have "op_maxsize op4 = envelope_limit il (Some root)" if "selectors_ok (Some root)"
      using that sl(2) c(3) True by simp
    moreover have "inbound_checks il m ignore s op = Some (\<not> selectors_ok (Some root), op4, s1)"
      using True eq by simp
    ultimately show ?thesis
      using d(4,6) s1 trans [OF op4 doc3] True by auto
  next
    case False
    then have na: "\<not> adm"
      using nu(2) by (auto simp: adm_def admissible_def)
    have "\<exists>op'. inbound_checks il m ignore s op = Some (True, op', s1) \<and> answered True op op'"
      using False d(2) trans [OF f(2) doc1] nuf trans [OF c(2) doc2] unfolding eq by (auto split: option.split)
    then show ?thesis
      using na d(4) s1 by auto
  qed
qed

lemma process_filters_eq:
  assumes "inboundFilterList s = []"
  shows "process_filters il ext m ignore flags True s op = inbound_checks il m ignore s op"
  by (simp add: process_filters_def assms)

section \<open>A call is answered\<close>

lemma create_fault_response:
  assumes "\<not> wsman_fault_occured (msg_status (im_msg msg))" "find_fault fc \<noteq> None" "fc \<noteq> WSMAN_RC_OK"
  shows "wsman_is_fault_envelope (im_response (dispatcher_create_fault il (inbound_fault msg fc fd) in_doc))"
proof -
  let ?st = "msg_status (im_msg (inbound_fault msg fc fd))"
  have c: "fault_code ?st = fc"
    using msg_set_fault_code [OF assms(1)] by (simp add: inbound_fault_def)
  obtain hs as cs where g: "wsman_generate_fault_buffer il in_doc ?st = Some (envelope hs [Elem (Some XML_NS_SOAP_1_2) SOAP_FAULT as cs])"
    using generated_fault_envelope [OF assms(2)] unfolding wsman_generate_fault_buffer_def built_def c by blast
  then show ?thesis
    using c assms(3) fault_envelope_is_fault by (simp add: dispatcher_create_fault_def wsman_fault_occured_def Let_def)
qed

lemma create_fault_none:
  "\<not> wsman_fault_occured (msg_status (im_msg msg)) \<Longrightarrow> dispatcher_create_fault il msg in_doc = msg"
  by (simp add: dispatcher_create_fault_def)

lemma fault_has_response: "wsman_is_fault_envelope r \<Longrightarrow> r \<noteq> None"
  by (cases r) (simp_all add: wsman_is_fault_envelope_def ws_xml_get_soap_body_def ws_xml_get_soap_element_def ws_xml_get_soap_envelope_def
      ws_xml_get_child_def Let_def)

lemma put_response_simps [simp]:
  "im_response (put_response il d msg) = Some d" "im_msg (put_response il d msg) = im_msg msg"
  by (simp_all add: put_response_def Let_def)

lemma filters_outbound: "\<exists>b op'. process_filters il ext m ignore flags False s op = Some (b, op', s)"
  by (auto simp: process_filters_def split: prod.split)

definition served :: "'g service \<Rightarrow> inlib \<Rightarrow> SoapServiceCallback \<Rightarrow> addr \<Rightarrow> xnode \<Rightarrow> 'g \<Rightarrow> 'g \<Rightarrow> bool" where
  "served serve il cb data root g g' \<longleftrightarrow>
     (\<exists>op. op_in_doc op = Some root \<and> op_maxsize op = envelope_limit il (Some root) \<and> g' = snd (snd (serve cb data op g)))"

lemma process_inbound_eq:
  fixes il ignore
  assumes cb: "serviceCallback d = Some cb" and doc: "op_in_doc op = Some root" "op_maxsize op = 0" and ok: "in_ok m s"
    and few: "few_selectors (Some root)" and flt: "inboundFilterList s = []" and msg: "\<not> wsman_fault_occured (msg_status (im_msg msg))"
  defines "adm \<equiv> admissible il ignore (known_ids s) (Some root)"
  shows "\<exists>rv s' op' msg' g'. process_inbound_operation il ext m ignore serve d s op msg g = Some (rv, s', op', msg', g') \<and>
    (\<exists>l. s' = s\<lparr>processedMsgIdList := l\<rparr>) \<and> in_ok m s' \<and> im_response (dispatcher_create_fault il msg' (Some root)) \<noteq> None \<and>
    (if adm then served serve il cb (serviceData d) root g g' \<and> known_ids s' = ids_after (il_xml il) (im_node m) (Some root) (known_ids s)
     else g' = g \<and> wsman_is_fault_envelope (im_response (dispatcher_create_fault il msg' (Some root))))"
proof -
  let ?msg = "msg\<lparr>http_code := WSMAN_STATUS_OK\<rparr>" and ?op = "op\<lparr>op_out_doc := None\<rparr>"
  have nf: "\<not> wsman_fault_occured (msg_status (im_msg ?msg))"
    using msg by simp
  have ff: "find_fault WSA_DESTINATION_UNREACHABLE \<noteq> None" "find_fault WSMAN_INTERNAL_ERROR \<noteq> None"
    unfolding find_fault_None by simp_all
  note resp = create_fault_response [OF nf]
  obtain op1 s1 l where c: "inbound_checks il m ignore s ?op = Some (\<not> adm, op1, s1)" "answered (\<not> adm) ?op op1"
    "adm \<Longrightarrow> op_maxsize op1 = envelope_limit il (Some root)" "adm \<Longrightarrow> known_ids s1 = ids_after (il_xml il) (im_node m) (Some root) (known_ids s)"
    "s1 = s\<lparr>processedMsgIdList := l\<rparr>" "in_ok m s1"
    using inbound_checks_eq [of ?op root m s il ignore] doc ok few unfolding adm_def by auto
  have flt1: "process_filters il ext m ignore (d_flags d) True s ?op = Some (\<not> adm, op1, s1)"
    using c(1) process_filters_eq [OF flt] by simp
  show ?thesis
  proof (cases adm)
    case False
    then have f: "wsman_is_fault_envelope (op_out_doc op1)"
      using c(2) by (simp add: answered_def)
    then obtain dd where dd: "op_out_doc op1 = Some dd"
      using fault_has_response by blast
    have "process_inbound_operation il ext m ignore serve d s op msg g = Some (1, s1, op1\<lparr>op_out_doc := None\<rparr>, put_response il dd ?msg, g)"
      using False flt1 dd by (simp add: process_inbound_operation_def cb)
    moreover have "dispatcher_create_fault il (put_response il dd ?msg) (Some root) = put_response il dd ?msg"
      using nf by (simp add: create_fault_none)
    ultimately show ?thesis
      using False c(5,6) f dd by auto
  next
    case True
    obtain rv op2 g' where sv: "serve cb (serviceData d) op1 g = (rv, op2, g')"
      by (cases "serve cb (serviceData d) op1 g")
    then have served: "served serve il cb (serviceData d) root g g'"
      using c(2,3) True doc by (auto simp: served_def answered_def intro!: exI [of _ op1])
    obtain b op3 where fo: "process_filters il ext m ignore (d_flags d) False s1 op2 = Some (b, op3, s1)"
      using filters_outbound by blast
    let ?doc = "\<lambda>dd. if wsman_is_fault_envelope (Some dd) then dd else built (il_nd il) (wsman_add_fragement_for_header (il_xml il) (op_in_doc op3) dd)"
    have eq: "process_inbound_operation il ext m ignore serve d s op msg g =
        (if op_out_doc op2 = None then
           Some (rv, s1, op2, inbound_fault ?msg WSA_DESTINATION_UNREACHABLE WSMAN_DETAIL_INVALID_RESOURCEURI, g')
         else case op_out_doc op3 of
           None \<Rightarrow> Some (rv, s1, op3, inbound_fault ?msg WSMAN_INTERNAL_ERROR OWSMAN_NO_DETAILS, g')
         | Some dd \<Rightarrow> Some (0, s1, op3\<lparr>op_out_doc := None\<rparr>, put_response il (?doc dd) ?msg, g'))"
      using True flt1 sv fo by (simp add: process_inbound_operation_def cb Let_def split: option.split)
    have "\<exists>rv' op' msg'. process_inbound_operation il ext m ignore serve d s op msg g = Some (rv', s1, op', msg', g') \<and>
        im_response (dispatcher_create_fault il msg' (Some root)) \<noteq> None"
    proof (cases "op_out_doc op2")
      case None
      then show ?thesis
        using fault_has_response [OF resp [OF ff(1)]] by (simp add: eq)
    next
      case out: (Some x)
      show ?thesis
      proof (cases "op_out_doc op3")
        case None
        then show ?thesis
          using out fault_has_response [OF resp [OF ff(2)]] by (simp add: eq)
      next
        case (Some dd)
        have "dispatcher_create_fault il (put_response il (?doc dd) ?msg) (Some root) = put_response il (?doc dd) ?msg"
          using nf by (simp add: create_fault_none)
        then show ?thesis
          using out Some by (simp add: eq)
      qed
    qed
    then show ?thesis
      using True served c(4,5,6) by auto
  qed
qed

section \<open>The dispatcher always answers\<close>

text \<open>A server whose runtime was created for the interfaces \<open>ifcs\<close>.\<close>

definition runs :: "(nat \<Rightarrow> addr option) \<Rightarrow> WsDispatchInterfaceInfo list \<Rightarrow> isoap \<Rightarrow> bool" where
  "runs al ifcs s \<longleftrightarrow> ctx_ok (is_cntx s) \<and> inboundFilterList s = [] \<and> \<not> data_freed (is_soap s) \<and>
     (\<exists>di. dispatcherData (is_soap s) = Some di \<and> interfaces di = ifcs \<and> registered al (all_endpoints ifcs) (is_soap s) di)"

text \<open>A request about a subscription has an identifier of at least five characters.\<close>

definition identifier_ok :: "xmllib \<Rightarrow> xdoc \<Rightarrow> bool" where
  "identifier_ok L doc \<longleftrightarrow> (\<forall>uuid. wsman_is_event_related_request L doc \<longrightarrow>
     ws_xml_get_node_text L (child_of (ws_xml_get_soap_header doc) XML_NS_EVENTING WSEVENT_IDENTIFIER) = Some uuid \<longrightarrow> 5 \<le> length uuid)"

lemma find_disp_entry:
  assumes "registered al eps soap di" "find_disp di e = Some b"
  shows "\<exists>ep \<in> set eps. disps soap b = Some (entry_of ep)"
proof -
  obtain i where "i < length eps" "b = the (al i)"
    using assms by (auto simp: find_disp_def registered_def find_Some_iff)
  then show ?thesis
    using assms(1) nth_mem by (fastforce simp: registered_def)
qed

lemma select_endpoint_total: "list_ex (\<lambda>e. serviceEndPoint e = None) eps \<Longrightarrow> \<exists>r. select_endpoint ptr eps custom = Some r"
  by (induction eps arbitrary: custom) auto

lemma find_interface_in: "find_interface uri ifcs = Some (r, ns) \<Longrightarrow> r \<in> set ifcs"
  by (induction ifcs) (auto simp: Let_def split: if_splits)

lemma find_identify_in: "find_identify ifcs = Some r \<Longrightarrow> r \<in> set ifcs"
  by (induction ifcs) (auto split: if_splits)

lemma subscription_uri_total: "identifier_ok L doc \<Longrightarrow> \<exists>u. subscription_uri L subs saved doc uri = Some u"
  by (auto simp: identifier_ok_def subscription_uri_def split: option.splits)

lemma dispatcher_total:
  assumes ctx: "ctx_ok cntx" and ok: "list_all ifc_ok (interfaces di)" and idf: "identifier_ok L doc"
  shows "\<exists>disp cntx'. wsman_dispatcher L mem saved cntx di doc = Some (disp, cntx') \<and> ctx_ok cntx' \<and> (disp \<noteq> None \<longrightarrow> (\<exists>e. find_disp di e = disp))"
proof (cases doc)
  case None
  then show ?thesis
    using ctx by (simp add: wsman_dispatcher_def)
next
  case (Some root)
  obtain h where h: "entries cntx = Some h" "hash_ok h"
    using ctx by (auto simp: ctx_ok_def)
  obtain r h' where rm: "ws_remove_context_val mem cntx (Some WSM_RESOURCE_URI) = Some (r, cntx\<lparr>entries := Some h'\<rparr>)" "hash_ok h'"
    using ws_remove_context_val_ok [OF h] by blast
  let ?c = "cntx\<lparr>entries := Some h'\<rparr>"
  have ctx': "ctx_ok ?c"
    using rm(2) by (simp add: ctx_ok_def)
  obtain uri where uri: "subscription_uri L (subscriptionMemList cntx) saved doc (wsman_get_resource_uri L (indoc cntx) doc) = Some uri"
    using subscription_uri_total [OF idf] by blast
  have fin: "list_ex (\<lambda>e. serviceEndPoint e = None) (endPoints i)" if "i \<in> set (interfaces di)" for i
    using ok that by (auto simp: list_all_iff ifc_ok_def)
  let ?act = "wsman_get_action L (indoc cntx) doc"
  have "\<exists>ep c. (if wsman_is_identify_request doc then
         (case find_identify (interfaces di) of
            None \<Rightarrow> Some (None, None)
          | Some r \<Rightarrow> if endPoints r = [] then None else Some (Some (hd (endPoints r)), None))
       else
         (case find_interface uri (interfaces di) of
            None \<Rightarrow> Some (None, None)
          | Some (r, ns) \<Rightarrow> select_endpoint (strip_ns (the ?act) ns) (endPoints r) None)) = Some (ep, c)"
  proof (cases "wsman_is_identify_request doc")
    case True
    then show ?thesis
      using fin find_identify_in [of "interfaces di"] by (fastforce split: option.split)
  next
    case False
    then show ?thesis
      using fin find_interface_in [of uri "interfaces di"] select_endpoint_total by (fastforce split: option.split)
  qed
  then obtain ep c where sel: "(if wsman_is_identify_request doc then
         (case find_identify (interfaces di) of
            None \<Rightarrow> Some (None, None)
          | Some r \<Rightarrow> if endPoints r = [] then None else Some (Some (hd (endPoints r)), None))
       else
         (case find_interface uri (interfaces di) of
            None \<Rightarrow> Some (None, None)
          | Some (r, ns) \<Rightarrow> select_endpoint (strip_ns (the ?act) ns) (endPoints r) None)) = Some (ep, c)"
    by blast
  have "wsman_dispatcher L mem saved cntx di doc =
      (if (uri = None \<or> ?act = None) \<and> \<not> wsman_is_identify_request doc then Some (None, cntx)
       else Some (case ep of Some e \<Rightarrow> find_disp di e | None \<Rightarrow> (case c of Some e \<Rightarrow> find_disp di e | None \<Rightarrow> None), ?c))"
    unfolding Some wsman_dispatcher_def Let_def using uri sel rm(1) unfolding Some
    by (simp only: option.distinct if_False bind.bind_lunit prod.case)
  then show ?thesis
    using ctx ctx' by (auto split: option.split)
qed

text \<open>A dispatch entry that was got for a request, and giving it back.\<close>

lemma dispatch_entry_total:
  assumes r: "runs al ifcs s" and ok: "list_all ifc_ok ifcs" and idf: "identifier_ok L (Some root)"
  shows "\<exists>disp cntx' soap'. get_dispatch_entry L mem saved (is_cntx s) (is_soap s) (Some root) = Some (disp, cntx', soap') \<and> ctx_ok cntx' \<and>
    (case disp of
       None \<Rightarrow> soap' = is_soap s
     | Some b \<Rightarrow> \<exists>ep \<in> set (all_endpoints ifcs). disps (is_soap s) b = Some (entry_of ep) \<and>
         soap' = is_soap s\<lparr>disps := (disps (is_soap s))(b \<mapsto> (entry_of ep)\<lparr>usageCount := 2\<rparr>)\<rparr>)"
proof -
  obtain di where di: "dispatcherData (is_soap s) = Some di" "interfaces di = ifcs" "registered al (all_endpoints ifcs) (is_soap s) di"
    and c: "ctx_ok (is_cntx s)" "\<not> data_freed (is_soap s)"
    using r by (auto simp: runs_def)
  obtain disp cntx' where d: "wsman_dispatcher L mem saved (is_cntx s) di (Some root) = Some (disp, cntx')" "ctx_ok cntx'"
    "disp \<noteq> None \<Longrightarrow> \<exists>e. find_disp di e = disp"
    using dispatcher_total [OF c(1) _ idf, of di] ok di(2) by blast
  show ?thesis
  proof (cases disp)
    case None
    then show ?thesis
      using d(1,2) di(1) c(2) by (simp add: get_dispatch_entry_def)
  next
    case (Some b)
    then obtain ep where ep: "ep \<in> set (all_endpoints ifcs)" "disps (is_soap s) b = Some (entry_of ep)"
      using d(3) find_disp_entry [OF di(3)] by auto
    then have "get_dispatch_entry L mem saved (is_cntx s) (is_soap s) (Some root) =
        Some (Some b, cntx', is_soap s\<lparr>disps := (disps (is_soap s))(b \<mapsto> (entry_of ep)\<lparr>usageCount := 2\<rparr>)\<rparr>)"
      using d(1) di(1) c(2) Some by (simp add: get_dispatch_entry_def entry_of_def Let_def)
    then show ?thesis
      using d(2) ep by auto
  qed
qed

lemma destroy_entry_back:
  assumes "disps soap b = Some (entry_of ep)"
  shows "destroy_dispatch_entry (soap\<lparr>disps := (disps soap)(b \<mapsto> (entry_of ep)\<lparr>usageCount := 2\<rparr>)\<rparr>) (Some b) = Some soap"
  using assms by (simp add: destroy_dispatch_entry_def entry_of_def fun_upd_idem)

text \<open>The operation gets a context whose tables could be made.\<close>

definition op_mem_ok :: "in_mem \<Rightarrow> bool" where
  "op_mem_ok m \<longleftrightarrow> im_op m \<and> im_cntx m = (True, True, True)"

lemma create_op_ok:
  assumes "op_mem_ok m"
  shows "\<exists>c fs. create_op_entry m = Some (Some (\<lparr>op_expires = 0, op_maxsize = 0, op_in_doc = None, op_out_doc = None\<rparr>, c)) \<and> ws_destroy_context c = Some fs"
proof -
  obtain e where e: "context_table True = Some (Some e)" "hash_ok (e :: ctx_val option hash_t)"
    using context_table_ok [where 'v = "ctx_val option"] by blast
  obtain i where i: "context_table True = Some (Some i)" "hash_ok (i :: addr hash_t)"
    using context_table_ok [where 'v = addr] by blast
  obtain fe where "hash_free (Some e) = Some fe"
    using hash_free_total [OF e(2)] by blast
  moreover obtain fi where "hash_free (Some i) = Some fi"
    using hash_free_total [OF i(2)] by blast
  ultimately show ?thesis
    using assms e(1) i(1)
    by (auto simp: op_mem_ok_def create_op_entry_def ws_create_context_def ws_initialize_context_def ws_destroy_context_def)
qed

lemma inbound_envelope_cases:
  assumes "\<not> wsman_fault_occured (msg_status msg)"
  shows "\<exists>msg'. wsman_build_inbound_envelope L (Some root) msg = Some (Some root, msg') \<and>
    (wsman_fault_occured (msg_status msg') \<longleftrightarrow> \<not> acceptable L root) \<and>
    (acceptable L root \<or> (find_fault (fault_code (msg_status msg')) = None
       \<longleftrightarrow> node_query_name root = SOAP_ENVELOPE \<and> (\<exists>u. node_query_ns root = Some u \<and> u \<noteq> XML_NS_SOAP_1_2)))"
proof -
  define msg1 where "msg1 = (if wsman_is_identify_request (Some root) then wsman_set_message_flags msg FLAG_IDENTIFY_REQUEST else msg)"
  have "\<not> wsman_fault_occured (msg_status msg1)"
    using assms by (simp add: msg1_def wsman_set_message_flags_def)
  from valid_envelope_or_fault [OF this, of L root, unfolded generate_fault_None] obtain ok msg' where
    v: "wsman_is_valid_envelope L msg1 (Some root) = Some (ok, msg')" "ok = acceptable L root"
    "if ok then msg' = msg1
     else wsman_fault_occured (msg_status msg') \<and>
       (find_fault (fault_code (msg_status msg')) = None
          \<longleftrightarrow> node_query_name root = SOAP_ENVELOPE \<and> (\<exists>u. node_query_ns root = Some u \<and> u \<noteq> XML_NS_SOAP_1_2))"
    by blast
  have "wsman_build_inbound_envelope L (Some root) msg = Some (Some root, msg')"
    using v(1) by (simp add: wsman_build_inbound_envelope_def msg1_def)
  then show ?thesis
    using v(2,3) \<open>\<not> wsman_fault_occured (msg_status msg1)\<close> by (auto split: if_splits)
qed

text \<open>The specification of a request that was given the dispatch entry of \<open>ep\<close>, if any: \<open>g\<close> and \<open>g'\<close> are the
  states of the service before and after it, \<open>r\<close> is the answer.\<close>

definition handled ::
  "inlib \<Rightarrow> bool \<Rightarrow> in_mem \<Rightarrow> 'g service \<Rightarrow> isoap \<Rightarrow> xnode \<Rightarrow> WsDispatchEndPointInfo option \<Rightarrow> 'g \<Rightarrow> isoap \<Rightarrow> xdoc \<Rightarrow> 'g \<Rightarrow> bool" where
  "handled il ignore m serve s root ep g s' r g' \<longleftrightarrow> r \<noteq> None \<and>
     (case ep of
        None \<Rightarrow> g' = g \<and> known_ids s' = known_ids s \<and> wsman_is_fault_envelope r
      | Some e \<Rightarrow>
          if admissible il ignore (known_ids s) (Some root)
          then served serve il (the (callback_of e)) (ep_at e) root g g' \<and>
            known_ids s' = ids_after (il_xml il) (im_node m) (Some root) (known_ids s)
          else g' = g \<and> wsman_is_fault_envelope r)"

lemma inbound_entry_handled:
  assumes acc: "acceptable (il_xml il) root" and msg: "\<not> wsman_fault_occured (msg_status (im_msg msg))"
    and d: "get_dispatch_entry (il_xml il) (im_table m) saved (is_cntx s) (is_soap s) (Some root) = Some (disp, cntx', soap')"
    and e: "case disp of
       None \<Rightarrow> ep = None \<and> soap' = is_soap s
     | Some b \<Rightarrow> \<exists>x. ep = Some x \<and> callback_of x \<noteq> None \<and> disps (is_soap s) b = Some (entry_of x) \<and>
         soap' = is_soap s\<lparr>disps := (disps (is_soap s))(b \<mapsto> (entry_of x)\<lparr>usageCount := 2\<rparr>)\<rparr>"
    and ok: "in_ok m s" "op_mem_ok m" "inboundFilterList s = []" "few_selectors (Some root)"
  shows "\<exists>s' msg' g'. dispatch_inbound_call il ext m ignore saved serve (Some root) s msg g = Some (s', msg', g') \<and>
    is_soap s' = is_soap s \<and> is_cntx s' = cntx' \<and> inboundFilterList s' = [] \<and> in_ok m s' \<and> handled il ignore m serve s root ep g s' (im_response msg') g'"
proof -
  obtain wm where wm: "wsman_build_inbound_envelope (il_xml il) (Some root) (im_msg msg) = Some (Some root, wm)"
    "\<not> wsman_fault_occured (msg_status wm)"
    using inbound_envelope_cases [OF msg, of "il_xml il" root] acc by blast
  let ?msg = "msg\<lparr>im_msg := wm\<rparr>" and ?s = "s\<lparr>is_cntx := cntx', is_soap := soap'\<rparr>"
  note call = dispatch_inbound_call_def wm(1) Let_def bind.bind_lunit prod.case wm(2) d inmsg.simps if_False
  show ?thesis
  proof (cases disp)
    case None
    have "find_fault WSA_DESTINATION_UNREACHABLE \<noteq> None"
      unfolding find_fault_None by simp
    then have "wsman_is_fault_envelope (im_response (dispatcher_create_fault il
        (inbound_fault ?msg WSA_DESTINATION_UNREACHABLE WSMAN_DETAIL_INVALID_RESOURCEURI) (Some root)))" (is "wsman_is_fault_envelope ?r")
      using create_fault_response [of ?msg WSA_DESTINATION_UNREACHABLE il WSMAN_DETAIL_INVALID_RESOURCEURI "Some root"] wm(2) by simp
    moreover have "in_ok m ?s" "known_ids ?s = known_ids s"
      using ok(1) by (simp_all add: in_ok_def known_ids_def)
    moreover have "dispatch_inbound_call il ext m ignore saved serve (Some root) s msg g = Some (?s, dispatcher_create_fault il
        (inbound_fault ?msg WSA_DESTINATION_UNREACHABLE WSMAN_DETAIL_INVALID_RESOURCEURI) (Some root), g)"
      using None by (simp only: call option.case)
    moreover have "?r \<noteq> None"
      using calculation(1) by (rule fault_has_response)
    ultimately show ?thesis
      using None e ok(3) by (simp add: handled_def)
  next
    case (Some b)
    then obtain x where x: "ep = Some x" "callback_of x \<noteq> None" "disps (is_soap s) b = Some (entry_of x)"
      "soap' = is_soap s\<lparr>disps := (disps (is_soap s))(b \<mapsto> (entry_of x)\<lparr>usageCount := 2\<rparr>)\<rparr>"
      using e by auto
    let ?d = "(entry_of x)\<lparr>usageCount := 2\<rparr>"
    obtain cb where cb: "callback_of x = Some cb" "serviceCallback ?d = Some cb"
      using x(2) by (auto simp: entry_of_def)
    obtain c fs where op: "create_op_entry m = Some (Some (\<lparr>op_expires = 0, op_maxsize = 0, op_in_doc = None, op_out_doc = None\<rparr>, c))"
      "ws_destroy_context c = Some fs"
      using create_op_ok [OF ok(2)] by blast
    have sok: "in_ok m ?s" "inboundFilterList ?s = []" "known_ids ?s = known_ids s"
      using ok(1,3) by (simp_all add: in_ok_def known_ids_def)
    let ?op = "\<lparr>op_expires = 0, op_maxsize = 0, op_in_doc = Some root, op_out_doc = None\<rparr>"
    have "op_in_doc ?op = Some root" "op_maxsize ?op = 0" "\<not> wsman_fault_occured (msg_status (im_msg ?msg))"
      using wm(2) by simp_all
    from process_inbound_eq [OF cb(2) this(1,2) sok(1) ok(4) sok(2) this(3), of il ext ignore serve g]
    obtain rv s' op' msg' g' l where p: "process_inbound_operation il ext m ignore serve ?d ?s ?op ?msg g = Some (rv, s', op', msg', g')"
      "s' = ?s\<lparr>processedMsgIdList := l\<rparr>" "in_ok m s'" "im_response (dispatcher_create_fault il msg' (Some root)) \<noteq> None"
      "if admissible il ignore (known_ids ?s) (Some root)
       then served serve il cb (serviceData ?d) root g g' \<and> known_ids s' = ids_after (il_xml il) (im_node m) (Some root) (known_ids ?s)
       else g' = g \<and> wsman_is_fault_envelope (im_response (dispatcher_create_fault il msg' (Some root)))"
      by blast
    let ?s' = "s'\<lparr>is_soap := is_soap s\<rparr>"
    have soap': "disps soap' b = Some ?d"
      using x(4) by simp
    have "destroy_op_entry s' b c = Some ?s'"
      using p(2,3) op(2) destroy_entry_back [OF x(3)] x(4) by (simp add: destroy_op_entry_def in_ok_def)
    then have "dispatch_inbound_call il ext m ignore saved serve (Some root) s msg g = Some (?s', dispatcher_create_fault il msg' (Some root), g')"
      using Some op(1) p(1) soap' by (simp add: dispatch_inbound_call_def wm d)
    moreover have "in_ok m ?s'" "known_ids ?s' = known_ids s'" "inboundFilterList ?s' = []" "is_cntx ?s' = cntx'"
      using p(2,3) ok(3) by (simp_all add: in_ok_def known_ids_def)
    moreover have sd: "serviceData ?d = ep_at x"
      by (simp add: entry_of_def)
    ultimately show ?thesis
      using p(4) p(5) [unfolded sok(3) sd] x(1) cb(1) by (simp add: handled_def)
  qed
qed

lemma endpoint_has_callback: "list_all ifc_ok ifcs \<Longrightarrow> ep \<in> set (all_endpoints ifcs) \<Longrightarrow> callback_of ep \<noteq> None"
  by (auto simp: all_endpoints_def ifc_ok_def list_all_iff)

lemma runs_keep:
  assumes "runs al ifcs s" "is_soap s' = is_soap s" "ctx_ok (is_cntx s')" "inboundFilterList s' = []"
  shows "runs al ifcs s'"
  using assms by (simp add: runs_def)

lemma runs_no_filters: "runs al ifcs s \<Longrightarrow> inboundFilterList s = []"
  by (simp add: runs_def)

text \<open>An envelope of another version of SOAP.\<close>

definition version_mismatch :: "xdoc \<Rightarrow> bool" where
  "version_mismatch doc \<longleftrightarrow>
     (\<exists>root u. doc = Some root \<and> node_query_name root = SOAP_ENVELOPE \<and> node_query_ns root = Some u \<and> u \<noteq> XML_NS_SOAP_1_2)"

lemma version_mismatch_Some:
  "version_mismatch (Some root) \<longleftrightarrow> node_query_name root = SOAP_ENVELOPE \<and> (\<exists>u. node_query_ns root = Some u \<and> u \<noteq> XML_NS_SOAP_1_2)"
  by (auto simp: version_mismatch_def)

lemma inbound_rejected:
  assumes "wsman_build_inbound_envelope (il_xml il) parsed (im_msg msg) = Some (parsed, wm)" "wsman_fault_occured (msg_status wm)"
  shows "dispatch_inbound_call il ext m ignore saved serve parsed s msg g = Some (s, dispatcher_create_fault il (msg\<lparr>im_msg := wm\<rparr>) parsed, g)"
  using assms by (simp add: dispatch_inbound_call_def)


text \<open>C1: What an inbound call does with a request that names a resource and an action (and is neither an identify request nor about a
  subscription).  The callback of the endpoint that the specification \<open>target\<close> gives for resource and action is called
  exactly when the request is admissible: its message id is new, it uses no unsupported feature, every header marked
  \<open>mustUnderstand\<close> is known, the control headers are valid and no selector is given twice.  It is called once, with the request and the
  limit of the envelope size.  Otherwise the service is not touched and the answer is a fault.\<close>

theorem service_called_iff_admissible:
  assumes "runs al ifcs s" "list_all ifc_ok ifcs" "distinct (map ep_at (all_endpoints ifcs))" "in_ok m s" "op_mem_ok m"
    and "\<not> wsman_fault_occured (msg_status (im_msg msg))" "acceptable (il_xml il) root" "few_selectors (Some root)"
    and req: "\<not> wsman_is_identify_request (Some root)" "\<not> wsman_is_event_related_request (il_xml il) (Some root)"
    and u: "wsman_get_resource_uri (il_xml il) (indoc (is_cntx s)) (Some root) = Some u"
    and a: "wsman_get_action (il_xml il) (indoc (is_cntx s)) (Some root) = Some a"
  shows "\<exists>s' msg' g'. dispatch_inbound_call il ext m ignore saved serve (Some root) s msg g = Some (s', msg', g') \<and>
    handled il ignore m serve s root (target ifcs u a) g s' (im_response msg') g'"
proof -
  obtain di where di: "dispatcherData (is_soap s) = Some di" "interfaces di = ifcs" "registered al (all_endpoints ifcs) (is_soap s) di"
    and c: "ctx_ok (is_cntx s)" "\<not> data_freed (is_soap s)" "inboundFilterList s = []"
    using assms(1) by (auto simp: runs_def)
  obtain cntx' where d: "wsman_dispatcher (il_xml il) (im_table m) saved (is_cntx s) di (Some root) =
      Some (Option.bind (target ifcs u a) (find_disp di), cntx')" "ctx_ok cntx'"
    using wsman_dispatcher_target [OF c(1) assms(2) di(2) option.distinct(2) req u a] by blast
  have ep: "\<exists>b. find_disp di x = Some b \<and> disps (is_soap s) b = Some (entry_of x) \<and> callback_of x \<noteq> None" if "target ifcs u a = Some x" for x
  proof -
    have x: "x \<in> set (all_endpoints ifcs)"
      using that by (rule target_endpoint)
    obtain i where "i < length (all_endpoints ifcs)" "all_endpoints ifcs ! i = x" "find_disp di x = Some (the (al i))"
      using find_disp_registered [OF di(3) assms(3) x] by blast
    then show ?thesis
      using di(3) endpoint_has_callback [OF assms(2) x] by (auto simp: registered_def)
  qed
  let ?soap = "case target ifcs u a of None \<Rightarrow> is_soap s
     | Some x \<Rightarrow> is_soap s\<lparr>disps := (disps (is_soap s))(the (find_disp di x) \<mapsto> (entry_of x)\<lparr>usageCount := 2\<rparr>)\<rparr>"
  have get: "get_dispatch_entry (il_xml il) (im_table m) saved (is_cntx s) (is_soap s) (Some root) =
      Some (Option.bind (target ifcs u a) (find_disp di), cntx', ?soap)"
    using d(1) di(1) c(2) ep by (cases "target ifcs u a") (auto simp: get_dispatch_entry_def entry_of_def Let_def)
  have "case Option.bind (target ifcs u a) (find_disp di) of
       None \<Rightarrow> target ifcs u a = None \<and> ?soap = is_soap s
     | Some b \<Rightarrow> \<exists>x. target ifcs u a = Some x \<and> callback_of x \<noteq> None \<and> disps (is_soap s) b = Some (entry_of x) \<and>
         ?soap = is_soap s\<lparr>disps := (disps (is_soap s))(b \<mapsto> (entry_of x)\<lparr>usageCount := 2\<rparr>)\<rparr>"
    using ep by (cases "target ifcs u a") auto
  from inbound_entry_handled [OF assms(7,6) get this assms(4,5) c(3) assms(8), of ext ignore serve g] show ?thesis
    by blast
qed

definition sample_inlib :: inlib where
  "sample_inlib = \<lparr>il_xml = plain_xmllib, il_nd = empty_nsdoc, il_uuid = ''uuid:1'', il_dump_len = (\<lambda>_. 0), il_xpath = (\<lambda>_. None),
     il_dround = (\<lambda>_. 0)\<rparr>"

definition sample_mem :: in_mem where
  "sample_mem = \<lparr>im_list = True, im_node = True, im_hash = True, im_alloc = (\<lambda>i. (Some i, True)), im_table = True, im_op = True,
     im_cntx = (True, True, True)\<rparr>"

definition sample_server :: "soap_t \<Rightarrow> isoap" where
  "sample_server rt = \<lparr>is_soap = rt, is_cntx = sample_context, processedMsgIdList = None, soap_locked = False, inboundFilterList = [],
     outboundFilterList = []\<rparr>"

definition sample_inmsg :: inmsg where
  "sample_inmsg = \<lparr>im_msg = wsman_soap_message_new, http_code = 0, im_response = None\<rparr>"

definition sample_call :: xnode where
  "sample_call = Elem (Some XML_NS_SOAP_1_2) SOAP_ENVELOPE []
     [Elem (Some XML_NS_SOAP_1_2) SOAP_HEADER []
        [Elem (Some XML_NS_WS_MAN) WSM_RESOURCE_URI [] [Text ''urn:b/X''], Elem (Some XML_NS_ADDRESSING) WSA_ACTION [] [Text ''urn:b/run''],
         Elem (Some XML_NS_ADDRESSING) WSA_REPLY_TO [] [], Elem (Some XML_NS_ADDRESSING) WSA_TO [] [],
         Elem (Some XML_NS_ADDRESSING) WSA_MESSAGE_ID [] [Text ''uuid:7'']],
      Elem (Some XML_NS_SOAP_1_2) SOAP_BODY [] []]"

text \<open>A service that counts its calls.\<close>

definition counting :: "nat service" where
  "counting cb data op g = (0, op, g + 1)"

lemma sample_server_ok:
  "\<exists>rt. ws_create_runtime True Some (Some sample_ifcs) sample_soap = Some (Some rt) \<and> runs Some sample_ifcs (sample_server rt)"
  using create_runtime_ok [OF disp_alloc_Some sample_ifcs_ok(1,2,4), of sample_soap] sample_context_ok
  by (auto simp: runs_def sample_server_def)

lemma sample_memory_ok: "in_ok sample_mem (sample_server rt)" "op_mem_ok sample_mem"
  "\<not> wsman_fault_occured (msg_status (im_msg sample_inmsg))"
  by (simp_all add: in_ok_def sample_mem_def sample_server_def alloc_ok_def inj_def op_mem_ok_def sample_inmsg_def wsman_soap_message_new_def
      wsman_fault_occured_def)

lemma sample_call_ok:
  "acceptable (il_xml sample_inlib) sample_call" "\<not> wsman_is_identify_request (Some sample_call)"
  "\<not> wsman_is_event_related_request (il_xml sample_inlib) (Some sample_call)"
  "wsman_get_resource_uri (il_xml sample_inlib) (indoc (is_cntx (sample_server rt))) (Some sample_call) = Some ''urn:b/X''"
  "wsman_get_action (il_xml sample_inlib) (indoc (is_cntx (sample_server rt))) (Some sample_call) = Some ''urn:b/run''"
proof -
  have i: "il_xml sample_inlib = plain_xmllib" "indoc (is_cntx (sample_server rt)) = None"
    by (simp_all add: sample_inlib_def sample_server_def sample_context_def)
  show "acceptable (il_xml sample_inlib) sample_call" "\<not> wsman_is_identify_request (Some sample_call)"
    "\<not> wsman_is_event_related_request (il_xml sample_inlib) (Some sample_call)"
    "wsman_get_resource_uri (il_xml sample_inlib) (indoc (is_cntx (sample_server rt))) (Some sample_call) = Some ''urn:b/X''"
    "wsman_get_action (il_xml sample_inlib) (indoc (is_cntx (sample_server rt))) (Some sample_call) = Some ''urn:b/run''"
    unfolding i by code_simp+
qed

lemma sample_target:
  "map_option (\<lambda>e. (ep_at e, callback_of e)) (target sample_ifcs ''urn:b/X'' ''urn:b/run'') = Some (4, Some (endpoint_cb 102))"
  by (simp add: target_def sample_ifcs_def serves_def sample_ep_def chosen_def live_def strip_ns_def wsman_dispatcher_match_ns_def
      callback_of_def disp_type_defs)

lemma sample_few: "few_selectors (Some sample_call)" "selector_set (Some sample_call) = None"
proof -
  show s: "selector_set (Some sample_call) = None"
    by code_simp
  show "few_selectors (Some sample_call)"
    unfolding few_selectors_def s by simp
qed

lemma sample_admissible: "admissible sample_inlib False [] (Some sample_call)"
  "ids_after plain_xmllib True (Some sample_call) [] = [''uuid:7'']"
proof -
  have i: "il_xml sample_inlib = plain_xmllib"
    by (simp add: sample_inlib_def)
  have "map_option (\<lambda>n. ws_xml_get_node_text plain_xmllib (Some n)) (message_id (Some sample_call)) = Some (Some ''uuid:7'')"
    by code_simp
  then have "id_ok plain_xmllib False [] (Some sample_call)"
    by (auto simp: id_ok_def)
  moreover have "features_ok plain_xmllib (Some sample_call)"
  proof -
    have "child_of (ws_xml_get_soap_body (Some sample_call)) XML_NS_ENUMERATION WSENUM_ENUMERATE = None"
      "child_of (ws_xml_get_soap_body (Some sample_call)) XML_NS_EVENTING WSEVENT_SUBSCRIBE = None"
      "child_of (ws_xml_get_soap_header (Some sample_call)) XML_NS_ADDRESSING WSA_FAULT_TO = None"
      "\<not> mu_true (child_of (ws_xml_get_soap_header (Some sample_call)) XML_NS_WS_MAN WSM_LOCALE)"
      by code_simp+
    then show ?thesis
      by (simp add: features_ok_def)
  qed
  moreover have "map_option (\<lambda>h. list_all (\<lambda>c. \<not> ws_xml_find_attr_bool (Some c) (node_query_ns h) SOAP_MUST_UNDERSTAND) (elements (kids h)))
      (ws_xml_get_soap_header (Some sample_call)) = Some True"
    by code_simp
  then have "mustunderstand_ok (Some sample_call)"
    by (auto simp: mustunderstand_ok_def list_all_iff)
  moreover have "control_ok sample_inlib (Some sample_call)"
  proof -
    have "child_of (ws_xml_get_soap_header (Some sample_call)) XML_NS_WS_MAN WSM_MAX_ENVELOPE_SIZE = None"
      "child_of (ws_xml_get_soap_header (Some sample_call)) XML_NS_WS_MAN WSM_OPERATION_TIMEOUT = None"
      by code_simp+
    then show ?thesis
      by (simp add: control_ok_def)
  qed
  ultimately show "admissible sample_inlib False [] (Some sample_call)"
    unfolding admissible_def i using sample_few(2) by (simp add: selectors_ok_def)
  show "ids_after plain_xmllib True (Some sample_call) [] = [''uuid:7'']"
    by code_simp
qed


theorem service_called_iff_admissible_witness:
  "\<exists>rt s' msg'. ws_create_runtime True Some (Some sample_ifcs) sample_soap = Some (Some rt) \<and>
    dispatch_inbound_call sample_inlib (\<lambda>_ op. (0, op)) sample_mem False (\<lambda>_. None) counting (Some sample_call) (sample_server rt) sample_inmsg 0 =
      Some (s', msg', 1) \<and> known_ids s' = [''uuid:7'']"
proof -
  obtain rt where rt: "ws_create_runtime True Some (Some sample_ifcs) sample_soap = Some (Some rt)" "runs Some sample_ifcs (sample_server rt)"
    using sample_server_ok by blast
  obtain e where e: "target sample_ifcs ''urn:b/X'' ''urn:b/run'' = Some e"
    using sample_target by auto
  obtain s' msg' g' where r: "dispatch_inbound_call sample_inlib (\<lambda>_ op. (0, op)) sample_mem False (\<lambda>_. None) counting (Some sample_call)
      (sample_server rt) sample_inmsg 0 = Some (s', msg', g')"
    "handled sample_inlib False sample_mem counting (sample_server rt) sample_call (Some e) 0 s' (im_response msg') g'"
    using service_called_iff_admissible [OF rt(2) sample_ifcs_ok(2,3) sample_memory_ok sample_call_ok(1) sample_few(1) sample_call_ok(2-5),
        of "\<lambda>_ op. (0, op)" False "\<lambda>_. None" counting 0] unfolding e by blast
  have "known_ids (sample_server rt) = []" "il_xml sample_inlib = plain_xmllib" "im_node sample_mem"
    by (simp_all add: known_ids_def sample_server_def sample_inlib_def sample_mem_def)
  then have "g' = 1" "known_ids s' = [''uuid:7'']"
    using r(2) sample_admissible by (auto simp: handled_def served_def counting_def)
  then show ?thesis
    using rt(1) r(1) by blast
qed

section \<open>The window of message ids\<close>

text \<open>The check of one request after the other; the booleans say which were rejected.\<close>

fun check_ids :: "inlib \<Rightarrow> in_mem \<Rightarrow> bool \<Rightarrow> isoap \<Rightarrow> op_t list \<Rightarrow> (bool list \<times> isoap) option" where
  "check_ids il m ignore s [] = Some ([], s)"
| "check_ids il m ignore s (op # ops) = do {
     (bad, op', s) \<leftarrow> wsman_is_duplicate_message_id il m ignore s op;
     (bads, s) \<leftarrow> check_ids il m ignore s ops;
     Some (bad # bads, s)
   }"

definition window :: "string list \<Rightarrow> string list" where
  "window h = drop (length h - PROCESSED_MSG_ID_MAX_SIZE) h"

text \<open>The specification keeps the whole history \<open>h\<close> of the accepted ids.\<close>

fun replay :: "string list \<Rightarrow> string list \<Rightarrow> bool list \<times> string list" where
  "replay h [] = ([], h)"
| "replay h (i # ks) =
     (if i \<in> set (window h) then (case replay h ks of (bs, h') \<Rightarrow> (True # bs, h'))
      else (case replay (h @ [i]) ks of (bs, h') \<Rightarrow> (False # bs, h')))"

lemma remember_window: "remember_id True i (window h) = window (h @ [i])"
proof -
  have p: "(0 :: nat) < PROCESSED_MSG_ID_MAX_SIZE"
    by (simp add: PROCESSED_MSG_ID_MAX_SIZE_def)
  have "length (window h) + 1 - PROCESSED_MSG_ID_MAX_SIZE + (length h - PROCESSED_MSG_ID_MAX_SIZE) = length h + 1 - PROCESSED_MSG_ID_MAX_SIZE"
    by (simp add: window_def)
  then show ?thesis
    using p by (simp add: remember_id_def window_def Let_def)
qed

definition id_of :: "xmllib \<Rightarrow> op_t \<Rightarrow> string option" where
  "id_of L op = Option.bind (message_id (op_in_doc op)) (\<lambda>n. ws_xml_get_node_text L (Some n))"

lemma message_id_None: "message_id None = None"
  by code_simp

lemma check_ids_replay:
  assumes "map (id_of (il_xml il)) ops = map Some ks" "[] \<notin> set ks" "\<not> soap_locked s" "processedMsgIdList s \<noteq> None \<or> im_list m" "im_node m"
    and "known_ids s = window h"
  shows "\<exists>s'. check_ids il m False s ops = Some (fst (replay h ks), s') \<and> known_ids s' = window (snd (replay h ks))"
  using assms
proof (induction ops arbitrary: ks s h)
  case Nil
  then show ?case
    by simp
next
  case (Cons op ops)
  then obtain i js where ks: "ks = i # js" "id_of (il_xml il) op = Some i" "map (id_of (il_xml il)) ops = map Some js"
    by (auto simp: Cons_eq_map_conv)
  then obtain n where n: "message_id (op_in_doc op) = Some n" "ws_xml_get_node_text (il_xml il) (Some n) = Some i"
    by (auto simp: id_of_def bind_eq_Some_conv)
  have "op_in_doc op \<noteq> None"
    using n(1) message_id_None by (metis option.distinct(1))
  then obtain root where root: "op_in_doc op = Some root"
    by blast
  have ok: "id_ok (il_xml il) False (known_ids s) (Some root) \<longleftrightarrow> i \<notin> set (window h)"
    using n root ks(1) Cons.prems(2,6) by (auto simp: id_ok_def)
  have after: "ids_after (il_xml il) (im_node m) (Some root) (known_ids s) = window (h @ [i])"
    using n root Cons.prems(5,6) by (simp add: ids_after_def remember_window)
  obtain op' s1 l where d: "wsman_is_duplicate_message_id il m False s op = Some (i \<in> set (window h), op', s1)"
    "s1 = s\<lparr>processedMsgIdList := l\<rparr>" "l \<noteq> None \<or> im_list m"
    "known_ids s1 = window (if i \<in> set (window h) then h else h @ [i])"
    using duplicate_id_eq [OF root Cons.prems(3,4), of il False, unfolded ok after]
    unfolding Cons.prems(6) by (auto split: if_splits)
  have "\<not> soap_locked s1" "processedMsgIdList s1 \<noteq> None \<or> im_list m"
    using d(2,3) Cons.prems(3) by simp_all
  from Cons.IH [OF ks(3) _ this Cons.prems(5) d(4)] ks(1) Cons.prems(2)
  obtain s' where "check_ids il m False s1 ops = Some (fst (replay (if i \<in> set (window h) then h else h @ [i]) js), s')"
    "known_ids s' = window (snd (replay (if i \<in> set (window h) then h else h @ [i]) js))"
    by auto
  then show ?case
    using d(1) ks(1) by (auto split: prod.split)
qed



end
