(* ===== verification/Spec2Isabelle.thy ===== *)
theory Spec2Isabelle
  imports Kazlib_List Kazlib_Hash Ws_Names Ws_Faults Ws_Xml U_Base64 U_Buf U_Misc U_Table U_Uri Ws_Epr Ws_Filter Ws_Duration Ws_Request Ws_Envelope
    Ws_Event_Pool Ws_Context Ws_Dispatch Ws_Enum Ws_Enum_Threads Ws_Inbound
begin

text \<open>
  A verification library for Openwsman (\<open>src/\<close>).
\<close>

end
